(* ===== verification/Prelude.thy ===== *)
theory Prelude
  imports Main "HOL-Library.List_Lexorder" "HOL-Library.Char_ord" "HOL-Library.Finite_Map"
    "HOL-Library.Word"
begin

text \<open>
  Shared ground of the development: the names of Go's basic types, the error values the
  components return, the collections the component proofs share, and generic lemmas on
  lists, finite maps and sorted association lists.

  A Go \<open>string\<close> and a Go \<open>[]byte\<close> are both sequences of bytes. They are Isabelle
  \<open>string\<close>s here, one \<open>char\<close> per byte; \<open>byte_val\<close> reads a byte as a number.
\<close>

subsection \<open>Basic types\<close>

type_synonym go_string = string

text \<open>A Go \<open>time.Duration\<close>: a signed 64-bit count of nanoseconds.\<close>

type_synonym duration = "64 word"

abbreviation byte_val :: "char \<Rightarrow> nat" where
  "byte_val c \<equiv> of_char c"

abbreviation byte_of :: "nat \<Rightarrow> char" where
  "byte_of n \<equiv> char_of n"

subsection \<open>Errors\<close>

text \<open>
  Go errors. \<open>Errorf\<close> is \<open>fmt.Errorf\<close> without a wrapped error (or \<open>errors.New\<close> at the
  place of use), \<open>Wrap ctx e\<close> is \<open>fmt.Errorf("ctx: %w", e)\<close> and \<open>WrapDetail e d\<close> is
  \<open>fmt.Errorf("%w: %v", e, d)\<close>: it wraps \<open>e\<close> and only prints \<open>d\<close>. \<open>Errorq fmt x\<close> is
  \<open>fmt.Errorf(fmt, x)\<close> with its verb left unexpanded: the format and its argument. The sentinels are the
  package variables the code compares against with \<open>errors.Is\<close>, \<open>External\<close> is an error that
  a called service or driver produced, with its tag.
\<close>

datatype go_error =
    Errorf go_string
  | Errorq go_string go_string
  | Wrap go_string go_error
  | WrapDetail go_error go_error
  | ErrInvalidTransaction
  | ErrConflict
  | ErrLeaseLost
  | ErrSecretNotFound
  | ErrNotExist
  | ContextCanceled
  | DeadlineExceeded
  | External go_string

text \<open>\<open>errors.Is err target\<close>: the target is somewhere on the chain of wrapped errors.\<close>

primrec errors_is :: "go_error \<Rightarrow> go_error \<Rightarrow> bool" where
  "errors_is (Errorf m) t = (t = Errorf m)"
| "errors_is (Errorq m x) t = (t = Errorq m x)"
| "errors_is (Wrap c e) t = (t = Wrap c e \<or> errors_is e t)"
| "errors_is (WrapDetail e d) t = (t = WrapDetail e d \<or> errors_is e t)"
| "errors_is ErrInvalidTransaction t = (t = ErrInvalidTransaction)"
| "errors_is ErrConflict t = (t = ErrConflict)"
| "errors_is ErrLeaseLost t = (t = ErrLeaseLost)"
| "errors_is ErrSecretNotFound t = (t = ErrSecretNotFound)"
| "errors_is ErrNotExist t = (t = ErrNotExist)"
| "errors_is ContextCanceled t = (t = ContextCanceled)"
| "errors_is DeadlineExceeded t = (t = DeadlineExceeded)"
| "errors_is (External m) t = (t = External m)"

lemma errors_is_refl [simp]: "errors_is e e"
  by (cases e) simp_all

text \<open>The result of a Go function with signature \<open>(T, error)\<close>.\<close>

type_synonym 'a result = "go_error + 'a"

subsection \<open>Collections\<close>

named_theorems store_simps \<open>equations that unfold one store operation on each branch\<close>
named_theorems go_eval \<open>definitions that evaluate the model on concrete inputs\<close>
named_theorems inv_intros \<open>preservation facts of the store invariants\<close>

subsection \<open>Sorted association lists\<close>

text \<open>
  A Go \<open>map[string]any\<close> that the code only ever reads back in key order is kept as an
  association list with strictly increasing keys: \<open>put_sorted\<close> is assignment \<open>m[k] = v\<close>.
\<close>

fun put_sorted :: "'k::linorder \<Rightarrow> 'v \<Rightarrow> ('k \<times> 'v) list \<Rightarrow> ('k \<times> 'v) list" where
  "put_sorted k v [] = [(k, v)]"
| "put_sorted k v ((a, b) # m) =
     (if k < a then (k, v) # (a, b) # m
      else if k = a then (k, v) # m
      else (a, b) # put_sorted k v m)"

definition sorted_keys :: "('k::linorder \<times> 'v) list \<Rightarrow> bool" where
  "sorted_keys m \<longleftrightarrow> sorted_wrt (<) (map fst m)"

lemma set_keys_put_sorted: "fst ` set (put_sorted k v m) = insert k (fst ` set m)"
  by (induction k v m rule: put_sorted.induct) auto

lemma sorted_keys_put_sorted: "sorted_keys m \<Longrightarrow> sorted_keys (put_sorted k v m)"
  unfolding sorted_keys_def
proof (induction k v m rule: put_sorted.induct)
  case (2 k v a b m)
  have keys: "set (map fst (put_sorted k v m)) = insert k (set (map fst m))"
    using set_keys_put_sorted [of k v m] by simp
  show ?case
  proof (cases "k < a \<or> k = a")
    case True
    with 2 show ?thesis by (auto intro: order.strict_trans)
  next
    case False
    with 2 keys show ?thesis by auto
  qed
qed simp

lemma map_of_put_sorted: "sorted_keys m \<Longrightarrow> map_of (put_sorted k v m) = (map_of m)(k \<mapsto> v)"
  unfolding sorted_keys_def
  by (induction k v m rule: put_sorted.induct) (auto simp: fun_eq_iff)

text \<open>Two sorted association lists that agree as maps are equal: the representation is canonical.\<close>

lemma sorted_keys_map_of_inj:
  assumes "sorted_keys m" "sorted_keys n" "map_of m = map_of n"
  shows "m = n"
proof -
  have d: "distinct (map fst m)" "distinct (map fst n)"
    using assms(1,2) by (auto simp: sorted_keys_def strict_sorted_iff)
  have s: "sorted (map fst m)" "sorted (map fst n)"
    using assms(1,2) by (auto simp: sorted_keys_def strict_sorted_iff)
  from d assms(3) have "set m = set n"
    by (metis map_of_inject_set)
  moreover from d have "distinct m" "distinct n"
    by (simp_all add: distinct_map)
  moreover have "inj_on fst (set m \<union> set n)"
    using d \<open>set m = set n\<close> by (simp add: distinct_map)
  ultimately show ?thesis
    using map_sorted_distinct_set_unique [of fst m n] s d by blast
qed

subsection \<open>Lists\<close>

lemma dropWhile_length_le: "length (dropWhile P xs) \<le> length xs"
  by (induction xs) auto

lemma takeWhile_append_stop: "\<forall>x \<in> set xs. P x \<Longrightarrow> \<not> P y \<Longrightarrow> takeWhile P (xs @ y # ys) = xs"
  by (induction xs) auto

lemma dropWhile_append_stop: "\<forall>x \<in> set xs. P x \<Longrightarrow> \<not> P y \<Longrightarrow> dropWhile P (xs @ y # ys) = y # ys"
  by (induction xs) auto

text \<open>Splitting at the first separator: equal joins with separator-free heads have equal parts.\<close>

lemma append_sep_inject:
  assumes "sep \<notin> set a" "sep \<notin> set c" "a @ sep # b = c @ sep # d"
  shows "a = c \<and> b = d"
proof -
  have "takeWhile (\<lambda>x. x \<noteq> sep) (a @ sep # b) = a"
    by (rule takeWhile_append_stop) (use assms(1) in auto)
  moreover have "takeWhile (\<lambda>x. x \<noteq> sep) (c @ sep # d) = c"
    by (rule takeWhile_append_stop) (use assms(2) in auto)
  ultimately have "a = c" using assms(3) by simp
  with assms(3) show ?thesis by simp
qed

text \<open>Evaluation on numerals.\<close>

lemma Suc_Suc_0_eval [go_eval]: "Suc (Suc 0) = 2"
  by simp

lemma replicate_numeral [simp]: "replicate (numeral k) x = x # replicate (pred_numeral k) x"
  by (simp add: numeral_eq_Suc)

subsection \<open>Finite maps\<close>

lemma fmupd_idem: "fmlookup m k = Some v \<Longrightarrow> fmupd k v m = m"
  by (rule fmap_ext) auto

lemma fmlookup_fmdom_iff: "k |\<in>| fmdom m \<longleftrightarrow> (\<exists>v. fmlookup m k = Some v)"
  by (simp add: fmlookup_dom_iff)

lemma distinct_sorted_list_of_fset [simp]: "distinct (sorted_list_of_fset A)"
  by (simp add: sorted_list_of_fset.rep_eq)

lemma sorted_sorted_list_of_fset [simp]: "sorted (sorted_list_of_fset A)"
  by (simp add: sorted_list_of_fset.rep_eq)

lemma set_sorted_list_of_fset [simp]: "set (sorted_list_of_fset A) = fset A"
  by (simp add: sorted_list_of_fset.rep_eq)

end
