(* ===== verification/GoText.thy ===== *)
theory GoText
  imports Prelude
begin

text \<open>
  What the program uses of Go's \<open>unicode/utf8\<close>, \<open>strings\<close> and \<open>strconv\<close>: decoding of runes,
  \<open>RuneCountInString\<close>, \<open>ValidString\<close>, \<open>TrimSpace\<close>, \<open>Split\<close>, lower-casing of ASCII and
  decimal printing. A Go string is a byte sequence that need not be UTF-8, so decoding is total:
  an invalid byte is one rune, U+FFFD, of width 1.
\<close>

subsection \<open>Runes\<close>

definition rune_error :: nat where
  [go_eval]: "rune_error = 65533"

definition in_range :: "nat \<Rightarrow> nat \<Rightarrow> char \<Rightarrow> bool" where
  [go_eval]: "in_range lo hi c \<longleftrightarrow> lo \<le> byte_val c \<and> byte_val c \<le> hi"

abbreviation cont_byte :: "char \<Rightarrow> bool" where
  "cont_byte c \<equiv> in_range 128 191 c"

definition payload6 :: "char \<Rightarrow> nat" where
  [go_eval]: "payload6 c = byte_val c mod 64"

text \<open>The bounds of a second byte after a lead byte (Go's table of accepted ranges).\<close>

definition second_lo :: "nat \<Rightarrow> nat" where
  [go_eval]: "second_lo b = (if b = 224 then 160 else if b = 240 then 144 else 128)"

definition second_hi :: "nat \<Rightarrow> nat" where
  [go_eval]: "second_hi b = (if b = 237 then 159 else if b = 244 then 143 else 191)"

text \<open>\<open>utf8.DecodeRuneInString\<close>: the first rune and its width in bytes.\<close>

fun decode_rune :: "go_string \<Rightarrow> nat \<times> nat" where
  "decode_rune [] = (rune_error, 0)"
| "decode_rune (c0 # cs) =
     (let b = byte_val c0 in
      if b < 128 then (b, 1)
      else if b < 194 \<or> 244 < b then (rune_error, 1)
      else if b < 224 then
        (case cs of
           c1 # _ \<Rightarrow> if cont_byte c1 then ((b mod 32) * 64 + payload6 c1, 2) else (rune_error, 1)
         | _ \<Rightarrow> (rune_error, 1))
      else if b < 240 then
        (case cs of
           c1 # c2 # _ \<Rightarrow>
             if in_range (second_lo b) (second_hi b) c1 \<and> cont_byte c2
             then ((b mod 16) * 4096 + payload6 c1 * 64 + payload6 c2, 3)
             else (rune_error, 1)
         | _ \<Rightarrow> (rune_error, 1))
      else
        (case cs of
           c1 # c2 # c3 # _ \<Rightarrow>
             if in_range (second_lo b) (second_hi b) c1 \<and> cont_byte c2 \<and> cont_byte c3
             then ((b mod 8) * 262144 + payload6 c1 * 4096 + payload6 c2 * 64 + payload6 c3, 4)
             else (rune_error, 1)
         | _ \<Rightarrow> (rune_error, 1)))"

lemma decode_rune_size_pos: "0 < snd (decode_rune (c # cs))"
  by (auto simp: Let_def split: list.splits)

lemma decode_rune_size_le: "snd (decode_rune s) \<le> length s"
  by (cases s) (auto simp: Let_def split: list.splits)

text \<open>The string cut into the byte groups that a \<open>range\<close> loop over it visits.\<close>

function chunks :: "go_string \<Rightarrow> go_string list" where
  "chunks [] = []"
| "chunks (c # cs) =
     take (snd (decode_rune (c # cs))) (c # cs) # chunks (drop (snd (decode_rune (c # cs))) (c # cs))"
  by pat_completeness auto
termination
proof (relation "measure length")
  fix c :: char and cs :: string
  show "(drop (snd (decode_rune (c # cs))) (c # cs), c # cs) \<in> measure length"
    using decode_rune_size_pos [of c cs] by (simp del: decode_rune.simps)
qed simp

text \<open>A group is malformed when it decodes to U+FFFD with width 1.\<close>

definition bad_chunk :: "go_string \<Rightarrow> bool" where
  [go_eval]: "bad_chunk ch \<longleftrightarrow> decode_rune ch = (rune_error, 1)"

definition rune_count :: "go_string \<Rightarrow> nat" where
  [go_eval]: "rune_count s = length (chunks s)"

definition valid_string :: "go_string \<Rightarrow> bool" where
  [go_eval]: "valid_string s \<longleftrightarrow> (\<forall>ch \<in> set (chunks s). \<not> bad_chunk ch)"

text \<open>\<open>utf8.EncodeRune\<close>; surrogates and out-of-range values become U+FFFD.\<close>

definition encode_rune :: "nat \<Rightarrow> go_string" where
  [go_eval]: "encode_rune r0 =
     (let r = (if 1114111 < r0 \<or> (55296 \<le> r0 \<and> r0 \<le> 57343) then rune_error else r0) in
      if r < 128 then [byte_of r]
      else if r < 2048 then [byte_of (192 + r div 64), byte_of (128 + r mod 64)]
      else if r < 65536 then
        [byte_of (224 + r div 4096), byte_of (128 + r div 64 mod 64), byte_of (128 + r mod 64)]
      else
        [byte_of (240 + r div 262144), byte_of (128 + r div 4096 mod 64),
         byte_of (128 + r div 64 mod 64), byte_of (128 + r mod 64)])"

lemma concat_chunks [simp]: "concat (chunks s) = s"
  by (induction s rule: chunks.induct) (simp_all del: decode_rune.simps)

lemma rune_count_Nil [simp]: "rune_count [] = 0"
  by (simp add: rune_count_def)

lemma chunk_nonempty: "ch \<in> set (chunks s) \<Longrightarrow> ch \<noteq> []"
proof (induction s rule: chunks.induct)
  case (2 c cs)
  then show ?case
    using decode_rune_size_pos [of c cs] by (auto simp del: decode_rune.simps)
qed simp

lemma rune_count_le_length: "rune_count s \<le> length s"
proof (induction s rule: chunks.induct)
  case (2 c cs)
  let ?n = "snd (decode_rune (c # cs))"
  have n: "0 < ?n" "?n \<le> length (c # cs)"
    using decode_rune_size_pos decode_rune_size_le by blast+
  have "rune_count (drop ?n (c # cs)) \<le> length (drop ?n (c # cs))" by (rule 2)
  then show ?case
    using n by (simp add: rune_count_def del: decode_rune.simps)
qed simp

lemma rune_count_0_iff [simp]: "rune_count s = 0 \<longleftrightarrow> s = []"
  by (cases s) (simp_all add: rune_count_def del: decode_rune.simps)

definition ascii :: "go_string \<Rightarrow> bool" where
  "ascii s \<longleftrightarrow> (\<forall>c \<in> set s. byte_val c < 128)"

lemma ascii_Cons [simp]: "ascii (c # cs) \<longleftrightarrow> byte_val c < 128 \<and> ascii cs"
  by (simp add: ascii_def)

lemma ascii_Nil [simp]: "ascii []"
  by (simp add: ascii_def)

lemma chunks_ascii: "ascii s \<Longrightarrow> chunks s = map (\<lambda>c. [c]) s"
  by (induction s) (simp_all add: ascii_def Let_def)

lemma rune_count_ascii: "ascii s \<Longrightarrow> rune_count s = length s"
  by (simp add: rune_count_def chunks_ascii)

lemma valid_string_ascii: "ascii s \<Longrightarrow> valid_string s"
  by (auto simp: valid_string_def chunks_ascii bad_chunk_def rune_error_def ascii_def Let_def)

subsection \<open>White space\<close>

text \<open>\<open>unicode.IsSpace\<close> on a rune.\<close>

definition is_space_rune :: "nat \<Rightarrow> bool" where
  [go_eval]: "is_space_rune r \<longleftrightarrow>
     (9 \<le> r \<and> r \<le> 13) \<or> r = 32 \<or> r = 133 \<or> r = 160 \<or> r = 5760 \<or> (8192 \<le> r \<and> r \<le> 8202)
     \<or> r = 8232 \<or> r = 8233 \<or> r = 8239 \<or> r = 8287 \<or> r = 12288"

definition space_chunk :: "go_string \<Rightarrow> bool" where
  [go_eval]: "space_chunk ch \<longleftrightarrow> is_space_rune (fst (decode_rune ch))"

text \<open>\<open>strings.TrimSpace\<close>.\<close>

definition trim_space :: "go_string \<Rightarrow> go_string" where
  [go_eval]: "trim_space s = concat (rev (dropWhile space_chunk (rev (dropWhile space_chunk (chunks s)))))"

lemma concat_eq_Nil_chunks: "\<forall>c \<in> set cs. c \<noteq> [] \<Longrightarrow> concat cs = [] \<longleftrightarrow> cs = []"
  by (cases cs) auto

lemma trim_space_empty_iff: "trim_space s = [] \<longleftrightarrow> (\<forall>ch \<in> set (chunks s). space_chunk ch)"
proof -
  let ?k = "rev (dropWhile space_chunk (rev (dropWhile space_chunk (chunks s))))"
  have "\<forall>c \<in> set ?k. c \<noteq> []"
    using chunk_nonempty by (metis set_dropWhileD set_rev)
  then have "concat ?k = [] \<longleftrightarrow> ?k = []" by (rule concat_eq_Nil_chunks)
  also have "\<dots> \<longleftrightarrow> (\<forall>ch \<in> set (chunks s). space_chunk ch)"
    by (metis dropWhile_eq_Nil_conv rev_is_Nil_conv set_rev dropWhile_idem list.set_intros(1)
        hd_dropWhile hd_in_set list.collapse)
  finally show ?thesis by (simp add: trim_space_def)
qed

lemma trim_space_Nil [simp]: "trim_space [] = []"
  by (simp add: trim_space_def)

subsection \<open>Splitting, case and decimal digits\<close>

text \<open>\<open>strings.Split s sep\<close> for a one-byte separator.\<close>

fun split_on :: "char \<Rightarrow> go_string \<Rightarrow> go_string list" where
  "split_on sep [] = [[]]"
| "split_on sep (c # cs) =
     (if c = sep then [] # split_on sep cs
      else (case split_on sep cs of p # ps \<Rightarrow> (c # p) # ps | [] \<Rightarrow> [[c]]))"

lemma split_on_not_Nil [simp]: "split_on sep s \<noteq> []"
  by (induction s) (auto split: list.splits)

lemma split_on_no_sep: "p \<in> set (split_on sep s) \<Longrightarrow> sep \<notin> set p"
  by (induction s arbitrary: p) (auto split: list.splits if_splits)

lemma split_on_single: "sep \<notin> set s \<Longrightarrow> split_on sep s = [s]"
  by (induction s) auto

definition is_digit :: "char \<Rightarrow> bool" where
  [go_eval]: "is_digit c \<longleftrightarrow> 48 \<le> byte_val c \<and> byte_val c \<le> 57"

definition digit_val :: "char \<Rightarrow> nat" where
  [go_eval]: "digit_val c = byte_val c - 48"

definition is_letter :: "char \<Rightarrow> bool" where
  [go_eval]: "is_letter c \<longleftrightarrow> (65 \<le> byte_val c \<and> byte_val c \<le> 90) \<or> (97 \<le> byte_val c \<and> byte_val c \<le> 122)"

text \<open>The ASCII digit of a number below ten.\<close>

definition digit_char :: "nat \<Rightarrow> char" where
  "digit_char d = byte_of (48 + d)"

lemma digit_char_eval [simp]:
  "digit_char 0 = CHR ''0''" "digit_char 1 = CHR ''1''" "digit_char (Suc 0) = CHR ''1''"
  "digit_char 2 = CHR ''2''" "digit_char 3 = CHR ''3''" "digit_char 4 = CHR ''4''"
  "digit_char 5 = CHR ''5''" "digit_char 6 = CHR ''6''" "digit_char 7 = CHR ''7''"
  "digit_char 8 = CHR ''8''" "digit_char 9 = CHR ''9''"
  by (simp_all add: digit_char_def char_of_eq_iff)

lemma is_digit_digit_char [simp]: "d < 10 \<Longrightarrow> is_digit (digit_char d)"
  by (simp add: is_digit_def digit_char_def)

lemma digit_val_digit_char [simp]: "d < 10 \<Longrightarrow> digit_val (digit_char d) = d"
  by (simp add: digit_val_def digit_char_def)

fun itoa :: "nat \<Rightarrow> go_string" where
  "itoa n = (if n < 10 then [digit_char n] else itoa (n div 10) @ [digit_char (n mod 10)])"

declare itoa.simps [simp del]

text \<open>Guarded equations, which the simplifier can use on symbolic arguments without looping.\<close>

lemma itoa_eval [go_eval]:
  "n < 10 \<Longrightarrow> itoa n = [digit_char n]"
  "10 \<le> n \<Longrightarrow> itoa n = itoa (n div 10) @ [digit_char (n mod 10)]"
  by (subst itoa.simps, simp)+

lemma itoa_nonempty [simp]: "itoa n \<noteq> []"
  by (subst itoa.simps) simp

definition itoa_int :: "int \<Rightarrow> go_string" where
  [go_eval]: "itoa_int i = (if i < 0 then CHR ''-'' # itoa (nat (- i)) else itoa (nat i))"

lemma itoa_digits: "\<forall>c \<in> set (itoa n). is_digit c"
proof (induction n rule: itoa.induct)
  case (1 n)
  show ?case
  proof (cases "n < 10")
    case True
    then show ?thesis by (subst itoa.simps) simp
  next
    case False
    with 1 have "\<forall>c \<in> set (itoa (n div 10)). is_digit c" by simp
    with False show ?thesis by (subst itoa.simps) auto
  qed
qed

text \<open>The value of a string of decimal digits, most significant first.\<close>

definition digits_val :: "go_string \<Rightarrow> nat" where
  [go_eval]: "digits_val s = foldl (\<lambda>acc c. 10 * acc + digit_val c) 0 s"

lemma digits_val_snoc [simp]: "digits_val (s @ [c]) = 10 * digits_val s + digit_val c"
  by (simp add: digits_val_def)

lemma digits_val_itoa: "digits_val (itoa n) = n"
proof (induction n rule: itoa.induct)
  case (1 n)
  show ?case
  proof (cases "n < 10")
    case True
    then show ?thesis by (subst itoa.simps) (simp add: digits_val_def)
  next
    case False
    with 1 show ?thesis by (subst itoa.simps) simp
  qed
qed

lemma itoa_inject: "itoa m = itoa n \<longleftrightarrow> m = n"
  by (metis digits_val_itoa)

end
