(* ===== verification/GoTime.thy ===== *)
theory GoTime
  imports GoText "HOL-Library.Monad_Syntax"
begin

text \<open>
  What the program uses of Go's \<open>time\<close> package: instants with a zone offset, \<open>After\<close>,
  \<open>Add\<close>, \<open>UTC\<close>, \<open>IsZero\<close>, the RFC 3339 layout with and without fractional seconds in
  \<open>Format\<close>, and \<open>time.Parse(time.RFC3339, _)\<close>.

  A \<open>time.Time\<close> is the pair of an instant, in nanoseconds since January 1, year 1,
  00:00:00 UTC (Go's zero time), and the offset in seconds of its location. The instant is an
  \<open>int\<close>: Go's 64-bit count of seconds reaches 292 billion years. A \<open>time.Duration\<close> keeps its
  64 bits, since the retry policy doubles one.
\<close>

record gotime =
  t_ns :: int
  t_zone :: int

definition zero_time :: gotime where
  [go_eval]: "zero_time = \<lparr>t_ns = 0, t_zone = 0\<rparr>"

definition is_zero_time :: "gotime \<Rightarrow> bool" where
  [go_eval]: "is_zero_time t \<longleftrightarrow> t_ns t = 0"

definition time_after :: "gotime \<Rightarrow> gotime \<Rightarrow> bool" where
  [go_eval]: "time_after t u \<longleftrightarrow> t_ns u < t_ns t"

definition time_add :: "gotime \<Rightarrow> duration \<Rightarrow> gotime" where
  [go_eval]: "time_add t d = t\<lparr>t_ns := t_ns t + sint d\<rparr>"

definition time_utc :: "gotime \<Rightarrow> gotime" where
  [go_eval]: "time_utc t = t\<lparr>t_zone := 0\<rparr>"

definition second_ns :: int where
  [go_eval]: "second_ns = 1000000000"

definition day_ns :: int where
  [go_eval]: "day_ns = 86400 * second_ns"

text \<open>Durations of the code: a number of nanoseconds at width 64.\<close>

definition seconds_dur :: "int \<Rightarrow> duration" where
  [go_eval]: "seconds_dur n = word_of_int (n * second_ns)"

lemma time_after_irrefl [simp]: "\<not> time_after t t"
  by (simp add: time_after_def)

lemma t_ns_time_utc [simp]: "t_ns (time_utc t) = t_ns t"
  by (simp add: time_utc_def)

lemma not_after_zero [simp]: "0 \<le> t_ns t \<Longrightarrow> \<not> time_after zero_time t"
  by (simp add: time_after_def zero_time_def)

subsection \<open>The calendar\<close>

definition is_leap :: "int \<Rightarrow> bool" where
  [go_eval]: "is_leap y \<longleftrightarrow> y mod 4 = 0 \<and> (y mod 100 \<noteq> 0 \<or> y mod 400 = 0)"

definition days_in :: "nat \<Rightarrow> int \<Rightarrow> int" where
  [go_eval]: "days_in m y =
     (if m = 2 then (if is_leap y then 29 else 28)
      else if m = 4 \<or> m = 6 \<or> m = 9 \<or> m = 11 then 30 else 31)"

text \<open>Days from January 1 of year 1 to January 1 of year \<open>y\<close>.\<close>

definition days_before_year :: "int \<Rightarrow> int" where
  [go_eval]: "days_before_year y = 365 * (y - 1) + (y - 1) div 4 - (y - 1) div 100 + (y - 1) div 400"

text \<open>Days of the year before a month, from Go's table for ordinary years.\<close>

definition days_before_month :: "int \<Rightarrow> nat \<Rightarrow> int" where
  [go_eval]: "days_before_month y m =
     [0, 31, 59, 90, 120, 151, 181, 212, 243, 273, 304, 334] ! (m - 1)
     + (if 2 < m \<and> is_leap y then 1 else 0)"

definition days_of_civil :: "int \<Rightarrow> nat \<Rightarrow> int \<Rightarrow> int" where
  [go_eval]: "days_of_civil y m d = days_before_year y + days_before_month y m + (d - 1)"

text \<open>The year of a day and the day within it, by 400, 100, 4 and 1 year cycles.\<close>

definition year_of_days :: "int \<Rightarrow> int \<times> int" where
  [go_eval]: "year_of_days days =
     (let n400 = days div 146097; d400 = days mod 146097;
          n100 = min 3 (d400 div 36524); d100 = d400 - n100 * 36524;
          n4 = d100 div 1461; d4 = d100 mod 1461;
          n1 = min 3 (d4 div 365); d1 = d4 - n1 * 365
      in (400 * n400 + 100 * n100 + 4 * n4 + n1 + 1, d1))"

function month_of_yday :: "int \<Rightarrow> nat \<Rightarrow> int \<Rightarrow> nat \<times> int" where
  "month_of_yday y m yd =
     (if 12 \<le> m \<or> yd < days_in m y then (m, yd + 1)
      else month_of_yday y (m + 1) (yd - days_in m y))"
  by pat_completeness auto
termination
  by (relation "measure (\<lambda>(y, m, yd). 12 - m)") auto

declare month_of_yday.simps [simp del]

lemma month_of_yday_eval [go_eval]:
  "12 \<le> m \<or> yd < days_in m y \<Longrightarrow> month_of_yday y m yd = (m, yd + 1)"
  "m < 12 \<Longrightarrow> days_in m y \<le> yd \<Longrightarrow>
     month_of_yday y m yd = month_of_yday y (m + 1) (yd - days_in m y)"
  by (subst month_of_yday.simps, simp)+

definition civil_of_days :: "int \<Rightarrow> int \<times> nat \<times> int" where
  [go_eval]: "civil_of_days days =
     (let (y, yd) = year_of_days days; (m, d) = month_of_yday y 1 yd in (y, m, d))"

subsection \<open>Printing\<close>

text \<open>\<open>appendInt(b, n, w)\<close>: at least \<open>w\<close> digits.\<close>

definition pad :: "nat \<Rightarrow> nat \<Rightarrow> go_string" where
  [go_eval]: "pad w n = replicate (w - length (itoa n)) CHR ''0'' @ itoa n"

definition pad_int :: "nat \<Rightarrow> int \<Rightarrow> go_string" where
  [go_eval]: "pad_int w i = (if i < 0 then CHR ''-'' # pad w (nat (- i)) else pad w (nat i))"

text \<open>\<open>appendNano\<close> for \<open>.999999999\<close>: nine digits without trailing zeros, nothing when all are zero.\<close>

definition format_nano :: "nat \<Rightarrow> go_string" where
  [go_eval]: "format_nano n =
     (let ds = rev (dropWhile (\<lambda>c. c = CHR ''0'') (rev (pad 9 n)))
      in if ds = [] then [] else CHR ''.'' # ds)"

definition format_zone :: "int \<Rightarrow> go_string" where
  [go_eval]: "format_zone off =
     (if off = 0 then ''Z''
      else let z = \<bar>off\<bar> div 60
           in (if off < 0 then CHR ''-'' else CHR ''+'')
              # pad 2 (nat (z div 60)) @ '':'' @ pad 2 (nat (z mod 60)))"

text \<open>\<open>t.Format(time.RFC3339Nano)\<close>.\<close>

definition format_rfc3339nano :: "gotime \<Rightarrow> go_string" where
  [go_eval]: "format_rfc3339nano t =
     (let local = t_ns t + t_zone t * second_ns;
          (y, m, d) = civil_of_days (local div day_ns);
          tod = local mod day_ns;
          sec = nat (tod div second_ns)
      in pad_int 4 y @ ''-'' @ pad 2 m @ ''-'' @ pad 2 (nat d) @ ''T''
         @ pad 2 (sec div 3600) @ '':'' @ pad 2 (sec div 60 mod 60) @ '':'' @ pad 2 (sec mod 60)
         @ format_nano (nat (tod mod second_ns)) @ format_zone (t_zone t))"

subsection \<open>Parsing\<close>

definition expect :: "char \<Rightarrow> go_string \<Rightarrow> go_string option" where
  [go_eval]: "expect c s = (case s of x # r \<Rightarrow> if x = c then Some r else None | [] \<Rightarrow> None)"

text \<open>\<open>getnum\<close>: two digits, or one when \<open>fixed\<close> is false.\<close>

fun get_num :: "bool \<Rightarrow> go_string \<Rightarrow> (nat \<times> go_string) option" where
  "get_num fixed (a # b # r) =
     (if \<not> is_digit a then None
      else if is_digit b then Some (10 * digit_val a + digit_val b, r)
      else if fixed then None else Some (digit_val a, b # r))"
| "get_num fixed [a] = (if is_digit a \<and> \<not> fixed then Some (digit_val a, []) else None)"
| "get_num fixed [] = None"

definition get_year :: "go_string \<Rightarrow> (nat \<times> go_string) option" where
  [go_eval]: "get_year s =
     (if 4 \<le> length s \<and> list_all is_digit (take 4 s) then Some (digits_val (take 4 s), drop 4 s)
      else None)"

text \<open>
  A fractional second is accepted after the seconds although the layout has none; digits after
  the ninth are dropped.
\<close>

definition get_fraction :: "go_string \<Rightarrow> nat \<times> go_string" where
  [go_eval]: "get_fraction s =
     (case s of
        p # q # r \<Rightarrow>
          if (p = CHR ''.'' \<or> p = CHR '','') \<and> is_digit q
          then let ds = takeWhile is_digit (q # r); kept = take 9 ds
               in (digits_val kept * 10 ^ (9 - length kept), dropWhile is_digit (q # r))
          else (0, s)
      | _ \<Rightarrow> (0, s))"

definition get_zone :: "go_string \<Rightarrow> (int \<times> go_string) option" where
  [go_eval]: "get_zone s =
     (case s of
        CHR ''Z'' # r \<Rightarrow> Some (0, r)
      | sg # h1 # h2 # c # m1 # m2 # r \<Rightarrow>
          if c = CHR '':'' \<and> list_all is_digit [h1, h2, m1, m2] \<and> (sg = CHR ''+'' \<or> sg = CHR ''-'')
          then let hh = int (digits_val [h1, h2]); mm = int (digits_val [m1, m2]);
                   off = (hh * 60 + mm) * 60
               in if 24 < hh \<or> 60 < mm then None
                  else Some (if sg = CHR ''-'' then - off else off, r)
          else None
      | _ \<Rightarrow> None)"

definition check :: "bool \<Rightarrow> unit option" where
  [go_eval]: "check b = (if b then Some () else None)"

text \<open>\<open>time.Parse(time.RFC3339, s)\<close>; \<open>None\<close> is a parse error.\<close>

definition parse_rfc3339 :: "go_string \<Rightarrow> gotime option" where
  [go_eval]: "parse_rfc3339 s0 = do {
     (y, s1) \<leftarrow> get_year s0;
     s2 \<leftarrow> expect CHR ''-'' s1;
     (mo, s3) \<leftarrow> get_num True s2;
     _ \<leftarrow> check (1 \<le> mo \<and> mo \<le> 12);
     s4 \<leftarrow> expect CHR ''-'' s3;
     (d, s5) \<leftarrow> get_num True s4;
     s6 \<leftarrow> expect CHR ''T'' s5;
     (hh, s7) \<leftarrow> get_num False s6;
     _ \<leftarrow> check (hh < 24);
     s8 \<leftarrow> expect CHR '':'' s7;
     (mi, s9) \<leftarrow> get_num True s8;
     _ \<leftarrow> check (mi < 60);
     s10 \<leftarrow> expect CHR '':'' s9;
     (ss, s11) \<leftarrow> get_num True s10;
     _ \<leftarrow> check (ss < 60);
     let (ns, s12) = get_fraction s11;
     (off, s13) \<leftarrow> get_zone s12;
     _ \<leftarrow> check (s13 = [] \<and> 1 \<le> d \<and> int d \<le> days_in mo (int y));
     Some \<lparr>t_ns = days_of_civil (int y) mo (int d) * day_ns
                  + int (hh * 3600 + mi * 60 + ss) * second_ns + int ns - off * second_ns,
           t_zone = off\<rparr>
   }"


subsection \<open>Examples\<close>

lemma parse_rfc3339_example:
  "parse_rfc3339 ''2026-08-16T20:30:00Z'' = Some \<lparr>t_ns = 63922509000000000000, t_zone = 0\<rparr>"
  by (simp add: go_eval)

lemma format_rfc3339nano_example:
  "format_rfc3339nano \<lparr>t_ns = 63922509000120000000, t_zone = 0\<rparr> = ''2026-08-16T20:30:00.12Z''"
  unfolding format_rfc3339nano_def Let_def gotime.simps by (simp add: go_eval)

end
