(* ===== verification/GoStrconv.thy ===== *)
theory GoStrconv
  imports GoTime
begin

text \<open>
  What the settings use of Go's \<open>strconv\<close> and \<open>time.ParseDuration\<close>. \<open>ParseDuration\<close> computes the
  fraction of a unit in floating point; that one expression is the parameter \<open>scale_fraction\<close>,
  with the digits of the fraction as an integer, the unit and the power of ten.
\<close>

definition parse_bool :: "go_string \<Rightarrow> bool option" where
  [go_eval]: "parse_bool s =
     (if s \<in> {''1'', ''t'', ''T'', ''true'', ''TRUE'', ''True''} then Some True
      else if s \<in> {''0'', ''f'', ''F'', ''false'', ''FALSE'', ''False''} then Some False
      else None)"

text \<open>\<open>strconv.Atoi\<close>.\<close>

definition atoi :: "go_string \<Rightarrow> int option" where
  [go_eval]: "atoi s =
     (let neg = (s \<noteq> [] \<and> hd s = CHR ''-'');
          ds = (if s \<noteq> [] \<and> (hd s = CHR ''-'' \<or> hd s = CHR ''+'') then tl s else s);
          v = (if neg then - int (digits_val ds) else int (digits_val ds))
      in if ds \<noteq> [] \<and> list_all is_digit ds \<and> - (2 ^ 63) \<le> v \<and> v < 2 ^ 63 then Some v else None)"

lemma atoi_range: "atoi s = Some v \<Longrightarrow> - (2 ^ 63) \<le> v \<and> v < 2 ^ 63"
  by (auto simp: atoi_def Let_def split: if_splits)

subsection \<open>Durations\<close>

text \<open>\<open>leadingInt\<close>: \<open>None\<close> on overflow.\<close>

fun leading_int :: "nat \<Rightarrow> go_string \<Rightarrow> (nat \<times> go_string) option" where
  "leading_int x [] = Some (x, [])"
| "leading_int x (c # cs) =
     (if \<not> is_digit c then Some (x, c # cs)
      else if 2 ^ 63 div 10 < x then None
      else (let y = 10 * x + digit_val c in if 2 ^ 63 < y then None else leading_int y cs))"

text \<open>\<open>leadingFraction\<close>: digits after an overflow are skipped.\<close>

fun leading_fraction :: "nat \<Rightarrow> nat \<Rightarrow> bool \<Rightarrow> go_string \<Rightarrow> nat \<times> nat \<times> go_string" where
  "leading_fraction x scale overflow [] = (x, scale, [])"
| "leading_fraction x scale overflow (c # cs) =
     (if \<not> is_digit c then (x, scale, c # cs)
      else if overflow then leading_fraction x scale overflow cs
      else if (2 ^ 63 - 1) div 10 < x then leading_fraction x scale True cs
      else (let y = 10 * x + digit_val c in
            if 2 ^ 63 < y then leading_fraction x scale True cs
            else leading_fraction y (scale * 10) overflow cs))"

definition unit_ns :: "go_string \<Rightarrow> nat option" where
  [go_eval]: "unit_ns u =
     (if u = ''ns'' then Some 1
      else if u = ''us'' \<or> u = [CHR 0xC2, CHR 0xB5, CHR ''s''] \<or> u = [CHR 0xCE, CHR 0xBC, CHR ''s''] then Some 1000
      else if u = ''ms'' then Some 1000000 else if u = ''s'' then Some 1000000000
      else if u = ''m'' then Some 60000000000 else if u = ''h'' then Some 3600000000000 else None)"

definition unit_end :: "char \<Rightarrow> bool" where
  [go_eval]: "unit_end c \<longleftrightarrow> c = CHR ''.'' \<or> is_digit c"

text \<open>The optional fraction: its digits, their power of ten, whether there are any, and the rest.\<close>

definition fraction_part :: "go_string \<Rightarrow> nat \<times> nat \<times> bool \<times> go_string" where
  [go_eval]: "fraction_part s =
     (if s \<noteq> [] \<and> hd s = CHR ''.''
      then (let (f, scale, r) = leading_fraction 0 1 False (tl s) in (f, scale, length r \<noteq> length (tl s), r))
      else (0, 1, False, s))"

text \<open>The unit and the value with its overflow checks.\<close>

definition scaled_value :: "(nat \<Rightarrow> nat \<Rightarrow> nat \<Rightarrow> nat) \<Rightarrow> nat \<Rightarrow> nat \<Rightarrow> nat \<Rightarrow> go_string \<Rightarrow> nat option" where
  [go_eval]: "scaled_value scale_fraction v f scale u =
     (case unit_ns u of
        None \<Rightarrow> None
      | Some un \<Rightarrow>
          if 2 ^ 63 div un < v then None
          else (let w = (if 0 < f then v * un + scale_fraction f un scale else v * un) in
                if 0 < f \<and> 2 ^ 63 < w then None else Some w))"

text \<open>One number with its unit: its nanoseconds and the rest.\<close>

definition duration_term :: "(nat \<Rightarrow> nat \<Rightarrow> nat \<Rightarrow> nat) \<Rightarrow> go_string \<Rightarrow> (nat \<times> go_string) option" where
  [go_eval]: "duration_term scale_fraction s =
     (if s = [] \<or> \<not> unit_end (hd s) then None
      else (case leading_int 0 s of
              None \<Rightarrow> None
            | Some (v, s1) \<Rightarrow>
                (let (f, scale, post, s2) = fraction_part s1;
                     u = takeWhile (\<lambda>x. \<not> unit_end x) s2
                 in if (length s1 = length s \<and> \<not> post) \<or> u = [] then None
                    else map_option (\<lambda>w. (w, dropWhile (\<lambda>x. \<not> unit_end x) s2))
                           (scaled_value scale_fraction v f scale u))))"

lemma leading_int_length: "leading_int x t = Some (v, r) \<Longrightarrow> length r \<le> length t"
  by (induction x t rule: leading_int.induct) (fastforce simp: Let_def split: if_splits)+

lemma leading_fraction_length: "length (snd (snd (leading_fraction x sc ov t))) \<le> length t"
  by (induction x sc ov t rule: leading_fraction.induct) (auto simp: Let_def intro: le_SucI)

lemma fraction_part_length: "fraction_part s = (f, scale, post, r) \<Longrightarrow> length r \<le> length s"
  using leading_fraction_length [of 0 1 False "tl s"]
  by (auto simp: fraction_part_def split: if_splits prod.splits)

lemma drop_nonempty_prefix: "takeWhile P s \<noteq> [] \<Longrightarrow> length (dropWhile P s) < length s"
  by (cases s) (auto simp: dropWhile_length_le less_Suc_eq_le split: if_splits)

lemma duration_term_length:
  assumes "duration_term sf s = Some (w, s3)"
  shows "length s3 < length s"
proof -
  from assms obtain v s1 where 1: "leading_int 0 s = Some (v, s1)"
    by (auto simp: duration_term_def split: if_splits option.splits)
  obtain f scale post s2 where 2: "fraction_part s1 = (f, scale, post, s2)" by (metis prod_cases4)
  from assms 1 2 have 3: "takeWhile (\<lambda>x. \<not> unit_end x) s2 \<noteq> []" "s3 = dropWhile (\<lambda>x. \<not> unit_end x) s2"
    by (auto simp: duration_term_def Let_def split: if_splits)
  from drop_nonempty_prefix [OF 3(1)] 3(2) fraction_part_length [OF 2] leading_int_length [OF 1]
  show ?thesis by simp
qed

function duration_terms :: "(nat \<Rightarrow> nat \<Rightarrow> nat \<Rightarrow> nat) \<Rightarrow> nat \<Rightarrow> go_string \<Rightarrow> nat option" where
  "duration_terms sf d s =
     (if s = [] then Some d
      else (case duration_term sf s of
              None \<Rightarrow> None
            | Some (w, r) \<Rightarrow> if 2 ^ 63 < d + w then None else duration_terms sf (d + w) r))"
  by pat_completeness auto
termination
  by (relation "measure (\<lambda>(sf, d, s). length s)") (auto dest: duration_term_length)

declare duration_terms.simps [simp del]

text \<open>\<open>time.ParseDuration\<close>; \<open>None\<close> is an error.\<close>

definition parse_duration :: "(nat \<Rightarrow> nat \<Rightarrow> nat \<Rightarrow> nat) \<Rightarrow> go_string \<Rightarrow> duration option" where
  [go_eval]: "parse_duration scale_fraction s0 =
     (let neg = (s0 \<noteq> [] \<and> hd s0 = CHR ''-'');
          s = (if s0 \<noteq> [] \<and> (hd s0 = CHR ''-'' \<or> hd s0 = CHR ''+'') then tl s0 else s0)
      in if s = ''0'' then Some 0
         else if s = [] then None
         else (case duration_terms scale_fraction 0 s of
                 None \<Rightarrow> None
               | Some d \<Rightarrow>
                   if neg then Some (word_of_int (- int d))
                   else if 2 ^ 63 - 1 < d then None else Some (word_of_int (int d))))"

end
