(* ===== verification/GoJson.thy ===== *)
theory GoJson
  imports GoTime
begin

text \<open>
  What the program uses of Go's \<open>encoding/json\<close>: the scanner's grammar with its nesting limit,
  \<open>Decoder.Decode\<close> and \<open>Unmarshal\<close> into strings, \<open>map[string]json.RawMessage\<close> and
  \<open>map[string]any\<close> with \<open>UseNumber\<close>, and \<open>Marshal\<close> with sorted keys and HTML escaping.

  A JSON object decoded into a Go map is an association list with increasing keys (the last of
  several equal keys wins). A number keeps its literal, as \<open>json.Number\<close> does. The parser is a
  recursive descent with fuel; \<open>parse_value_fuel\<close> shows that any fuel above twice the
  length of the input gives the same result, and \<open>json_fuel\<close> is such a fuel.
\<close>

subsection \<open>Values\<close>

datatype json =
    JNull
  | JBool bool
  | JNumber go_string
  | JString go_string
  | JArray "json list"
  | JObject "(go_string \<times> json) list"

datatype json_error = UnexpectedEnd | SyntaxError

text \<open>Sequencing of steps that may fail.\<close>

definition and_then :: "'e + 'a \<Rightarrow> ('a \<Rightarrow> 'e + 'b) \<Rightarrow> 'e + 'b" where
  "and_then m f = (case m of Inl e \<Rightarrow> Inl e | Inr x \<Rightarrow> f x)"

lemma and_then_simps [simp]:
  "and_then (Inl e) f = Inl e"
  "and_then (Inr x) f = f x"
  by (simp_all add: and_then_def)

lemma and_then_Inr: "and_then m f = Inr y \<longleftrightarrow> (\<exists>x. m = Inr x \<and> f x = Inr y)"
  by (cases m) auto

lemma and_then_cong [fundef_cong]:
  "m = m' \<Longrightarrow> (\<And>x. m' = Inr x \<Longrightarrow> f x = f' x) \<Longrightarrow> and_then m f = and_then m' f'"
  by (cases m') auto

definition max_depth :: nat where
  "max_depth = 10000"

definition obj_of :: "(go_string \<times> 'v) list \<Rightarrow> (go_string \<times> 'v) list" where
  "obj_of kvs = foldl (\<lambda>m (k, v). put_sorted k v m) [] kvs"

subsection \<open>Tokens\<close>

definition is_ws :: "char \<Rightarrow> bool" where
  [go_eval]: "is_ws c \<longleftrightarrow> c = CHR '' '' \<or> c = CHR 0x09 \<or> c = CHR 0x0D \<or> c = CHR 0x0A"

definition skip_ws :: "go_string \<Rightarrow> go_string" where
  "skip_ws s = dropWhile is_ws s"

definition is_hex :: "char \<Rightarrow> bool" where
  [go_eval]: "is_hex c \<longleftrightarrow> is_digit c \<or> (65 \<le> byte_val c \<and> byte_val c \<le> 70)
                           \<or> (97 \<le> byte_val c \<and> byte_val c \<le> 102)"

definition hex_val :: "char \<Rightarrow> nat" where
  [go_eval]: "hex_val c =
     (if is_digit c then byte_val c - 48
      else if byte_val c \<le> 70 then byte_val c - 55 else byte_val c - 87)"

definition hex4 :: "go_string \<Rightarrow> nat" where
  [go_eval]: "hex4 s = foldl (\<lambda>acc c. 16 * acc + hex_val c) 0 s"

abbreviation quote_char :: char where "quote_char \<equiv> CHR 0x22"
abbreviation backslash :: char where "backslash \<equiv> CHR 0x5C"

definition is_simple_escape :: "char \<Rightarrow> bool" where
  [go_eval]: "is_simple_escape c \<longleftrightarrow> c \<in> {quote_char, backslash, CHR ''/'', CHR ''b'', CHR ''f'', CHR ''n'', CHR ''r'', CHR ''t''}"

definition cons_raw :: "go_string \<Rightarrow> json_error + (go_string \<times> 'a) \<Rightarrow> json_error + (go_string \<times> 'a)" where
  "cons_raw p r = and_then r (\<lambda>(raw, rest). Inr (p @ raw, rest))"

text \<open>The body of a string literal after its opening quote, up to the closing quote.\<close>

fun scan_string :: "go_string \<Rightarrow> json_error + (go_string \<times> go_string)" where
  "scan_string [] = Inl UnexpectedEnd"
| "scan_string (c # cs) =
     (if c = quote_char then Inr ([], cs)
      else if c = backslash then
        (case cs of
           [] \<Rightarrow> Inl UnexpectedEnd
         | e # r \<Rightarrow>
             if e = CHR ''u'' then
               (case r of
                  h1 # h2 # h3 # h4 # r' \<Rightarrow>
                    if list_all is_hex [h1, h2, h3, h4]
                    then cons_raw [c, e, h1, h2, h3, h4] (scan_string r') else Inl SyntaxError
                | _ \<Rightarrow> if list_all is_hex r then Inl UnexpectedEnd else Inl SyntaxError)
             else if is_simple_escape e then cons_raw [c, e] (scan_string r)
             else Inl SyntaxError)
      else if byte_val c < 32 then Inl SyntaxError
      else cons_raw [c] (scan_string cs))"

text \<open>Escapes and surrogate pairs; malformed UTF-8 and lone surrogates become U+FFFD.\<close>

definition unescape :: "char \<Rightarrow> char" where
  [go_eval]: "unescape e =
     (if e = CHR ''b'' then CHR 0x08 else if e = CHR ''f'' then CHR 0x0C
      else if e = CHR ''n'' then CHR 0x0A else if e = CHR ''r'' then CHR 0x0D
      else if e = CHR ''t'' then CHR 0x09 else e)"

definition is_surrogate :: "nat \<Rightarrow> bool" where
  [go_eval]: "is_surrogate r \<longleftrightarrow> 55296 \<le> r \<and> r < 57344"

definition utf16_pair :: "nat \<Rightarrow> go_string \<Rightarrow> nat option" where
  [go_eval]: "utf16_pair r1 s =
     (if 6 \<le> length s \<and> take 2 s = [backslash, CHR ''u''] \<and> list_all is_hex (take 4 (drop 2 s))
      then let r2 = hex4 (take 4 (drop 2 s))
           in if r1 < 56320 \<and> 56320 \<le> r2 \<and> r2 < 57344
              then Some ((r1 - 55296) * 1024 + (r2 - 56320) + 65536) else None
      else None)"

text \<open>The rune of an escape \<open>\u\<close>, and what follows it.\<close>

definition read_u :: "go_string \<Rightarrow> nat \<times> go_string" where
  [go_eval]: "read_u s =
     (let r = hex4 (take 4 s); rest = drop 4 s
      in if is_surrogate r
         then (case utf16_pair r rest of
                 Some dec \<Rightarrow> (dec, drop 6 rest)
               | None \<Rightarrow> (rune_error, rest))
         else (r, rest))"

lemma read_u_length: "length (snd (read_u s)) \<le> length s"
  by (auto simp: read_u_def Let_def split: option.splits)

function unquote :: "go_string \<Rightarrow> go_string" where
  "unquote [] = []"
| "unquote (c # cs) =
     (if c = backslash then
        (case cs of
           [] \<Rightarrow> []
         | e # r \<Rightarrow>
             if e = CHR ''u'' then encode_rune (fst (read_u r)) @ unquote (snd (read_u r))
             else unescape e # unquote r)
      else encode_rune (fst (decode_rune (c # cs)))
           @ unquote (drop (snd (decode_rune (c # cs))) (c # cs)))"
  by pat_completeness auto
termination
proof (relation "measure length")
  fix c :: char and cs :: string and e :: char and r
  assume "cs = e # r"
  then show "(snd (read_u r), c # cs) \<in> measure length"
    using read_u_length [of r] by simp
next
  fix c :: char and cs :: string
  show "(drop (snd (decode_rune (c # cs))) (c # cs), c # cs) \<in> measure length"
    using decode_rune_size_pos [of c cs] by (simp del: decode_rune.simps)
qed auto

text \<open>
  Numbers: an optional sign, an integer part without a superfluous leading zero, an optional
  fraction and an optional exponent, read greedily.
\<close>

definition scan_digits :: "go_string \<Rightarrow> json_error + (go_string \<times> go_string)" where
  [go_eval]: "scan_digits s =
     (case s of
        [] \<Rightarrow> Inl UnexpectedEnd
      | c # cs \<Rightarrow> if is_digit c then Inr (takeWhile is_digit s, dropWhile is_digit s)
                 else Inl SyntaxError)"

definition scan_int :: "go_string \<Rightarrow> json_error + (go_string \<times> go_string)" where
  [go_eval]: "scan_int s =
     (case s of
        [] \<Rightarrow> Inl UnexpectedEnd
      | c # cs \<Rightarrow> if c = CHR ''0'' then Inr ([c], cs) else scan_digits s)"

definition scan_frac :: "go_string \<Rightarrow> json_error + (go_string \<times> go_string)" where
  [go_eval]: "scan_frac s =
     (case s of
        c # cs \<Rightarrow> if c = CHR ''.'' then cons_raw [c] (scan_digits cs) else Inr ([], s)
      | [] \<Rightarrow> Inr ([], s))"

definition scan_exp :: "go_string \<Rightarrow> json_error + (go_string \<times> go_string)" where
  [go_eval]: "scan_exp s =
     (case s of
        c # cs \<Rightarrow>
          if c = CHR ''e'' \<or> c = CHR ''E'' then
            (case cs of
               g # r \<Rightarrow> if g = CHR ''+'' \<or> g = CHR ''-'' then cons_raw [c, g] (scan_digits r)
                        else cons_raw [c] (scan_digits cs)
             | [] \<Rightarrow> Inl UnexpectedEnd)
          else Inr ([], s)
      | [] \<Rightarrow> Inr ([], s))"

definition scan_number :: "go_string \<Rightarrow> json_error + (go_string \<times> go_string)" where
  [go_eval]: "scan_number s =
     (let (sg, s0) = (case s of c # cs \<Rightarrow> if c = CHR ''-'' then ([c], cs) else ([], s) | [] \<Rightarrow> ([], s))
      in and_then (scan_int s0) (\<lambda>(a, s1).
         and_then (scan_frac s1) (\<lambda>(b, s2).
         and_then (scan_exp s2) (\<lambda>(e, s3). Inr (sg @ a @ b @ e, s3)))))"

text \<open>A literal word, byte by byte.\<close>

fun expect_word :: "go_string \<Rightarrow> go_string \<Rightarrow> json_error + go_string" where
  "expect_word [] s = Inr s"
| "expect_word (w # ws) [] = Inl UnexpectedEnd"
| "expect_word (w # ws) (c # cs) = (if c = w then expect_word ws cs else Inl SyntaxError)"

definition expect_byte :: "char \<Rightarrow> go_string \<Rightarrow> json_error + go_string" where
  "expect_byte w s = expect_word [w] (skip_ws s)"

subsection \<open>The parser\<close>

fun parse_value :: "nat \<Rightarrow> nat \<Rightarrow> go_string \<Rightarrow> json_error + (json \<times> go_string)"
  and parse_elems :: "nat \<Rightarrow> nat \<Rightarrow> go_string \<Rightarrow> json_error + (json list \<times> go_string)"
  and parse_members :: "nat \<Rightarrow> nat \<Rightarrow> go_string \<Rightarrow> json_error + ((go_string \<times> json) list \<times> go_string)"
where
  "parse_value 0 d s = Inl SyntaxError"
| "parse_value (Suc f) d s =
     (case skip_ws s of
        [] \<Rightarrow> Inl UnexpectedEnd
      | c # cs \<Rightarrow>
          if c = CHR ''{'' then
            (if max_depth \<le> d then Inl SyntaxError
             else case skip_ws cs of
                    [] \<Rightarrow> Inl UnexpectedEnd
                  | x # r \<Rightarrow>
                      if x = CHR ''}'' then Inr (JObject [], r)
                      else and_then (parse_members f (Suc d) (x # r))
                             (\<lambda>(kvs, r'). Inr (JObject (obj_of kvs), r')))
          else if c = CHR ''['' then
            (if max_depth \<le> d then Inl SyntaxError
             else case skip_ws cs of
                    [] \<Rightarrow> Inl UnexpectedEnd
                  | x # r \<Rightarrow>
                      if x = CHR '']'' then Inr (JArray [], r)
                      else and_then (parse_elems f (Suc d) (x # r))
                             (\<lambda>(vs, r'). Inr (JArray vs, r')))
          else if c = quote_char then
            and_then (scan_string cs) (\<lambda>(raw, r). Inr (JString (unquote raw), r))
          else if c = CHR ''t'' then and_then (expect_word ''rue'' cs) (\<lambda>r. Inr (JBool True, r))
          else if c = CHR ''f'' then and_then (expect_word ''alse'' cs) (\<lambda>r. Inr (JBool False, r))
          else if c = CHR ''n'' then and_then (expect_word ''ull'' cs) (\<lambda>r. Inr (JNull, r))
          else and_then (scan_number (c # cs)) (\<lambda>(n, r). Inr (JNumber n, r)))"
| "parse_elems 0 d s = Inl SyntaxError"
| "parse_elems (Suc f) d s =
     and_then (parse_value f d s) (\<lambda>(v, s1).
       case skip_ws s1 of
         [] \<Rightarrow> Inl UnexpectedEnd
       | x # r \<Rightarrow>
           if x = CHR '','' then and_then (parse_elems f d r) (\<lambda>(vs, r'). Inr (v # vs, r'))
           else if x = CHR '']'' then Inr ([v], r)
           else Inl SyntaxError)"
| "parse_members 0 d s = Inl SyntaxError"
| "parse_members (Suc f) d s =
     and_then (expect_byte quote_char s) (\<lambda>s1.
     and_then (scan_string s1) (\<lambda>(raw, s2).
     and_then (expect_byte CHR '':'' s2) (\<lambda>s3.
     and_then (parse_value f d s3) (\<lambda>(v, s4).
       case skip_ws s4 of
         [] \<Rightarrow> Inl UnexpectedEnd
       | x # r \<Rightarrow>
           if x = CHR '','' then
             and_then (parse_members f d r) (\<lambda>(kvs, r'). Inr ((unquote raw, v) # kvs, r'))
           else if x = CHR ''}'' then Inr ([(unquote raw, v)], r)
           else Inl SyntaxError))))"

definition json_fuel :: "go_string \<Rightarrow> nat" where
  "json_fuel s = 2 * length s + 2"

text \<open>The value at the front of the input, with the bytes after it.\<close>

definition parse_json :: "go_string \<Rightarrow> json_error + (json \<times> go_string)" where
  "parse_json s = parse_value (json_fuel s) 0 s"

text \<open>
  The members of an object with the exact bytes of each value, as \<open>json.RawMessage\<close> keeps
  them: from its first byte to its last, without the white space around it.
\<close>

fun parse_raw_members :: "nat \<Rightarrow> nat \<Rightarrow> go_string \<Rightarrow> json_error + ((go_string \<times> go_string) list \<times> go_string)"
where
  "parse_raw_members 0 d s = Inl SyntaxError"
| "parse_raw_members (Suc f) d s =
     and_then (expect_byte quote_char s) (\<lambda>s1.
     and_then (scan_string s1) (\<lambda>(raw, s2).
     and_then (expect_byte CHR '':'' s2) (\<lambda>s3.
     and_then (parse_value f d s3) (\<lambda>(v, s4).
       let val = take (length (skip_ws s3) - length s4) (skip_ws s3) in
       case skip_ws s4 of
         [] \<Rightarrow> Inl UnexpectedEnd
       | x # r \<Rightarrow>
           if x = CHR '','' then
             and_then (parse_raw_members f d r) (\<lambda>(kvs, r'). Inr ((unquote raw, val) # kvs, r'))
           else if x = CHR ''}'' then Inr ([(unquote raw, val)], r)
           else Inl SyntaxError))))"

subsection \<open>Decoding\<close>

text \<open>How a reader ends: at the end of the data, or with an error of its own.\<close>

datatype read_end = EndOfData | ReadFailed

datatype decode_error = DecodeEOF | DecodeUnexpectedEOF | DecodeSyntax | DecodeType | DecodeRead

definition is_scalar :: "json \<Rightarrow> bool" where
  "is_scalar v = (case v of JArray _ \<Rightarrow> False | JObject _ \<Rightarrow> False | _ \<Rightarrow> True)"

text \<open>
  The step of \<open>Decoder.Decode\<close> that reads the next value: its bytes and the rest of the
  buffer. A top-level scalar at the very end of the buffer is complete only when the reader
  ended normally.
\<close>

definition read_value :: "read_end \<Rightarrow> go_string \<Rightarrow> decode_error + (go_string \<times> go_string)" where
  "read_value e s =
     (case parse_json s of
        Inr (v, rest) \<Rightarrow>
          if is_scalar v \<and> rest = [] \<and> e = ReadFailed then Inl DecodeRead
          else Inr (take (length s - length rest) s, rest)
      | Inl UnexpectedEnd \<Rightarrow>
          (case e of
             ReadFailed \<Rightarrow> Inl DecodeRead
           | EndOfData \<Rightarrow> if skip_ws s = [] then Inl DecodeEOF else Inl DecodeUnexpectedEOF)
      | Inl SyntaxError \<Rightarrow> Inl DecodeSyntax)"

text \<open>\<open>json.Unmarshal\<close> checks the whole input first: one value and white space.\<close>

definition parse_whole :: "go_string \<Rightarrow> decode_error + json" where
  "parse_whole s =
     (case parse_json s of
        Inr (v, rest) \<Rightarrow> if skip_ws rest = [] then Inr v else Inl DecodeSyntax
      | Inl e \<Rightarrow> Inl DecodeSyntax)"

text \<open>Into a \<open>*string\<close>: \<open>null\<close> leaves the variable as it was.\<close>

definition unmarshal_string :: "go_string \<Rightarrow> go_string \<Rightarrow> decode_error + go_string" where
  "unmarshal_string s cur =
     and_then (parse_whole s) (\<lambda>v.
       case v of JString x \<Rightarrow> Inr x | JNull \<Rightarrow> Inr cur | _ \<Rightarrow> Inl DecodeType)"

text \<open>Into a nil \<open>map[string]json.RawMessage\<close>: \<open>null\<close> leaves it nil (\<open>None\<close>).\<close>

definition unmarshal_raw_map :: "go_string \<Rightarrow> decode_error + (go_string \<times> go_string) list option" where
  "unmarshal_raw_map s =
     and_then (parse_whole s) (\<lambda>v.
       case v of
         JNull \<Rightarrow> Inr None
       | JObject [] \<Rightarrow> Inr (Some [])
       | JObject _ \<Rightarrow>
           (case parse_raw_members (json_fuel s) 1 (tl (skip_ws s)) of
              Inr (kvs, _) \<Rightarrow> Inr (Some (obj_of kvs))
            | Inl e \<Rightarrow> Inl DecodeSyntax)
       | _ \<Rightarrow> Inl DecodeType)"

text \<open>\<open>Decoder.Decode\<close> into a nil map of raw messages.\<close>

definition decode_raw_map ::
  "read_end \<Rightarrow> go_string \<Rightarrow> decode_error + ((go_string \<times> go_string) list option \<times> go_string)" where
  "decode_raw_map e s =
     and_then (read_value e s) (\<lambda>(raw, rest).
     and_then (unmarshal_raw_map raw) (\<lambda>m. Inr (m, rest)))"

text \<open>\<open>Decoder.Decode\<close> into a nil \<open>map[string]any\<close>, with \<open>UseNumber\<close>.\<close>

definition decode_any_map ::
  "read_end \<Rightarrow> go_string \<Rightarrow> decode_error + ((go_string \<times> json) list option \<times> go_string)" where
  "decode_any_map e s =
     and_then (read_value e s) (\<lambda>(raw, rest).
     and_then (parse_whole raw) (\<lambda>v.
       case v of
         JNull \<Rightarrow> Inr (None, rest)
       | JObject m \<Rightarrow> Inr (Some m, rest)
       | _ \<Rightarrow> Inl DecodeType))"

subsection \<open>Encoding\<close>

definition hex_digit :: "nat \<Rightarrow> char" where
  "hex_digit n = (if n < 10 then digit_char n else byte_of (87 + n))"

lemma hex_digit_eval [simp]:
  "hex_digit 10 = CHR ''a''" "hex_digit 11 = CHR ''b''" "hex_digit 12 = CHR ''c''"
  "hex_digit 13 = CHR ''d''" "hex_digit 14 = CHR ''e''" "hex_digit 15 = CHR ''f''"
  "n < 10 \<Longrightarrow> hex_digit n = digit_char n"
  by (simp_all add: hex_digit_def char_of_eq_iff)

definition hex_byte :: "nat \<Rightarrow> go_string" where
  [go_eval]: "hex_byte b = [hex_digit (b div 16), hex_digit (b mod 16)]"

text \<open>One byte below 128 inside a quoted string, with HTML escaping.\<close>

definition quote_ascii :: "char \<Rightarrow> go_string" where
  [go_eval]: "quote_ascii c =
     (if c = quote_char \<or> c = backslash then [backslash, c]
      else if c = CHR 0x08 then [backslash, CHR ''b'']
      else if c = CHR 0x0C then [backslash, CHR ''f'']
      else if c = CHR 0x0A then [backslash, CHR ''n'']
      else if c = CHR 0x0D then [backslash, CHR ''r'']
      else if c = CHR 0x09 then [backslash, CHR ''t'']
      else if byte_val c < 32 \<or> c = CHR ''<'' \<or> c = CHR ''>'' \<or> c = CHR ''&''
      then [backslash, CHR ''u'', CHR ''0'', CHR ''0''] @ hex_byte (byte_val c)
      else [c])"

definition quote_chunk :: "go_string \<Rightarrow> go_string" where
  [go_eval]: "quote_chunk ch =
     (if bad_chunk ch then backslash # ''ufffd''
      else if length ch = 1 then quote_ascii (hd ch)
      else if fst (decode_rune ch) = 8232 then backslash # ''u2028''
      else if fst (decode_rune ch) = 8233 then backslash # ''u2029''
      else ch)"

definition quote_json :: "go_string \<Rightarrow> go_string" where
  "quote_json s = quote_char # concat (map quote_chunk (chunks s)) @ [quote_char]"

primrec marshal :: "json \<Rightarrow> go_string"
  and marshal_elems :: "json list \<Rightarrow> go_string"
  and marshal_members :: "(go_string \<times> json) list \<Rightarrow> go_string"
  and marshal_member :: "go_string \<times> json \<Rightarrow> go_string"
where
  "marshal JNull = ''null''"
| "marshal (JBool b) = (if b then ''true'' else ''false'')"
| "marshal (JNumber n) = (if n = [] then ''0'' else n)"
| "marshal (JString s) = quote_json s"
| "marshal (JArray vs) = ''['' @ marshal_elems vs @ '']''"
| "marshal (JObject kvs) = ''{'' @ marshal_members kvs @ ''}''"
| "marshal_elems [] = []"
| "marshal_elems (v # vs) = marshal v @ (if vs = [] then [] else '','' @ marshal_elems vs)"
| "marshal_members [] = []"
| "marshal_members (m # ms) = marshal_member m @ (if ms = [] then [] else '','' @ marshal_members ms)"
| "marshal_member (k, v) = quote_json k @ '':'' @ marshal v"

text \<open>
  \<open>json.Marshal\<close> refuses a \<open>json.Number\<close> that is not a number literal (the empty one is
  printed as \<open>0\<close>); the other values always encode.
\<close>

definition valid_number :: "go_string \<Rightarrow> bool" where
  [go_eval]: "valid_number n \<longleftrightarrow> n = [] \<or> scan_number n = Inr (n, [])"

primrec marshal_ok :: "json \<Rightarrow> bool" where
  "marshal_ok JNull \<longleftrightarrow> True"
| "marshal_ok (JBool b) \<longleftrightarrow> True"
| "marshal_ok (JNumber n) \<longleftrightarrow> valid_number n"
| "marshal_ok (JString s) \<longleftrightarrow> True"
| "marshal_ok (JArray vs) \<longleftrightarrow> list_all marshal_ok vs"
| "marshal_ok (JObject kvs) \<longleftrightarrow> list_all (\<lambda>p. pred_prod (\<lambda>_. True) marshal_ok p) kvs"

definition marshal_value :: "json \<Rightarrow> go_string result" where
  "marshal_value v =
     (if marshal_ok v then Inr (marshal v) else Inl (Errorf ''json: invalid number literal''))"

text \<open>
  A \<open>json.RawMessage\<close> inside a marshalled value is checked and compacted: white space outside
  strings is dropped, \<open><\<close>, \<open>>\<close>, \<open>&\<close>, U+2028 and U+2029 are escaped.
\<close>

datatype compact_mode = Outside | InString | AfterBackslash

definition next_mode :: "compact_mode \<Rightarrow> char \<Rightarrow> compact_mode" where
  [go_eval]: "next_mode m c =
     (case m of
        Outside \<Rightarrow> if c = quote_char then InString else Outside
      | InString \<Rightarrow> if c = quote_char then Outside else if c = backslash then AfterBackslash else InString
      | AfterBackslash \<Rightarrow> InString)"

definition compact_byte :: "compact_mode \<Rightarrow> char \<Rightarrow> go_string" where
  [go_eval]: "compact_byte m c =
     (if c = CHR ''<'' \<or> c = CHR ''>'' \<or> c = CHR ''&''
      then [backslash, CHR ''u'', CHR ''0'', CHR ''0''] @ hex_byte (byte_val c)
      else if m = Outside \<and> is_ws c then [] else [c])"

fun compact_bytes :: "compact_mode \<Rightarrow> go_string \<Rightarrow> go_string" where
  "compact_bytes m (c0 # c1 # c2 # cs) =
     (if c0 = CHR 0xE2 \<and> c1 = CHR 0x80 \<and> (c2 = CHR 0xA8 \<or> c2 = CHR 0xA9)
      then (if c2 = CHR 0xA8 then backslash # ''u2028'' else backslash # ''u2029'')
           @ compact_bytes (next_mode m c0) cs
      else compact_byte m c0 @ compact_bytes (next_mode m c0) (c1 # c2 # cs))"
| "compact_bytes m (c # cs) = compact_byte m c @ compact_bytes (next_mode m c) cs"
| "compact_bytes m [] = []"

definition compact_raw :: "go_string \<Rightarrow> decode_error + go_string" where
  "compact_raw s = and_then (parse_whole s) (\<lambda>_. Inr (compact_bytes Outside s))"

text \<open>The error values of this package.\<close>

definition json_go_error :: "decode_error \<Rightarrow> go_error" where
  "json_go_error e =
     (case e of
        DecodeEOF \<Rightarrow> External ''EOF''
      | DecodeUnexpectedEOF \<Rightarrow> External ''unexpected EOF''
      | DecodeSyntax \<Rightarrow> External ''json: syntax error''
      | DecodeType \<Rightarrow> External ''json: cannot unmarshal''
      | DecodeRead \<Rightarrow> External ''read error'')"

end
