(* ===== verification/JsonFacts.thy ===== *)
theory JsonFacts
  imports GoJson
begin

text \<open>
  Facts about the JSON parser: every step consumes a non-empty prefix of its input, any fuel
  above twice the length of the input gives the same result, and leading white space does not matter.
\<close>

subsection \<open>Tokens consume their input\<close>

lemma skip_ws_suffix: "\<exists>p. s = p @ skip_ws s"
  unfolding skip_ws_def by (metis takeWhile_dropWhile_id)

lemma skip_ws_length: "length (skip_ws s) \<le> length s"
  by (simp add: skip_ws_def dropWhile_length_le)

lemma skip_ws_idem [simp]: "skip_ws (skip_ws s) = skip_ws s"
  by (simp add: skip_ws_def)

lemma skip_ws_Cons_notws [simp]: "\<not> is_ws c \<Longrightarrow> skip_ws (c # cs) = c # cs"
  by (simp add: skip_ws_def)

lemma cons_raw_Inr: "cons_raw p m = Inr (raw, r) \<longleftrightarrow> (\<exists>q. m = Inr (q, r) \<and> raw = p @ q)"
  by (cases m) (auto simp: cons_raw_def)

lemma scan_string_split: "scan_string s = Inr (raw, r) \<Longrightarrow> s = raw @ quote_char # r"
proof (induction s arbitrary: raw r rule: scan_string.induct)
  case (2 c cs)
  note IH = "2.IH" and prem = "2.prems"
  consider (Q) "c = quote_char" | (B) "c = backslash" "c \<noteq> quote_char"
    | (O) "c \<noteq> quote_char" "c \<noteq> backslash" by blast
  then show ?case
  proof cases
    case Q
    with prem show ?thesis by simp
  next
    case O
    with prem obtain raw' where "scan_string cs = Inr (raw', r)" "raw = [c] @ raw'"
      "\<not> byte_val c < 32"
      by (auto simp: cons_raw_Inr split: if_splits)
    with IH(3) [OF O] show ?thesis by simp
  next
    case B
    then obtain e q where cs: "cs = e # q" using prem by (cases cs) auto
    show ?thesis
    proof (cases "e = CHR ''u''")
      case True
      with prem B cs obtain h1 h2 h3 h4 q' raw'
        where "q = h1 # h2 # h3 # h4 # q'" "scan_string q' = Inr (raw', r)"
          "raw = [c, e, h1, h2, h3, h4] @ raw'" "list_all is_hex [h1, h2, h3, h4]"
        by (auto simp: cons_raw_Inr split: list.splits if_splits)
      with IH(1) [OF B(2,1) cs True] B cs show ?thesis by simp
    next
      case False
      with prem B cs obtain raw' where "scan_string q = Inr (raw', r)" "raw = [c, e] @ raw'"
        "is_simple_escape e"
        by (auto simp: cons_raw_Inr split: if_splits)
      with IH(2) [OF B(2,1) cs False] B cs show ?thesis by simp
    qed
  qed
qed simp

lemma expect_word_split: "expect_word w s = Inr r \<Longrightarrow> s = w @ r"
  by (induction w s rule: expect_word.induct) (auto split: if_splits)

lemma expect_byte_length: "expect_byte w s = Inr r \<Longrightarrow> length r < length s"
  unfolding expect_byte_def using skip_ws_length [of s] by (auto dest!: expect_word_split)

lemma scan_digits_split: "scan_digits s = Inr (n, r) \<Longrightarrow> s = n @ r \<and> n \<noteq> []"
  by (auto simp: scan_digits_def split: list.splits if_splits)

lemma scan_int_split: "scan_int s = Inr (n, r) \<Longrightarrow> s = n @ r \<and> n \<noteq> []"
  by (auto simp: scan_int_def split: list.splits if_splits dest: scan_digits_split)

lemma scan_frac_split: "scan_frac s = Inr (n, r) \<Longrightarrow> s = n @ r"
  by (auto simp: scan_frac_def cons_raw_Inr split: list.splits if_splits dest: scan_digits_split)

lemma scan_exp_split: "scan_exp s = Inr (n, r) \<Longrightarrow> s = n @ r"
  by (auto simp: scan_exp_def cons_raw_Inr split: list.splits if_splits dest: scan_digits_split)

lemma scan_number_split: "scan_number s = Inr (n, r) \<Longrightarrow> s = n @ r \<and> n \<noteq> []"
  by (auto simp: scan_number_def and_then_Inr split: list.splits if_splits
      dest!: scan_int_split scan_frac_split scan_exp_split)

lemma scan_string_length: "scan_string s = Inr (raw, r) \<Longrightarrow> length r < length s"
  by (drule scan_string_split) simp

lemma expect_word_length: "expect_word w s = Inr r \<Longrightarrow> length r \<le> length s"
  by (drule expect_word_split) simp

lemma scan_number_length: "scan_number s = Inr (n, r) \<Longrightarrow> length r < length s"
  by (drule scan_number_split) simp

subsection \<open>The parser consumes its input\<close>

lemma parse_consumes:
  shows parse_value_consumes: "parse_value f d s = Inr (v, r) \<Longrightarrow> length r < length s"
    and parse_elems_consumes: "parse_elems f d s = Inr (vs, r) \<Longrightarrow> length r < length s"
    and parse_members_consumes: "parse_members f d s = Inr (kvs, r) \<Longrightarrow> length r < length s"
proof (induction f d s and f d s and f d s arbitrary: v r and vs r and kvs r
    rule: parse_value_parse_elems_parse_members.induct)
  case (2 f d s)
  from "2.prems" obtain c cs where s: "skip_ws s = c # cs"
    by (cases "skip_ws s") auto
  have len: "length (c # cs) \<le> length s" using skip_ws_length [of s] s by simp
  consider "c = CHR ''{''" | "c = CHR ''[''" | "c \<noteq> CHR ''{''" "c \<noteq> CHR ''[''" by blast
  then have "length r < length (c # cs)"
  proof cases
    case 1
    with "2.prems" s obtain x q where x: "skip_ws cs = x # q"
      and max: "\<not> max_depth \<le> d"
      by (auto split: if_splits list.splits)
    have "length r < length (x # q)"
    proof (cases "x = CHR ''}''")
      case True
      with "2.prems" s x max 1 show ?thesis by simp
    next
      case False
      with "2.prems" s x max 1 obtain kvs where "parse_members f (Suc d) (x # q) = Inr (kvs, r)"
        by (auto simp: and_then_Inr)
      with "2.IH"(1) [OF s 1 max x False] show ?thesis by blast
    qed
    then show ?thesis using skip_ws_length [of cs] x by simp
  next
    case 2
    with "2.prems" s obtain x q where x: "skip_ws cs = x # q"
      and max: "\<not> max_depth \<le> d"
      by (auto split: if_splits list.splits)
    have ne: "c \<noteq> CHR ''{''" using 2 by simp
    have "length r < length (x # q)"
    proof (cases "x = CHR '']''")
      case True
      with "2.prems" s x max 2 show ?thesis by simp
    next
      case False
      with "2.prems" s x max 2 obtain vs where "parse_elems f (Suc d) (x # q) = Inr (vs, r)"
        by (auto simp: and_then_Inr)
      with "2.IH"(2) [OF s ne 2 max x False] show ?thesis by blast
    qed
    then show ?thesis using skip_ws_length [of cs] x by simp
  next
    case 3
    with "2.prems" s have "and_then (scan_string cs) (\<lambda>(raw, r). Inr (JString (unquote raw), r)) = Inr (v, r)
      \<or> (\<exists>w. expect_word w cs = Inr r) \<or> (\<exists>n. scan_number (c # cs) = Inr (n, r))"
      by (auto simp: and_then_Inr split: if_splits)
    then show ?thesis
      by (auto simp: and_then_Inr dest!: scan_string_length expect_word_length scan_number_length)
  qed
  with len show ?case by simp
next
  case (4 f d s)
  from "4.prems" obtain v s1 where v: "parse_value f d s = Inr (v, s1)"
    by (auto simp: and_then_Inr)
  with "4.IH"(1) have "length s1 < length s" by blast
  with 4 v skip_ws_length [of s1] show ?case
    by (fastforce simp: and_then_Inr split: if_splits list.splits)
next
  case (6 f d s)
  from "6.prems" obtain s1 raw s2 s3 v s4
    where eqs: "expect_byte quote_char s = Inr s1" "scan_string s1 = Inr (raw, s2)"
      "expect_byte CHR '':'' s2 = Inr s3" "parse_value f d s3 = Inr (v, s4)"
    by (auto simp: and_then_Inr)
  with "6.IH"(1) have "length s4 < length s3" by blast
  moreover have "length s1 < length s" "length s2 < length s1" "length s3 < length s2"
    using eqs by (auto dest: expect_byte_length scan_string_split)
  ultimately show ?case
    using 6 eqs skip_ws_length [of s4] by (fastforce simp: and_then_Inr split: if_splits list.splits)
qed auto

subsection \<open>Enough fuel\<close>

lemma parse_fuel_aux:
  "(\<forall>d s g. 2 * length s < f \<longrightarrow> 2 * length s < g \<longrightarrow> parse_value f d s = parse_value g d s) \<and>
   (\<forall>d s g. 2 * length s + 1 < f \<longrightarrow> 2 * length s + 1 < g \<longrightarrow> parse_elems f d s = parse_elems g d s) \<and>
   (\<forall>d s g. 2 * length s + 1 < f \<longrightarrow> 2 * length s + 1 < g \<longrightarrow> parse_members f d s = parse_members g d s)"
proof (induction f)
  case (Suc f)
  then have IHv: "2 * length s < f \<Longrightarrow> 2 * length s < g \<Longrightarrow> parse_value f d s = parse_value g d s"
    and IHe: "2 * length s + 1 < f \<Longrightarrow> 2 * length s + 1 < g \<Longrightarrow> parse_elems f d s = parse_elems g d s"
    and IHm: "2 * length s + 1 < f \<Longrightarrow> 2 * length s + 1 < g \<Longrightarrow> parse_members f d s = parse_members g d s"
    for d s g by blast+
  have "parse_value (Suc f) d s = parse_value g d s" if len: "2 * length s < Suc f" "2 * length s < g" for d s g
  proof -
    from len obtain g' where g: "g = Suc g'" by (cases g) auto
    have "parse_members f (Suc d) (x # r) = parse_members g' (Suc d) (x # r)"
      and "parse_elems f (Suc d) (x # r) = parse_elems g' (Suc d) (x # r)"
      if "skip_ws s = c # cs" "skip_ws cs = x # r" for c cs x r
    proof -
      have "length (x # r) < length s"
        using skip_ws_length [of s] skip_ws_length [of cs] that by simp
      with len g show "parse_members f (Suc d) (x # r) = parse_members g' (Suc d) (x # r)"
        and "parse_elems f (Suc d) (x # r) = parse_elems g' (Suc d) (x # r)"
        by (auto intro!: IHm IHe)
    qed
    then show ?thesis unfolding g parse_value.simps
      by (intro list.case_cong if_cong refl arg_cong [where f = "\<lambda>m. and_then m _"])
  qed
  moreover have "parse_elems (Suc f) d s = parse_elems g d s"
    if len: "2 * length s + 1 < Suc f" "2 * length s + 1 < g" for d s g
  proof -
    from len obtain g' where g: "g = Suc g'" by (cases g) auto
    have v: "parse_value f d s = parse_value g' d s" using len g by (intro IHv) auto
    have "parse_elems f d r = parse_elems g' d r"
      if "parse_value g' d s = Inr (v, s1)" "skip_ws s1 = x # r" for v s1 x r
      using parse_value_consumes [OF that(1)] skip_ws_length [of s1] that(2) len g
      by (intro IHe) auto
    then show ?thesis unfolding g parse_elems.simps v
      by (auto intro!: and_then_cong list.case_cong split: prod.splits)
  qed
  moreover have "parse_members (Suc f) d s = parse_members g d s"
    if len: "2 * length s + 1 < Suc f" "2 * length s + 1 < g" for d s g
  proof -
    from len obtain g' where g: "g = Suc g'" by (cases g) auto
    have v: "parse_value f d s3 = parse_value g' d s3" 
      if "length s3 < length s" for s3 using that len g by (intro IHv) auto
    have m: "parse_members f d r = parse_members g' d r" if "length r < length s" for r
      using that len g by (intro IHm) auto
    show ?thesis
    proof (cases "expect_byte quote_char s")
      case 1: (Inr s1)
      show ?thesis
      proof (cases "scan_string s1")
        case (Inr p)
        then obtain raw s2 where 2: "scan_string s1 = Inr (raw, s2)" by (cases p) auto
        show ?thesis
        proof (cases "expect_byte CHR '':'' s2")
          case 3: (Inr s3)
          have l3: "length s3 < length s"
            using 1 2 3 by (auto dest!: expect_byte_length scan_string_length)
          show ?thesis
          proof (cases "parse_value g' d s3")
            case (Inr q)
            then obtain w s4 where 4: "parse_value g' d s3 = Inr (w, s4)" by (cases q) auto
            then have "parse_members f d r = parse_members g' d r" if "skip_ws s4 = x # r" for x r
              using that l3 skip_ws_length [of s4] by (intro m) (auto dest!: parse_value_consumes)
            with 1 2 3 4 show ?thesis unfolding g by (simp add: v [OF l3] split: list.split)
          qed (use 1 2 3 in \<open>simp add: g v [OF l3]\<close>)
        qed (use 1 2 in \<open>simp add: g\<close>)
      qed (use 1 in \<open>simp add: g\<close>)
    qed (simp add: g)
  qed
  ultimately show ?case by blast
qed simp

lemma parse_value_fuel: "2 * length s < f \<Longrightarrow> 2 * length s < g \<Longrightarrow> parse_value f d s = parse_value g d s"
  using parse_fuel_aux by blast

lemma parse_members_fuel:
  "2 * length s + 1 < f \<Longrightarrow> 2 * length s + 1 < g \<Longrightarrow> parse_members f d s = parse_members g d s"
  using parse_fuel_aux by blast

text \<open>Leading white space is skipped.\<close>

lemma parse_value_skip_ws: "parse_value f d (skip_ws s) = parse_value f d s"
  by (cases f) simp_all

lemma parse_json_skip_ws: "parse_json (skip_ws s) = parse_json s"
proof -
  have "parse_json (skip_ws s) = parse_value (json_fuel s) 0 (skip_ws s)"
    unfolding parse_json_def
    by (rule parse_value_fuel) (use skip_ws_length [of s] in \<open>simp_all add: json_fuel_def\<close>)
  then show ?thesis by (simp add: parse_json_def parse_value_skip_ws)
qed

end
