(* ===== verification/Utf8Facts.thy ===== *)
theory Utf8Facts
  imports JsonFacts
begin

text \<open>
  Well-formed runes: a group of bytes that decodes to a rune does so whatever follows it, and
  encoding the rune gives the bytes back.
\<close>

subsection \<open>Shapes\<close>

text \<open>The byte groups of UTF-8, one to four bytes long.\<close>

definition rune_bytes :: "go_string \<Rightarrow> nat \<Rightarrow> bool" where
  "rune_bytes ch r \<longleftrightarrow>
     (\<exists>c0. ch = [c0] \<and> byte_val c0 < 128 \<and> r = byte_val c0)
     \<or> (\<exists>c0 c1. ch = [c0, c1] \<and> 194 \<le> byte_val c0 \<and> byte_val c0 < 224 \<and> cont_byte c1
          \<and> r = (byte_val c0 mod 32) * 64 + payload6 c1)
     \<or> (\<exists>c0 c1 c2. ch = [c0, c1, c2] \<and> 224 \<le> byte_val c0 \<and> byte_val c0 < 240
          \<and> in_range (second_lo (byte_val c0)) (second_hi (byte_val c0)) c1 \<and> cont_byte c2
          \<and> r = (byte_val c0 mod 16) * 4096 + payload6 c1 * 64 + payload6 c2)
     \<or> (\<exists>c0 c1 c2 c3. ch = [c0, c1, c2, c3] \<and> 240 \<le> byte_val c0 \<and> byte_val c0 \<le> 244
          \<and> in_range (second_lo (byte_val c0)) (second_hi (byte_val c0)) c1 \<and> cont_byte c2 \<and> cont_byte c3
          \<and> r = (byte_val c0 mod 8) * 262144 + payload6 c1 * 4096 + payload6 c2 * 64 + payload6 c3)"

lemma rune_bytes_decode: "rune_bytes ch r \<Longrightarrow> decode_rune (ch @ t) = (r, length ch)"
  unfolding rune_bytes_def by (elim disjE exE conjE) (simp_all add: Let_def)

lemma decode_rune_shape:
  assumes "s \<noteq> []" "decode_rune s \<noteq> (rune_error, 1)"
  shows "rune_bytes (take (snd (decode_rune s)) s) (fst (decode_rune s))"
  using assms by (cases s) (auto simp: rune_bytes_def Let_def not_less split: list.splits if_splits)

lemma decode_rune_bad: "decode_rune (c # cs) = (rune_error, 1) \<Longrightarrow> decode_rune [c] = (rune_error, 1)"
  by (auto simp: Let_def split: if_splits)

lemma chunk_shape:
  "ch \<in> set (chunks s) \<Longrightarrow> (\<exists>r. rune_bytes ch r) \<or> (\<exists>c. ch = [c] \<and> decode_rune [c] = (rune_error, 1))"
proof (induction s rule: chunks.induct)
  case (2 c cs)
  let ?s = "c # cs"
  show ?case
  proof (cases "decode_rune ?s = (rune_error, 1)")
    case True
    with 2 decode_rune_bad [OF True] show ?thesis by (auto simp del: decode_rune.simps)
  next
    case False
    with 2 decode_rune_shape [of ?s] show ?thesis by (auto simp del: decode_rune.simps)
  qed
qed simp

lemma chunk_good: "ch \<in> set (chunks s) \<Longrightarrow> \<not> bad_chunk ch \<Longrightarrow> \<exists>r. rune_bytes ch r"
  using chunk_shape [of ch s] by (auto simp: bad_chunk_def simp del: decode_rune.simps)

lemma chunk_bad:
  assumes "ch \<in> set (chunks s)" "bad_chunk ch"
  shows "\<exists>c. ch = [c]"
  using chunk_shape [OF assms(1)]
proof
  assume "\<exists>r. rune_bytes ch r"
  then obtain r where "rune_bytes ch r" by blast
  from rune_bytes_decode [OF this, of "[]"] assms(2) have "length ch = 1"
    by (simp add: bad_chunk_def del: decode_rune.simps)
  then show ?thesis by (auto simp: length_Suc_conv)
qed blast

subsection \<open>Encoding\<close>

lemma byte_of_eqI: "n = byte_val c \<Longrightarrow> byte_of n = c"
  by simp

lemma encode_rune_plain:
  assumes "r \<le> 1114111" "\<not> (55296 \<le> r \<and> r \<le> 57343)"
  shows "encode_rune r =
     (if r < 128 then [byte_of r]
      else if r < 2048 then [byte_of (192 + r div 64), byte_of (128 + r mod 64)]
      else if r < 65536 then
        [byte_of (224 + r div 4096), byte_of (128 + r div 64 mod 64), byte_of (128 + r mod 64)]
      else
        [byte_of (240 + r div 262144), byte_of (128 + r div 4096 mod 64),
         byte_of (128 + r div 64 mod 64), byte_of (128 + r mod 64)])"
  using assms unfolding encode_rune_def Let_def by (auto simp: not_less)

lemma div_mod_64: "(z::nat) < 64 \<Longrightarrow> (a * 64 + z) div 64 = a" "z < 64 \<Longrightarrow> (a * 64 + z) mod 64 = z"
  by simp_all

lemma tail_byte: "cont_byte c \<Longrightarrow> \<exists>y < 64. byte_val c = 128 + y \<and> payload6 c = y"
  by (intro exI [of _ "byte_val c - 128"]) (auto simp: in_range_def payload6_def mod_if)

lemma encode_two:
  assumes "194 \<le> byte_val c0" "byte_val c0 < 224" "cont_byte c1"
  shows "encode_rune ((byte_val c0 mod 32) * 64 + payload6 c1) = [c0, c1]"
proof -
  obtain x where x: "byte_val c0 = 192 + x" "2 \<le> x" "x < 32"
    using assms by (intro that [of "byte_val c0 - 192"]) auto
  obtain y where y: "y < 64" "byte_val c1 = 128 + y" "payload6 c1 = y" using tail_byte [OF assms(3)] by blast
  have m: "byte_val c0 mod 32 = x" unfolding x(1) using x(3) by (simp add: mod_if)
  have r: "128 \<le> x * 64 + y" "x * 64 + y < 2048" using x y by linarith+
  show ?thesis
    unfolding m y(3) using r x y by (simp add: encode_rune_def Let_def div_mod_64 byte_of_eqI)
qed

lemma second_byte:
  assumes "in_range (second_lo b) (second_hi b) c1"
  shows "cont_byte c1"
    and "b = 224 \<Longrightarrow> 160 \<le> byte_val c1" and "b = 237 \<Longrightarrow> byte_val c1 \<le> 159"
    and "b = 240 \<Longrightarrow> 144 \<le> byte_val c1" and "b = 244 \<Longrightarrow> byte_val c1 \<le> 143"
  using assms by (auto simp: in_range_def second_lo_def second_hi_def split: if_splits)

lemma encode_three:
  assumes "224 \<le> byte_val c0" "byte_val c0 < 240"
    and "in_range (second_lo (byte_val c0)) (second_hi (byte_val c0)) c1" "cont_byte c2"
  shows "encode_rune ((byte_val c0 mod 16) * 4096 + payload6 c1 * 64 + payload6 c2) = [c0, c1, c2]"
proof -
  obtain x where x: "byte_val c0 = 224 + x" "x < 16"
    using assms by (intro that [of "byte_val c0 - 224"]) auto
  obtain y where y: "y < 64" "byte_val c1 = 128 + y" "payload6 c1 = y"
    using tail_byte [OF second_byte(1) [OF assms(3)]] by blast
  obtain z where z: "z < 64" "byte_val c2 = 128 + z" "payload6 c2 = z" using tail_byte [OF assms(4)] by blast
  have m: "byte_val c0 mod 16 = x" unfolding x(1) using x(2) by (simp add: mod_if)
  have lo: "x = 0 \<Longrightarrow> 32 \<le> y" "x = 13 \<Longrightarrow> y < 32"
    using second_byte(2,3) [OF assms(3)] x y by auto
  let ?r = "x * 4096 + y * 64 + z"
  have eq: "?r = (x * 64 + y) * 64 + z" by simp
  have d: "?r div 64 = x * 64 + y" "?r mod 64 = z" unfolding eq using z(1) by (simp_all only: div_mod_64)
  have "?r div 4096 = ?r div 64 div 64" by (simp add: div_mult2_eq [symmetric])
  then have d2: "?r div 4096 = x" "?r div 64 mod 64 = y" using d y(1) by (simp_all only: div_mod_64)
  have "2048 \<le> ?r" using lo(1) by (cases "x = 0") auto
  moreover have "?r < 65536" using x y z by linarith
  moreover have "\<not> (55296 \<le> ?r \<and> ?r \<le> 57343)"
  proof
    assume "55296 \<le> ?r \<and> ?r \<le> 57343"
    then have "x = 13" using y z by linarith
    with lo(2) \<open>55296 \<le> ?r \<and> ?r \<le> 57343\<close> z show False by linarith
  qed
  ultimately show ?thesis
    unfolding m y(3) z(3) using d d2 x y z by (simp add: encode_rune_plain byte_of_eqI)
qed

lemma encode_four:
  assumes "240 \<le> byte_val c0" "byte_val c0 \<le> 244"
    and "in_range (second_lo (byte_val c0)) (second_hi (byte_val c0)) c1" "cont_byte c2" "cont_byte c3"
  shows "encode_rune ((byte_val c0 mod 8) * 262144 + payload6 c1 * 4096 + payload6 c2 * 64 + payload6 c3)
           = [c0, c1, c2, c3]"
proof -
  obtain x where x: "byte_val c0 = 240 + x" "x \<le> 4"
    using assms by (intro that [of "byte_val c0 - 240"]) auto
  obtain y where y: "y < 64" "byte_val c1 = 128 + y" "payload6 c1 = y"
    using tail_byte [OF second_byte(1) [OF assms(3)]] by blast
  obtain z where z: "z < 64" "byte_val c2 = 128 + z" "payload6 c2 = z" using tail_byte [OF assms(4)] by blast
  obtain w where w: "w < 64" "byte_val c3 = 128 + w" "payload6 c3 = w" using tail_byte [OF assms(5)] by blast
  have m: "byte_val c0 mod 8 = x" unfolding x(1) using x(2) by (simp add: mod_if)
  have lo: "x = 0 \<Longrightarrow> 16 \<le> y" "x = 4 \<Longrightarrow> y < 16"
    using second_byte(4,5) [OF assms(3)] x y by auto
  let ?r = "x * 262144 + y * 4096 + z * 64 + w"
  have eq: "?r = (x * 4096 + y * 64 + z) * 64 + w" "x * 4096 + y * 64 + z = (x * 64 + y) * 64 + z" by simp_all
  have d: "?r div 64 = x * 4096 + y * 64 + z" "?r mod 64 = w"
    unfolding eq(1) using w(1) by (simp_all only: div_mod_64)
  have d2: "?r div 64 div 64 = x * 64 + y" "?r div 64 mod 64 = z"
    unfolding d(1) eq(2) using z(1) by (simp_all only: div_mod_64)
  have d3: "?r div 64 div 64 div 64 = x" "?r div 64 div 64 mod 64 = y"
    unfolding d2(1) using y(1) by (simp_all only: div_mod_64)
  have "?r div 4096 = ?r div 64 div 64" "?r div 262144 = ?r div 64 div 64 div 64"
    by (simp_all add: div_mult2_eq [symmetric])
  then have d4: "?r div 4096 mod 64 = y" "?r div 262144 = x" using d3 by simp_all
  have "65536 \<le> ?r" using lo(1) by (cases "x = 0") auto
  moreover have "?r \<le> 1114111"
  proof (cases "x = 4")
    case True
    with lo(2) z w show ?thesis by simp
  next
    case False
    with x y z w show ?thesis by linarith
  qed
  ultimately show ?thesis
    unfolding m y(3) z(3) w(3) using d(2) d2(2) d4 x y z w by (simp add: encode_rune_def Let_def byte_of_eqI)
qed

lemma encode_one: "byte_val c < 128 \<Longrightarrow> encode_rune (byte_val c) = [c]"
  by (simp add: encode_rune_plain)

lemma encode_rune_bytes: "rune_bytes ch r \<Longrightarrow> encode_rune r = ch"
  unfolding rune_bytes_def
  by (elim disjE exE conjE) (simp_all only: encode_one encode_two encode_three encode_four)

end
