(* ===== verification/JsonStrings.thy ===== *)
theory JsonStrings
  imports Utf8Facts
begin

text \<open>
  String literals: what \<open>quote_json\<close> writes, \<open>scan_string\<close> and \<open>unquote\<close> read back, with
  malformed bytes replaced by U+FFFD.
\<close>

subsection \<open>Scanning quoted text\<close>

definition scan_safe :: "go_string \<Rightarrow> bool" where
  "scan_safe p \<longleftrightarrow> (\<forall>rest. scan_string (p @ rest) = cons_raw p (scan_string rest))"

definition unquotes_to :: "go_string \<Rightarrow> go_string \<Rightarrow> bool" where
  "unquotes_to p u \<longleftrightarrow> (\<forall>rest. unquote (p @ rest) = u @ unquote rest)"

lemma cons_raw_Nil [simp]: "cons_raw [] r = r"
  by (cases r) (auto simp: cons_raw_def)

lemma cons_raw_cons_raw [simp]: "cons_raw p (cons_raw q r) = cons_raw (p @ q) r"
  by (cases r) (auto simp: cons_raw_def)

lemma scan_safe_append: "scan_safe p \<Longrightarrow> scan_safe q \<Longrightarrow> scan_safe (p @ q)"
  by (simp add: scan_safe_def)

lemma scan_safe_concat: "\<forall>p \<in> set ps. scan_safe p \<Longrightarrow> scan_safe (concat ps)"
  by (induction ps) (auto simp: scan_safe_def)

lemma unquotes_to_concat:
  "list_all2 unquotes_to ps us \<Longrightarrow> unquotes_to (concat ps) (concat us)"
  by (induction rule: list_all2_induct) (auto simp: unquotes_to_def)

lemma scan_safe_plain:
  "\<forall>c \<in> set p. c \<noteq> quote_char \<and> c \<noteq> backslash \<and> 32 \<le> byte_val c \<Longrightarrow> scan_safe p"
proof (induction p)
  case (Cons c p)
  have "scan_safe [c]" using Cons.prems by (simp add: scan_safe_def)
  with Cons scan_safe_append [of "[c]" p] show ?case by simp
qed (simp add: scan_safe_def)

lemma scan_safe_escape: "is_simple_escape e \<Longrightarrow> scan_safe [backslash, e]"
  by (auto simp: scan_safe_def is_simple_escape_def)

lemma scan_safe_u: "list_all is_hex [a, b, c, d] \<Longrightarrow> scan_safe [backslash, CHR ''u'', a, b, c, d]"
  by (simp add: scan_safe_def)

lemma unquotes_simple: "e \<noteq> CHR ''u'' \<Longrightarrow> unquotes_to [backslash, e] [unescape e]"
  by (simp add: unquotes_to_def)

lemma unquotes_u:
  assumes "\<not> is_surrogate (hex4 [a, b, c, d])"
  shows "unquotes_to [backslash, CHR ''u'', a, b, c, d] (encode_rune (hex4 [a, b, c, d]))"
  using assms by (simp add: unquotes_to_def read_u_def)

lemma unquotes_rune:
  assumes "rune_bytes ch r" "ch \<noteq> [backslash]"
  shows "unquotes_to ch ch"
proof -
  from assms(1) obtain c cs where ch: "ch = c # cs" by (auto simp: rune_bytes_def)
  have "c \<noteq> backslash"
    using assms unfolding ch rune_bytes_def by auto
  then have "unquote (ch @ rest) = ch @ unquote rest" for rest
    using rune_bytes_decode [OF assms(1), of rest] encode_rune_bytes [OF assms(1)]
    unfolding ch by (simp del: decode_rune.simps)
  then show ?thesis by (simp add: unquotes_to_def)
qed

subsection \<open>Hexadecimal digits\<close>

lemma less_16_cases: "(n::nat) < 16 \<Longrightarrow> n \<in> {15, 14, 13, 12, 11, 10, 9, 8, 7, 6, 5, 4, 3, 2, 1, 0}"
  by (auto simp: eval_nat_numeral less_Suc_eq)

lemma hex_digit_ok: "n < 16 \<Longrightarrow> is_hex (hex_digit n) \<and> hex_val (hex_digit n) = n"
  by (drule less_16_cases) (elim insertE emptyE; simp add: is_hex_def hex_val_def is_digit_def)

lemma byte_lt_256: "byte_val c < 256"
  by (rule nat_of_char_less_256)

lemma hex_byte_ok:
  "hex4 [CHR ''0'', CHR ''0'', hex_digit (byte_val c div 16), hex_digit (byte_val c mod 16)] = byte_val c"
  "list_all is_hex [CHR ''0'', CHR ''0'', hex_digit (byte_val c div 16), hex_digit (byte_val c mod 16)]"
proof -
  have d: "byte_val c div 16 < 16" "byte_val c mod 16 < 16"
    using byte_lt_256 [of c] by (simp_all add: div_less_iff_less_mult)
  have "hex4 [CHR ''0'', CHR ''0'', x, y] = 16 * hex_val x + hex_val y" for x y
    by (simp add: hex4_def hex_val_def is_digit_def)
  then show "hex4 [CHR ''0'', CHR ''0'', hex_digit (byte_val c div 16), hex_digit (byte_val c mod 16)] = byte_val c"
    using hex_digit_ok [OF d(1)] hex_digit_ok [OF d(2)] by simp
  show "list_all is_hex [CHR ''0'', CHR ''0'', hex_digit (byte_val c div 16), hex_digit (byte_val c mod 16)]"
    using hex_digit_ok [OF d(1)] hex_digit_ok [OF d(2)] by (simp add: is_hex_def is_digit_def)
qed

subsection \<open>Quoted groups\<close>

lemma quote_ascii_ok:
  assumes "byte_val c < 128"
  shows "scan_safe (quote_ascii c) \<and> unquotes_to (quote_ascii c) [c]"
proof -
  consider "c \<in> {quote_char, backslash, CHR 0x08, CHR 0x0C, CHR 0x0A, CHR 0x0D, CHR 0x09}"
    | "c \<notin> {quote_char, backslash, CHR 0x08, CHR 0x0C, CHR 0x0A, CHR 0x0D, CHR 0x09}"
      "byte_val c < 32 \<or> c \<in> {CHR ''<'', CHR ''>'', CHR ''&''}"
    | "c \<notin> {quote_char, backslash}" "32 \<le> byte_val c" "c \<notin> {CHR ''<'', CHR ''>'', CHR ''&''}"
    by fastforce
  then show ?thesis
  proof cases
    case 1
    then show ?thesis
      using scan_safe_escape unquotes_simple [of quote_char] unquotes_simple [of backslash]
        unquotes_simple [of "CHR ''b''"] unquotes_simple [of "CHR ''f''"] unquotes_simple [of "CHR ''n''"]
        unquotes_simple [of "CHR ''r''"] unquotes_simple [of "CHR ''t''"]
      by (auto simp: quote_ascii_def is_simple_escape_def unescape_def)
  next
    case 2
    then have q: "quote_ascii c = [backslash, CHR ''u'', CHR ''0'', CHR ''0''] @ hex_byte (byte_val c)"
      by (auto simp: quote_ascii_def)
    have "\<not> is_surrogate (byte_val c)" using assms by (simp add: is_surrogate_def)
    let ?h = "hex_digit (byte_val c div 16)" and ?l = "hex_digit (byte_val c mod 16)"
    have "unquotes_to [backslash, CHR ''u'', CHR ''0'', CHR ''0'', ?h, ?l] (encode_rune (byte_val c))"
      using unquotes_u [of "CHR ''0''" "CHR ''0''" ?h ?l, unfolded hex_byte_ok(1), OF \<open>\<not> is_surrogate (byte_val c)\<close>] .
    then have u: "unquotes_to [backslash, CHR ''u'', CHR ''0'', CHR ''0'', ?h, ?l] [c]"
      unfolding encode_one [OF assms] .
    have q2: "quote_ascii c = [backslash, CHR ''u'', CHR ''0'', CHR ''0'', ?h, ?l]"
      unfolding q hex_byte_def append.simps by (rule refl)
    have safe: "scan_safe [backslash, CHR ''u'', CHR ''0'', CHR ''0'', ?h, ?l]"
      by (rule scan_safe_u [OF hex_byte_ok(2) [of c]])
    show ?thesis unfolding q2 using safe u ..
  next
    case 3
    have "c \<noteq> x" if "byte_val x < 32" for x using that 3(2) by auto
    from this [of "CHR 0x08"] this [of "CHR 0x0C"] this [of "CHR 0x0A"] this [of "CHR 0x0D"] this [of "CHR 0x09"] 3
    have q: "quote_ascii c = [c]" by (simp add: quote_ascii_def)
    have "rune_bytes [c] (byte_val c)" using assms by (simp add: rune_bytes_def)
    then have "unquotes_to [c] [c]" using 3 by (intro unquotes_rune) auto
    moreover have "scan_safe [c]" using 3 by (intro scan_safe_plain) auto
    ultimately show ?thesis by (simp add: q)
  qed
qed

lemma rune_bytes_tail: "rune_bytes ch r \<Longrightarrow> 1 < length ch \<Longrightarrow> \<forall>c \<in> set ch. 128 \<le> byte_val c"
  unfolding rune_bytes_def using second_byte(1) by (fastforce simp: in_range_def)

lemma rune_bytes_one: "rune_bytes [c] r \<Longrightarrow> byte_val c < 128"
  by (auto simp: rune_bytes_def)

text \<open>What a group reads back as: itself, or U+FFFD when it is malformed.\<close>

definition valid_chunk :: "go_string \<Rightarrow> go_string" where
  "valid_chunk ch = (if bad_chunk ch then encode_rune rune_error else ch)"

definition to_valid :: "go_string \<Rightarrow> go_string" where
  "to_valid s = concat (map valid_chunk (chunks s))"

lemma to_valid_id: "valid_string s \<Longrightarrow> to_valid s = s"
proof -
  assume "valid_string s"
  then have "map valid_chunk (chunks s) = chunks s"
    by (intro map_idI) (simp add: valid_chunk_def valid_string_def)
  then show ?thesis by (simp add: to_valid_def)
qed

lemma quote_chunk_u: "decode_rune ch = (r, 3) \<Longrightarrow> r = 8232 \<or> r = 8233 \<Longrightarrow> rune_bytes ch r \<Longrightarrow>
   scan_safe (quote_chunk ch) \<and> unquotes_to (quote_chunk ch) ch"
proof -
  assume d: "decode_rune ch = (r, 3)" and r: "r = 8232 \<or> r = 8233" and b: "rune_bytes ch r"
  have len: "length ch = 3" using rune_bytes_decode [OF b, of "[]"] d by simp
  have e: "encode_rune r = ch" by (rule encode_rune_bytes [OF b])
  have h: "hex4 ''2028'' = 8232" "hex4 ''2029'' = 8233"
    by (simp_all add: hex4_def hex_val_def is_digit_def)
  have x: "list_all is_hex ''2028''" "list_all is_hex ''2029''" by (simp_all add: is_hex_def is_digit_def)
  from r show ?thesis
  proof
    assume r: "r = 8232"
    then have q: "quote_chunk ch = [backslash, CHR ''u'', CHR ''2'', CHR ''0'', CHR ''2'', CHR ''8'']"
      using d len by (simp add: quote_chunk_def bad_chunk_def rune_error_def)
    show ?thesis
      unfolding q using scan_safe_u [OF x(1)] unquotes_u [of "CHR ''2''" "CHR ''0''" "CHR ''2''" "CHR ''8''"] e r
      by (simp add: h is_surrogate_def)
  next
    assume r: "r = 8233"
    then have q: "quote_chunk ch = [backslash, CHR ''u'', CHR ''2'', CHR ''0'', CHR ''2'', CHR ''9'']"
      using d len by (simp add: quote_chunk_def bad_chunk_def rune_error_def)
    show ?thesis
      unfolding q using scan_safe_u [OF x(2)] unquotes_u [of "CHR ''2''" "CHR ''0''" "CHR ''2''" "CHR ''9''"] e r
      by (simp add: h is_surrogate_def)
  qed
qed

lemma quote_chunk_bad:
  assumes "bad_chunk ch"
  shows "scan_safe (quote_chunk ch) \<and> unquotes_to (quote_chunk ch) (encode_rune rune_error)"
proof -
  have q: "quote_chunk ch = [backslash, CHR ''u'', CHR ''f'', CHR ''f'', CHR ''f'', CHR ''d'']"
    using assms by (simp add: quote_chunk_def)
  have h: "hex4 ''fffd'' = rune_error" "list_all is_hex ''fffd''"
    by (simp_all add: hex4_def hex_val_def is_hex_def is_digit_def rune_error_def)
  show ?thesis
    unfolding q using scan_safe_u [OF h(2)] unquotes_u [of "CHR ''f''" "CHR ''f''" "CHR ''f''" "CHR ''d''"]
    by (simp add: h is_surrogate_def rune_error_def)
qed

lemma quote_chunk_ok:
  assumes "ch \<in> set (chunks s)"
  shows "scan_safe (quote_chunk ch) \<and> unquotes_to (quote_chunk ch) (valid_chunk ch)"
proof (cases "bad_chunk ch")
  case True
  with quote_chunk_bad [OF True] show ?thesis by (simp add: valid_chunk_def)
next
  case False
  then obtain r where r: "rune_bytes ch r" using chunk_good [OF assms] by blast
  have d: "decode_rune ch = (r, length ch)" using rune_bytes_decode [OF r, of "[]"] by simp
  show ?thesis
  proof (cases "length ch = 1")
    case True
    then obtain c where ch: "ch = [c]" by (auto simp: length_Suc_conv)
    have "byte_val c < 128" using rune_bytes_one r ch by blast
    with False ch True show ?thesis
      using quote_ascii_ok [of c] by (simp add: quote_chunk_def valid_chunk_def del: decode_rune.simps)
  next
    case multi: False
    moreover have "ch \<noteq> []" using r by (auto simp: rune_bytes_def)
    ultimately have len: "1 < length ch" by (cases ch) auto
    show ?thesis
    proof (cases "r = 8232 \<or> r = 8233")
      case True
      have "length ch = 3"
        using True encode_rune_bytes [OF r] by (auto simp: encode_rune_plain)
      with quote_chunk_u [OF _ True r] d False show ?thesis by (simp add: valid_chunk_def del: decode_rune.simps)
    next
      case plain: False
      have q: "quote_chunk ch = ch"
        using False plain multi d by (simp add: quote_chunk_def del: decode_rune.simps)
      have "\<forall>c \<in> set ch. 128 \<le> byte_val c" by (rule rune_bytes_tail [OF r len])
      then have "scan_safe ch" by (intro scan_safe_plain) fastforce
      moreover have "unquotes_to ch ch" using len by (intro unquotes_rune [OF r]) auto
      ultimately show ?thesis using False by (simp add: q valid_chunk_def)
    qed
  qed
qed

subsection \<open>Whole literals\<close>

definition quoted_body :: "go_string \<Rightarrow> go_string" where
  "quoted_body s = concat (map quote_chunk (chunks s))"

lemma quote_json_body: "quote_json s = quote_char # quoted_body s @ [quote_char]"
  by (simp add: quote_json_def quoted_body_def)

lemma scan_quoted: "scan_string (quoted_body s @ quote_char # rest) = Inr (quoted_body s, rest)"
proof -
  have "scan_safe (quoted_body s)"
    unfolding quoted_body_def by (rule scan_safe_concat) (use quote_chunk_ok in auto)
  then show ?thesis by (simp add: scan_safe_def cons_raw_def)
qed

lemma unquote_quoted: "unquote (quoted_body s) = to_valid s"
proof -
  have "list_all2 unquotes_to (map quote_chunk (chunks s)) (map valid_chunk (chunks s))"
    unfolding list.rel_map by (rule list.rel_refl_strong) (use quote_chunk_ok in blast)
  then have "unquotes_to (quoted_body s) (to_valid s)"
    unfolding quoted_body_def to_valid_def by (rule unquotes_to_concat)
  then have "unquote (quoted_body s @ []) = to_valid s @ unquote []" unfolding unquotes_to_def by blast
  then show ?thesis by simp
qed

text \<open>A quoted valid string is determined by any text that starts with it.\<close>

lemma quote_json_inject:
  assumes "valid_string s" "valid_string t" "quote_json s @ a = quote_json t @ b"
  shows "s = t \<and> a = b"
proof -
  have "quoted_body s @ quote_char # a = quoted_body t @ quote_char # b"
    using assms(3) by (simp add: quote_json_body)
  then have "(Inr (quoted_body s, a) :: json_error + (go_string \<times> go_string)) = Inr (quoted_body t, b)"
    unfolding scan_quoted [symmetric] by (rule arg_cong)
  then have "quoted_body s = quoted_body t" "a = b" by simp_all
  moreover from this(1) have "to_valid s = to_valid t" by (metis unquote_quoted)
  ultimately show ?thesis using assms(1,2) by (simp add: to_valid_id)
qed

end
