(* ===== verification/JsonRoundTrip.thy ===== *)
theory JsonRoundTrip
  imports JsonStrings
begin

text \<open>
  What \<open>Marshal\<close> writes for a canonical value, the parser reads back, and every value the parser
  returns is canonical: valid UTF-8 strings, number literals, objects in key order, and nesting
  within the decoder's limit.
\<close>

subsection \<open>Numbers\<close>

text \<open>What may follow a number without extending it.\<close>

definition number_end :: "go_string \<Rightarrow> bool" where
  "number_end rest \<longleftrightarrow>
     (case rest of [] \<Rightarrow> True
      | c # _ \<Rightarrow> \<not> is_digit c \<and> c \<noteq> CHR ''.'' \<and> c \<noteq> CHR ''e'' \<and> c \<noteq> CHR ''E'')"

lemma number_end_simps [simp]:
  "number_end []" "number_end (CHR '','' # r)" "number_end (CHR '']'' # r)" "number_end (CHR ''}'' # r)"
  by (simp_all add: number_end_def is_digit_def)

definition starts :: "(char \<Rightarrow> bool) \<Rightarrow> go_string \<Rightarrow> bool" where
  "starts P t \<longleftrightarrow> (case t of [] \<Rightarrow> False | c # _ \<Rightarrow> P c)"

lemma starts_simps [simp]: "\<not> starts P []" "starts P (c # cs) \<longleftrightarrow> P c"
  by (simp_all add: starts_def)

lemma starts_append: "starts P (a @ b) \<longleftrightarrow> (if a = [] then starts P b else starts P a)"
  by (cases a) auto

lemma number_end_starts:
  "number_end t \<longleftrightarrow> \<not> starts is_digit t \<and> \<not> starts (\<lambda>c. c = CHR ''.'') t
     \<and> \<not> starts (\<lambda>c. c = CHR ''e'' \<or> c = CHR ''E'') t"
  by (cases t) (auto simp: number_end_def)

lemma scan_digits_again:
  assumes "scan_digits s = Inr (d, r)" "\<not> starts is_digit t"
  shows "scan_digits (d @ t) = Inr (d, t)"
proof -
  from assms(1) obtain c cs where s: "s = c # cs" "is_digit c" and d: "d = takeWhile is_digit s"
    by (auto simp: scan_digits_def split: list.splits if_splits)
  have all: "\<forall>x \<in> set d. is_digit x" unfolding d by (auto dest: set_takeWhileD)
  obtain d' where d': "d = c # d'" using s d by simp
  have t: "takeWhile is_digit t = []" "dropWhile is_digit t = t" using assms(2) by (cases t; simp)+
  have "takeWhile is_digit (d @ t) = d" "dropWhile is_digit (d @ t) = t"
    using all t by simp_all
  with d' s(2) show ?thesis by (simp add: scan_digits_def)
qed

lemma scan_digits_starts: "scan_digits s = Inr (d, r) \<Longrightarrow> starts is_digit d"
  by (auto simp: scan_digits_def split: list.splits if_splits)

lemma scan_int_again:
  assumes "scan_int s = Inr (d, r)" "\<not> starts is_digit t"
  shows "scan_int (d @ t) = Inr (d, t)" "starts is_digit d"
proof -
  from assms(1) obtain c cs where s: "s = c # cs" by (cases s) (auto simp: scan_int_def)
  have "scan_int (d @ t) = Inr (d, t) \<and> starts is_digit d"
  proof (cases "c = CHR ''0''")
    case True
    with assms(1) s show ?thesis by (auto simp: scan_int_def is_digit_def)
  next
    case False
    with assms(1) s have d: "scan_digits s = Inr (d, r)" by (simp add: scan_int_def)
    moreover have "\<exists>ds. d = c # ds"
      using d s by (auto simp: scan_digits_def split: if_splits)
    ultimately show ?thesis
      using False scan_digits_again [OF d assms(2)] scan_digits_starts [OF d] by (auto simp: scan_int_def)
  qed
  then show "scan_int (d @ t) = Inr (d, t)" "starts is_digit d" by simp_all
qed

lemma scan_frac_again:
  assumes "scan_frac s = Inr (b, r)" "\<not> starts is_digit t" "\<not> starts (\<lambda>c. c = CHR ''.'') t"
  shows "scan_frac (b @ t) = Inr (b, t)" "b \<noteq> [] \<Longrightarrow> starts (\<lambda>c. c = CHR ''.'') b"
proof -
  have "scan_frac (b @ t) = Inr (b, t) \<and> (b \<noteq> [] \<longrightarrow> starts (\<lambda>c. c = CHR ''.'') b)"
  proof (cases "starts (\<lambda>c. c = CHR ''.'') s")
    case False
    then have "b = []" using assms(1) by (cases s) (auto simp: scan_frac_def)
    with assms(3) show ?thesis by (cases t) (auto simp: scan_frac_def)
  next
    case True
    then obtain cs where "s = CHR ''.'' # cs" by (cases s) auto
    with assms(1) obtain d where "scan_digits cs = Inr (d, r)" "b = CHR ''.'' # d"
      by (auto simp: scan_frac_def cons_raw_Inr)
    with scan_digits_again [OF this(1) assms(2)] show ?thesis by (simp add: scan_frac_def cons_raw_def)
  qed
  then show "scan_frac (b @ t) = Inr (b, t)" "b \<noteq> [] \<Longrightarrow> starts (\<lambda>c. c = CHR ''.'') b" by simp_all
qed

abbreviation exp_char :: "char \<Rightarrow> bool" where
  "exp_char c \<equiv> c = CHR ''e'' \<or> c = CHR ''E''"

lemma scan_exp_again:
  assumes "scan_exp s = Inr (e, r)" "\<not> starts is_digit t" "\<not> starts exp_char t"
  shows "scan_exp (e @ t) = Inr (e, t)" "e \<noteq> [] \<Longrightarrow> starts exp_char e"
proof -
  have "scan_exp (e @ t) = Inr (e, t) \<and> (e \<noteq> [] \<longrightarrow> starts exp_char e)"
  proof (cases "starts exp_char s")
    case False
    then have "e = []" using assms(1) by (cases s) (auto simp: scan_exp_def)
    with assms(3) show ?thesis by (cases t) (auto simp: scan_exp_def)
  next
    case True
    then obtain c cs where c: "exp_char c" and s: "s = c # cs" by (cases s) auto
    then obtain g q where cs: "cs = g # q" using assms(1) by (cases cs) (auto simp: scan_exp_def)
    show ?thesis
    proof (cases "g = CHR ''+'' \<or> g = CHR ''-''")
      case sign: True
      with assms(1) c s cs obtain d where "scan_digits q = Inr (d, r)" "e = c # g # d"
        by (auto simp: scan_exp_def cons_raw_Inr)
      with scan_digits_again [OF this(1) assms(2)] sign c show ?thesis
        by (auto simp: scan_exp_def cons_raw_def)
    next
      case False
      with assms(1) c s cs obtain d where d: "scan_digits cs = Inr (d, r)" "e = c # d"
        by (auto simp: scan_exp_def cons_raw_Inr)
      moreover obtain ds where "d = g # ds"
        using d(1) cs by (auto simp: scan_digits_def split: if_splits)
      ultimately show ?thesis
        using scan_digits_again [OF d(1) assms(2)] False c by (auto simp: scan_exp_def cons_raw_def)
    qed
  qed
  then show "scan_exp (e @ t) = Inr (e, t)" "e \<noteq> [] \<Longrightarrow> starts exp_char e" by simp_all
qed

text \<open>The sign and the three parts of a number literal.\<close>

definition split_sign :: "go_string \<Rightarrow> go_string \<times> go_string" where
  "split_sign s = (case s of c # cs \<Rightarrow> if c = CHR ''-'' then ([c], cs) else ([], s) | [] \<Rightarrow> ([], s))"

lemma scan_number_parts:
  "scan_number s = Inr (n, r) \<longleftrightarrow>
     (\<exists>a s1 b s2 e. scan_int (snd (split_sign s)) = Inr (a, s1) \<and> scan_frac s1 = Inr (b, s2)
        \<and> scan_exp s2 = Inr (e, r) \<and> n = fst (split_sign s) @ a @ b @ e)"
  by (fastforce simp: scan_number_def split_sign_def and_then_Inr split: list.split prod.split)

lemma split_sign_fst: "fst (split_sign s) = [] \<or> fst (split_sign s) = ''-''"
  by (auto simp: split_sign_def split: list.split)

lemma split_sign_append:
  assumes "sg = [] \<or> sg = ''-''" "starts is_digit u"
  shows "split_sign (sg @ u) = (sg, u)"
  using assms by (cases u) (auto simp: split_sign_def is_digit_def)

text \<open>A scanned number literal scans to itself, whatever follows that does not extend it.\<close>

lemma scan_number_again:
  assumes "scan_number s = Inr (n, r)" "number_end t"
  shows "scan_number (n @ t) = Inr (n, t)" "starts (\<lambda>c. is_digit c \<or> c = CHR ''-'') n"
proof -
  from assms(1) obtain a s1 b s2 e where p: "scan_int (snd (split_sign s)) = Inr (a, s1)"
    "scan_frac s1 = Inr (b, s2)" "scan_exp s2 = Inr (e, r)" "n = fst (split_sign s) @ a @ b @ e"
    unfolding scan_number_parts by blast
  have t: "\<not> starts is_digit t" "\<not> starts (\<lambda>c. c = CHR ''.'') t" "\<not> starts exp_char t"
    using assms(2) by (simp_all add: number_end_starts)
  note e = scan_exp_again [OF p(3) t(1,3)]
  have et: "\<not> starts is_digit (e @ t)" "\<not> starts (\<lambda>c. c = CHR ''.'') (e @ t)"
    using e(2) t(1,2) by (cases e; auto simp: starts_append is_digit_def)+
  note b = scan_frac_again [OF p(2) et]
  have bt: "\<not> starts is_digit (b @ e @ t)"
    using b(2) et(1) by (cases b) (auto simp: is_digit_def)
  note a = scan_int_again [OF p(1) bt]
  have "split_sign (n @ t) = (fst (split_sign s), a @ b @ e @ t)"
    unfolding p(4) using split_sign_append [OF split_sign_fst [of s], of "a @ b @ e @ t"] a(2)
    by (cases a) auto
  with a(1) b(1) e(1) p(4) show "scan_number (n @ t) = Inr (n, t)"
    unfolding scan_number_parts by fastforce
  show "starts (\<lambda>c. is_digit c \<or> c = CHR ''-'') n"
    using p(4) split_sign_fst [of s] a(2) by (cases a) auto
qed

subsection \<open>Canonical values\<close>

text \<open>Values at nesting depth \<open>d\<close> that print and parse back to themselves.\<close>

primrec canonical :: "json \<Rightarrow> nat \<Rightarrow> bool"
  and canonical_elems :: "json list \<Rightarrow> nat \<Rightarrow> bool"
  and canonical_members :: "(go_string \<times> json) list \<Rightarrow> nat \<Rightarrow> bool"
  and canonical_member :: "go_string \<times> json \<Rightarrow> nat \<Rightarrow> bool"
where
  "canonical JNull d \<longleftrightarrow> True"
| "canonical (JBool b) d \<longleftrightarrow> True"
| "canonical (JNumber n) d \<longleftrightarrow> scan_number n = Inr (n, [])"
| "canonical (JString s) d \<longleftrightarrow> valid_string s"
| "canonical (JArray vs) d \<longleftrightarrow> d < max_depth \<and> canonical_elems vs (Suc d)"
| "canonical (JObject kvs) d \<longleftrightarrow> d < max_depth \<and> sorted_keys kvs \<and> canonical_members kvs (Suc d)"
| "canonical_elems [] d \<longleftrightarrow> True"
| "canonical_elems (v # vs) d \<longleftrightarrow> canonical v d \<and> canonical_elems vs d"
| "canonical_members [] d \<longleftrightarrow> True"
| "canonical_members (m # ms) d \<longleftrightarrow> canonical_member m d \<and> canonical_members ms d"
| "canonical_member (k, v) d \<longleftrightarrow> valid_string k \<and> canonical v d"

text \<open>Inserting increasing keys one by one gives the list back.\<close>

lemma put_sorted_last:
  "\<forall>x \<in> set (map fst m). x < k \<Longrightarrow> put_sorted k v m = m @ [(k, v)]"
  by (induction k v m rule: put_sorted.induct) auto

lemma foldl_put_sorted:
  "sorted_keys (m @ kvs) \<Longrightarrow> foldl (\<lambda>m (k, v). put_sorted k v m) m kvs = m @ kvs"
proof (induction kvs arbitrary: m)
  case (Cons p kvs)
  obtain k v where p: "p = (k, v)" by (cases p)
  from Cons.prems have "\<forall>x \<in> set (map fst m). x < k" by (auto simp: sorted_keys_def sorted_wrt_append p)
  then have "put_sorted k v m = m @ [(k, v)]" by (rule put_sorted_last)
  with Cons.IH [of "m @ [(k, v)]"] Cons.prems p show ?case by simp
qed simp

lemma obj_of_sorted: "sorted_keys kvs \<Longrightarrow> obj_of kvs = kvs"
  using foldl_put_sorted [of "[]" kvs] by (simp add: obj_of_def)

lemma sorted_keys_obj_of: "sorted_keys (obj_of kvs)"
proof -
  have "sorted_keys m \<Longrightarrow> sorted_keys (foldl (\<lambda>m (k, v). put_sorted k v m) m kvs)" for m
    by (induction kvs arbitrary: m) (auto intro: sorted_keys_put_sorted)
  then show ?thesis by (simp add: obj_of_def sorted_keys_def)
qed

subsection \<open>Parsing what was printed\<close>

lemma not_ws_simps [simp]:
  "\<not> is_ws CHR ''{''" "\<not> is_ws CHR ''}''" "\<not> is_ws CHR ''[''" "\<not> is_ws CHR '']''" "\<not> is_ws quote_char"
  "\<not> is_ws CHR '',''" "\<not> is_ws CHR '':''" "\<not> is_ws CHR ''t''" "\<not> is_ws CHR ''f''" "\<not> is_ws CHR ''n''"
  by (simp_all add: is_ws_def)

text \<open>The first byte of a printed value is not white space and closes nothing.\<close>

definition value_start :: "char \<Rightarrow> bool" where
  "value_start c \<longleftrightarrow> c \<in> {CHR ''{'', CHR ''['', quote_char, CHR ''t'', CHR ''f'', CHR ''n'', CHR ''-''} \<or> is_digit c"

lemma value_start_not: "value_start c \<Longrightarrow> \<not> is_ws c \<and> c \<noteq> CHR '']'' \<and> c \<noteq> CHR ''}'' \<and> c \<noteq> CHR '',''"
  by (auto simp: value_start_def is_ws_def is_digit_def)

lemma marshal_start: "canonical v d \<Longrightarrow> \<exists>c cs. marshal v = c # cs \<and> value_start c"
proof (cases v)
  case (JNumber n)
  assume "canonical v d"
  with JNumber have "scan_number n = Inr (n, [])" by simp
  from scan_number_again(2) [OF this, of "[]"] JNumber show ?thesis
    by (cases n) (auto simp: value_start_def)
qed (auto simp: value_start_def quote_json_def)

lemma parse_number:
  assumes "scan_number n = Inr (n, [])" "number_end rest" "0 < f"
  shows "parse_value f d (n @ rest) = Inr (JNumber n, rest)"
proof -
  from assms(3) obtain f' where f: "f = Suc f'" by (cases f) auto
  from scan_number_again [OF assms(1,2)] obtain c cs where
    n: "n = c # cs" "is_digit c \<or> c = CHR ''-''" "scan_number (n @ rest) = Inr (n, rest)" by (cases n) auto
  have "\<not> is_ws c" "c \<notin> {CHR ''{'', CHR ''['', quote_char, CHR ''t'', CHR ''f'', CHR ''n''}"
    using n(2) by (auto simp: is_ws_def is_digit_def)
  with n show ?thesis by (simp add: f)
qed

lemma parse_string: "0 < f \<Longrightarrow> parse_value f d (quote_json s @ rest) = Inr (JString (to_valid s), rest)"
  by (cases f) (simp_all add: quote_json_body scan_quoted unquote_quoted)

lemma expect_byte_now: "\<not> is_ws w \<Longrightarrow> expect_byte w (w # s) = Inr s"
  by (simp add: expect_byte_def)

lemma parse_elems_printed:
  assumes "\<And>v f d rest. v \<in> set vs \<Longrightarrow> canonical v d \<Longrightarrow> 2 * length (marshal v @ rest) < f \<Longrightarrow> number_end rest \<Longrightarrow>
      parse_value f d (marshal v @ rest) = Inr (v, rest)"
    and "vs \<noteq> []" "canonical_elems vs d" "2 * length (marshal_elems vs @ CHR '']'' # rest) + 1 < f"
  shows "parse_elems f d (marshal_elems vs @ CHR '']'' # rest) = Inr (vs, rest)"
  using assms
proof (induction vs arbitrary: f)
  case (Cons v vs)
  from Cons.prems(4) obtain g where f: "f = Suc g" by (cases f) auto
  show ?case
  proof (cases "vs = []")
    case True
    with Cons.prems f show ?thesis by simp
  next
    case False
    let ?r = "CHR '','' # marshal_elems vs @ CHR '']'' # rest"
    have "parse_value g d (marshal v @ ?r) = Inr (v, ?r)"
      using Cons.prems f False by (intro Cons.prems(1)) auto
    moreover have "parse_elems g d (marshal_elems vs @ CHR '']'' # rest) = Inr (vs, rest)"
      using Cons.prems f False by (intro Cons.IH) auto
    ultimately show ?thesis using False by (simp add: f)
  qed
qed simp

lemma parse_members_printed:
  assumes "\<And>k v f d rest. (k, v) \<in> set ms \<Longrightarrow> canonical v d \<Longrightarrow> 2 * length (marshal v @ rest) < f \<Longrightarrow>
      number_end rest \<Longrightarrow> parse_value f d (marshal v @ rest) = Inr (v, rest)"
    and "ms \<noteq> []" "canonical_members ms d" "2 * length (marshal_members ms @ CHR ''}'' # rest) + 1 < f"
  shows "parse_members f d (marshal_members ms @ CHR ''}'' # rest) = Inr (ms, rest)"
  using assms
proof (induction ms arbitrary: f)
  case (Cons m ms)
  obtain k v where m: "m = (k, v)" by (cases m)
  from Cons.prems(4) obtain g where f: "f = Suc g" by (cases f) auto
  have k: "unquote (quoted_body k) = k"
    using Cons.prems(3) by (simp add: m unquote_quoted to_valid_id)
  show ?case
  proof (cases "ms = []")
    case True
    have "parse_value g d (marshal v @ CHR ''}'' # rest) = Inr (v, CHR ''}'' # rest)"
      using Cons.prems f True m by (intro Cons.prems(1)) (auto simp: quote_json_body)
    with True m f k show ?thesis
      by (simp add: quote_json_body expect_byte_now scan_quoted)
  next
    case False
    let ?r = "CHR '','' # marshal_members ms @ CHR ''}'' # rest"
    have "parse_value g d (marshal v @ ?r) = Inr (v, ?r)"
      using Cons.prems f False m by (intro Cons.prems(1)) (auto simp: quote_json_body)
    moreover have "parse_members g d (marshal_members ms @ CHR ''}'' # rest) = Inr (ms, rest)"
    proof (rule Cons.IH)
      show "parse_value f d (marshal v @ rest) = Inr (v, rest)"
        if "(k, v) \<in> set ms" "canonical v d" "2 * length (marshal v @ rest) < f" "number_end rest" for k v f d rest
        using that by (intro Cons.prems(1)) auto
    qed (use Cons.prems f False m in \<open>auto simp: quote_json_body\<close>)
    ultimately show ?thesis using False m f k
      by (simp add: quote_json_body expect_byte_now scan_quoted)
  qed
qed simp

lemma marshal_elems_start: "canonical_elems (v # vs) d \<Longrightarrow> \<exists>c cs. marshal_elems (v # vs) = c # cs \<and> value_start c"
  using marshal_start [of v d] by auto

lemma marshal_members_start: "ms \<noteq> [] \<Longrightarrow> \<exists>cs. marshal_members ms = quote_char # cs"
  by (cases ms) (auto simp: quote_json_def)

text \<open>The round trip.\<close>

lemma parse_printed:
  "canonical v d \<Longrightarrow> 2 * length (marshal v @ rest) < f \<Longrightarrow> number_end rest \<Longrightarrow>
     parse_value f d (marshal v @ rest) = Inr (v, rest)"
proof (induction v arbitrary: d rest f rule: json.induct)
  case JNull
  then obtain g where "f = Suc g" by (cases f) auto
  then show ?case by simp
next
  case (JBool b)
  then obtain g where "f = Suc g" by (cases f) auto
  then show ?case by (cases b) simp_all
next
  case (JNumber n)
  then show ?case using parse_number [of n rest f d] by (auto simp: scan_number_def scan_int_def)
next
  case (JString s)
  then show ?case using parse_string [of f d s rest] by (simp add: to_valid_id)
next
  case (JArray vs)
  from JArray.prems(2) obtain g where f: "f = Suc g" by (cases f) auto
  show ?case
  proof (cases vs)
    case Nil
    with JArray.prems f show ?thesis by simp
  next
    case (Cons v vs')
    then obtain c cs where c: "marshal_elems vs = c # cs" "value_start c"
      using marshal_elems_start [of v vs' "Suc d"] JArray.prems(1) by auto
    have "parse_elems g (Suc d) (marshal_elems vs @ CHR '']'' # rest) = Inr (vs, rest)"
      using JArray Cons f by (intro parse_elems_printed) auto
    with c value_start_not [OF c(2)] JArray.prems(1) f show ?thesis by simp
  qed
next
  case (JObject kvs)
  from JObject.prems(2) obtain g where f: "f = Suc g" by (cases f) auto
  show ?case
  proof (cases "kvs = []")
    case True
    with JObject.prems f show ?thesis by simp
  next
    case False
    then obtain cs where c: "marshal_members kvs = quote_char # cs" using marshal_members_start by blast
    have "parse_members g (Suc d) (marshal_members kvs @ CHR ''}'' # rest) = Inr (kvs, rest)"
      using JObject False f by (intro parse_members_printed) auto
    with c JObject.prems(1) f show ?thesis by (simp add: obj_of_sorted)
  qed
qed

end
