(* ===== verification/JsonCanonical.thy ===== *)
theory JsonCanonical
  imports JsonRoundTrip
begin

text \<open>
  What the parser returns is canonical, so printing and parsing it again changes nothing:
  decoded strings are valid UTF-8, numbers keep their literal, objects are in key order.
\<close>

subsection \<open>Decoded strings are valid\<close>

lemma chunks_rune: "rune_bytes ch r \<Longrightarrow> chunks (ch @ s) = ch # chunks s"
proof -
  assume r: "rune_bytes ch r"
  then obtain c cs where ch: "ch = c # cs" by (auto simp: rune_bytes_def)
  from rune_bytes_decode [OF r, of s] show ?thesis unfolding ch by (simp del: decode_rune.simps)
qed

lemma rune_bytes_good:
  assumes "rune_bytes ch r"
  shows "\<not> bad_chunk ch"
proof
  assume "bad_chunk ch"
  with rune_bytes_decode [OF assms, of "[]"] have r: "r = rune_error" "length ch = 1"
    by (simp_all add: bad_chunk_def del: decode_rune.simps)
  from r(2) obtain c where "ch = [c]" by (auto simp: length_Suc_conv)
  with assms have "r < 128" by (auto simp: rune_bytes_def)
  with r(1) show False by (simp add: rune_error_def)
qed

lemma valid_string_rune: "rune_bytes ch r \<Longrightarrow> valid_string (ch @ s) \<longleftrightarrow> valid_string s"
  using chunks_rune [of ch r s] rune_bytes_good [of ch r] by (simp add: valid_string_def)

lemma byte_val_of: "n < 256 \<Longrightarrow> byte_val (byte_of n) = n"
  by simp

lemma cont_tail: "y < 64 \<Longrightarrow> cont_byte (byte_of (128 + y))"
  by (simp add: in_range_def)

lemma encode_rune_shape: "\<exists>r'. rune_bytes (encode_rune r) r'"
proof -
  define q where "q = (if 1114111 < r \<or> (55296 \<le> r \<and> r \<le> 57343) then rune_error else r)"
  have q: "q \<le> 1114111" "\<not> (55296 \<le> q \<and> q \<le> 57343)" by (auto simp: q_def rune_error_def)
  have "encode_rune r = encode_rune q"
  proof (cases "1114111 < r \<or> (55296 \<le> r \<and> r \<le> 57343)")
    case True
    then show ?thesis unfolding q_def encode_rune_def Let_def by (simp add: rune_error_def)
  next
    case False
    then have "q = r" unfolding q_def by (rule if_not_P)
    then show ?thesis by simp
  qed
  also note encode_rune_plain [OF q]
  finally have e: "encode_rune r =
     (if q < 128 then [byte_of q]
      else if q < 2048 then [byte_of (192 + q div 64), byte_of (128 + q mod 64)]
      else if q < 65536 then
        [byte_of (224 + q div 4096), byte_of (128 + q div 64 mod 64), byte_of (128 + q mod 64)]
      else
        [byte_of (240 + q div 262144), byte_of (128 + q div 4096 mod 64),
         byte_of (128 + q div 64 mod 64), byte_of (128 + q mod 64)])" .
  consider "q < 128" | "128 \<le> q" "q < 2048" | "2048 \<le> q" "q < 65536" | "65536 \<le> q" by linarith
  then show ?thesis
  proof cases
    case 1
    then show ?thesis by (simp add: e rune_bytes_def)
  next
    case 2
    have "2 \<le> q div 64" using 2(1) div_le_mono [of 128 q 64] by simp
    moreover have "q div 64 < 32" using 2(2) by (simp add: div_less_iff_less_mult)
    ultimately have "194 \<le> 192 + q div 64" "192 + q div 64 < 224" by linarith+
    with 2 show ?thesis by (simp add: e rune_bytes_def cont_tail)
  next
    case 3
    then have d: "q div 4096 < 16" by (simp add: div_less_iff_less_mult)
    let ?a = "q div 64"
    have a: "q div 4096 = ?a div 64" by (simp add: div_mult2_eq [symmetric])
    have eq: "q = ?a * 64 + q mod 64" "?a = q div 4096 * 64 + ?a mod 64" unfolding a by simp_all
    have lt: "q mod 64 < 64" "?a mod 64 < 64" by simp_all
    have lo: "32 \<le> ?a mod 64" if "q div 4096 = 0" using that eq lt 3(1) by linarith
    have hi: "?a mod 64 \<le> 31" if "q div 4096 = 13" using that eq lt q(2) by linarith
    have "in_range (second_lo (224 + q div 4096)) (second_hi (224 + q div 4096)) (byte_of (128 + q div 64 mod 64))"
      using lo hi d by (auto simp: in_range_def second_lo_def second_hi_def)
    with 3 d show ?thesis by (simp add: e rune_bytes_def cont_tail)
  next
    case 4
    have d: "q div 262144 \<le> 4" using q(1) div_le_mono [of q 1114111 262144] by simp
    let ?b = "q div 4096"
    have b: "q div 262144 = ?b div 64" by (simp add: div_mult2_eq [symmetric])
    have eq: "q = ?b * 4096 + q mod 4096" "?b = q div 262144 * 64 + ?b mod 64" unfolding b by simp_all
    have lt: "q mod 4096 < 4096" "?b mod 64 < 64" by simp_all
    have lo: "16 \<le> ?b mod 64" if "q div 262144 = 0" using that eq lt 4 by linarith
    have hi: "?b mod 64 \<le> 15" if "q div 262144 = 4" using that eq lt q(1) by linarith
    have "in_range (second_lo (240 + q div 262144)) (second_hi (240 + q div 262144)) (byte_of (128 + q div 4096 mod 64))"
      using lo hi d by (auto simp: in_range_def second_lo_def second_hi_def)
    with 4 d show ?thesis by (simp add: e rune_bytes_def cont_tail)
  qed
qed

lemma valid_encode: "valid_string (encode_rune r @ s) \<longleftrightarrow> valid_string s"
  using encode_rune_shape [of r] valid_string_rune by blast

text \<open>Well-escaped text: what stands between the quotes of a literal.\<close>

definition escaped :: "go_string \<Rightarrow> bool" where
  "escaped raw \<longleftrightarrow> scan_string (raw @ [quote_char]) = Inr (raw, [])"

lemma scan_string_safe: "scan_string s = Inr (raw, r) \<Longrightarrow> scan_safe raw"
proof (induction s arbitrary: raw r rule: scan_string.induct)
  case (2 c cs)
  note IH = "2.IH" and prem = "2.prems"
  consider (Q) "c = quote_char" | (B) "c = backslash" "c \<noteq> quote_char"
    | (O) "c \<noteq> quote_char" "c \<noteq> backslash" by blast
  then show ?case
  proof cases
    case Q
    with prem show ?thesis by (simp add: scan_safe_def)
  next
    case O
    with prem obtain raw' where p: "scan_string cs = Inr (raw', r)" "raw = [c] @ raw'" "\<not> byte_val c < 32"
      by (auto simp: cons_raw_Inr split: if_splits)
    have "scan_safe [c]" using O p(3) by (intro scan_safe_plain) auto
    with IH(3) [OF O p(3,1)] show ?thesis unfolding p(2) by (intro scan_safe_append)
  next
    case B
    then obtain e q where cs: "cs = e # q" using prem by (cases cs) auto
    show ?thesis
    proof (cases "e = CHR ''u''")
      case True
      with prem B cs obtain h1 h2 h3 h4 q' raw'
        where p: "q = h1 # h2 # h3 # h4 # q'" "list_all is_hex [h1, h2, h3, h4]" "scan_string q' = Inr (raw', r)"
          "raw = [c, e, h1, h2, h3, h4] @ raw'"
        by (auto simp: cons_raw_Inr split: list.splits if_splits)
      have "scan_safe [c, e, h1, h2, h3, h4]" using scan_safe_u [OF p(2)] True B by simp
      with IH(1) [OF B(2,1) cs True p(1) refl refl refl p(2,3)] show ?thesis
        unfolding p(4) by (intro scan_safe_append)
    next
      case False
      with prem B cs obtain raw' where p: "is_simple_escape e" "scan_string q = Inr (raw', r)" "raw = [c, e] @ raw'"
        by (auto simp: cons_raw_Inr split: if_splits)
      have "scan_safe [c, e]" using scan_safe_escape [OF p(1)] B by simp
      with IH(2) [OF B(2,1) cs False p(1,2)] show ?thesis unfolding p(3) by (intro scan_safe_append)
    qed
  qed
qed simp

lemma scan_string_escaped: "scan_string s = Inr (raw, r) \<Longrightarrow> escaped raw"
  using scan_string_safe [of s raw r] by (simp add: scan_safe_def escaped_def cons_raw_def)

lemma number_literal_self: "scan_number s = Inr (n, r) \<Longrightarrow> scan_number n = Inr (n, [])"
  using scan_number_again(1) [of s n r "[]"] by simp

lemma escaped_plain:
  assumes "escaped (c # cs)" "c \<noteq> backslash"
  shows "escaped cs" "c \<noteq> quote_char"
proof -
  have q: "c \<noteq> quote_char" using assms(1) by (auto simp: escaped_def)
  with assms show "escaped cs" by (auto simp: escaped_def cons_raw_Inr split: if_splits)
  from q show "c \<noteq> quote_char" .
qed

lemma escaped_backslash:
  assumes "escaped (backslash # cs)"
  obtains e r where "cs = e # r" "is_simple_escape e" "e \<noteq> CHR ''u''" "escaped r"
  | h1 h2 h3 h4 r where "cs = CHR ''u'' # h1 # h2 # h3 # h4 # r" "escaped r"
proof -
  from assms obtain e r where cs: "cs = e # r"
    by (cases cs) (auto simp: escaped_def is_simple_escape_def cons_raw_Inr split: if_splits)
  show thesis
  proof (cases "e = CHR ''u''")
    case True
    with assms cs have "\<exists>h1 h2 h3 h4 r'. r @ [quote_char] = h1 # h2 # h3 # h4 # r' \<and> list_all is_hex [h1, h2, h3, h4]
        \<and> scan_string r' = Inr (drop 4 r, [])"
      by (auto simp: escaped_def cons_raw_Inr split: list.splits if_splits)
    then obtain h1 h2 h3 h4 r' where h: "r @ [quote_char] = h1 # h2 # h3 # h4 # r'"
      "list_all is_hex [h1, h2, h3, h4]" "scan_string r' = Inr (drop 4 r, [])" by blast
    have nq: "\<not> is_hex quote_char" by (simp add: is_hex_def is_digit_def)
    have "4 \<le> length r"
    proof (rule ccontr)
      assume "\<not> 4 \<le> length r"
      then consider "r = []" | a where "r = [a]" | a b where "r = [a, b]" | a b d where "r = [a, b, d]"
        by (cases r rule: list.exhaust; cases "tl r"; cases "tl (tl r)"; cases "tl (tl (tl r))") (auto split: list.splits)
      then show False using h(1,2) nq by cases auto
    qed
    then have "r = h1 # h2 # h3 # h4 # drop 4 r" "r' = drop 4 r @ [quote_char]"
      using h(1) by (cases r; cases "tl r"; cases "tl (tl r)"; cases "tl (tl (tl r))"; auto)+
    with h(3) show thesis using that(2) cs True by (metis escaped_def)
  next
    case False
    with assms cs have "is_simple_escape e" "escaped r"
      by (auto simp: escaped_def cons_raw_Inr split: if_splits)
    with that(1) cs False show thesis by blast
  qed
qed

lemma escaped_drop:
  "escaped s \<Longrightarrow> backslash \<notin> set (take n s) \<Longrightarrow> escaped (drop n s)"
proof (induction n arbitrary: s)
  case (Suc n)
  show ?case
  proof (cases s)
    case (Cons c cs)
    with Suc.prems have "escaped cs" using escaped_plain(1) by auto
    with Suc Cons show ?thesis by simp
  qed (use Suc in simp)
qed simp

lemma group_no_backslash:
  assumes "c \<noteq> backslash" "decode_rune (c # cs) = (r, n)"
  shows "backslash \<notin> set (take n (c # cs))"
proof (cases "(r, n) = (rune_error, 1)")
  case True
  with assms show ?thesis by (simp del: decode_rune.simps)
next
  case False
  with decode_rune_shape [of "c # cs"] assms(2) have b: "rune_bytes (take n (c # cs)) r"
    by (simp del: decode_rune.simps)
  show ?thesis
  proof (cases "1 < length (take n (c # cs))")
    case True
    from rune_bytes_tail [OF b True] show ?thesis by fastforce
  next
    case le: False
    then have "set (take n (c # cs)) \<subseteq> {c}" by (cases n) (auto simp: take_Cons split: nat.splits)
    with assms(1) show ?thesis by auto
  qed
qed

lemma simple_escape_ascii: "is_simple_escape e \<Longrightarrow> byte_val (unescape e) < 128"
  unfolding is_simple_escape_def by (elim insertE emptyE; simp add: unescape_def)

lemma escaped_pair:
  assumes "escaped s" "utf16_pair r1 s = Some d"
  shows "escaped (drop 6 s)"
proof -
  from assms(2) have p: "take 2 s = [backslash, CHR ''u'']"
    by (auto simp: utf16_pair_def Let_def split: if_splits)
  then obtain cs where s: "s = backslash # CHR ''u'' # cs"
    by (cases s; cases "tl s") auto
  from assms(1) show ?thesis unfolding s
    by (rule escaped_backslash) (auto simp: is_simple_escape_def)
qed

lemma escaped_read_u:
  assumes "escaped r" 
  shows "escaped (snd (read_u (h1 # h2 # h3 # h4 # r)))"
  using assms escaped_pair [OF assms] by (auto simp: read_u_def Let_def split: option.split)

lemma valid_unquote: "escaped raw \<Longrightarrow> valid_string (unquote raw)"
proof (induction raw rule: unquote.induct)
  case (2 c cs)
  show ?case
  proof (cases "c = backslash")
    case True
    with "2.prems" have "escaped (backslash # cs)" by simp
    then show ?thesis
    proof (cases rule: escaped_backslash)
      case (1 e r)
      from "2.IH"(2) [OF True 1(1,3,4)] have "valid_string (unquote r)" .
      moreover have "rune_bytes [unescape e] (byte_val (unescape e))"
        using simple_escape_ascii [OF 1(2)] by (simp add: rune_bytes_def)
      ultimately show ?thesis using True 1 valid_string_rune [of "[unescape e]" _ "unquote r"] by simp
    next
      case (2 h1 h2 h3 h4 r)
      let ?r = "h1 # h2 # h3 # h4 # r"
      from "2.IH"(1) [OF True 2(1) refl escaped_read_u [OF 2(2)]]
      show ?thesis using True 2(1) by (simp add: valid_encode)
    qed
  next
    case False
    obtain r n where d: "decode_rune (c # cs) = (r, n)" by fastforce
    from escaped_drop [OF "2.prems"] group_no_backslash [OF False d]
    have "escaped (drop n (c # cs))" by blast
    with "2.IH"(3) [OF False] d have "valid_string (unquote (drop n (c # cs)))" by (simp del: decode_rune.simps)
    with False d show ?thesis by (simp add: valid_encode del: decode_rune.simps)
  qed
qed (simp add: valid_string_def)

subsection \<open>Parsed values are canonical\<close>

lemma canonical_members_iff: "canonical_members ms d \<longleftrightarrow> (\<forall>(k, v) \<in> set ms. valid_string k \<and> canonical v d)"
  by (induction ms) auto

lemma set_put_sorted: "set (put_sorted k v m) \<subseteq> insert (k, v) (set m)"
  by (induction k v m rule: put_sorted.induct) auto

lemma set_obj_of: "set (obj_of kvs) \<subseteq> set kvs"
proof -
  have "set (foldl (\<lambda>m (k, v). put_sorted k v m) m kvs) \<subseteq> set m \<union> set kvs" for m
  proof (induction kvs arbitrary: m)
    case (Cons p kvs)
    obtain k v where p: "p = (k, v)" by (cases p)
    from Cons [of "put_sorted k v m"] set_put_sorted [of k v m] show ?case by (auto simp: p)
  qed simp
  from this [of "[]"] show ?thesis by (simp add: obj_of_def)
qed

lemma canonical_obj_of: "canonical_members kvs d \<Longrightarrow> canonical_members (obj_of kvs) d"
  using set_obj_of [of kvs] unfolding canonical_members_iff by blast

lemma parse_canonical:
  shows parse_value_canonical: "parse_value f d s = Inr (v, r) \<Longrightarrow> canonical v d"
    and parse_elems_canonical: "parse_elems f d s = Inr (vs, r) \<Longrightarrow> canonical_elems vs d"
    and parse_members_canonical: "parse_members f d s = Inr (kvs, r) \<Longrightarrow> canonical_members kvs d"
proof (induction f d s and f d s and f d s arbitrary: v r and vs r and kvs r
    rule: parse_value_parse_elems_parse_members.induct)
  case (2 f d s)
  from "2.prems" obtain c cs where s: "skip_ws s = c # cs" by (cases "skip_ws s") auto
  consider "c = CHR ''{''" | "c = CHR ''[''" | "c \<noteq> CHR ''{''" "c \<noteq> CHR ''[''" by blast
  then show ?case
  proof cases
    case 1
    with "2.prems" s obtain x q where x: "skip_ws cs = x # q" and max: "\<not> max_depth \<le> d"
      by (auto split: if_splits list.splits)
    show ?thesis
    proof (cases "x = CHR ''}''")
      case True
      with "2.prems" s x max 1 show ?thesis by (auto simp: sorted_keys_def)
    next
      case False
      with "2.prems" s x max 1 obtain kvs where kvs: "parse_members f (Suc d) (x # q) = Inr (kvs, r)"
        "v = JObject (obj_of kvs)" by (auto simp: and_then_Inr)
      with "2.IH"(1) [OF s 1 max x False kvs(1)] max show ?thesis
        by (simp add: sorted_keys_obj_of canonical_obj_of)
    qed
  next
    case 2
    with "2.prems" s obtain x q where x: "skip_ws cs = x # q" and max: "\<not> max_depth \<le> d"
      by (auto split: if_splits list.splits)
    have ne: "c \<noteq> CHR ''{''" using 2 by simp
    show ?thesis
    proof (cases "x = CHR '']''")
      case True
      with "2.prems" s x max 2 show ?thesis by auto
    next
      case False
      with "2.prems" s x max 2 obtain vs where vs: "parse_elems f (Suc d) (x # q) = Inr (vs, r)" "v = JArray vs"
        by (auto simp: and_then_Inr)
      with "2.IH"(2) [OF s ne 2 max x False vs(1)] max show ?thesis by simp
    qed
  next
    case ne: 3
    consider (str) "c = quote_char" | (word) "c = CHR ''t'' \<or> c = CHR ''f'' \<or> c = CHR ''n''"
      | (num) "c \<noteq> quote_char" "c \<noteq> CHR ''t''" "c \<noteq> CHR ''f''" "c \<noteq> CHR ''n''" by blast
    then show ?thesis
    proof cases
      case str
      with "2.prems" s obtain raw where "scan_string cs = Inr (raw, r)" "v = JString (unquote raw)"
        by (auto simp: and_then_Inr)
      then show ?thesis by (simp add: valid_unquote scan_string_escaped)
    next
      case word
      with "2.prems" s ne show ?thesis by (elim disjE) (auto simp: and_then_Inr)
    next
      case num
      have "\<exists>n. scan_number (c # cs) = Inr (n, r) \<and> v = JNumber n"
        using "2.prems" num ne s by (simp add: and_then_Inr) blast
      then show ?thesis by (auto dest: number_literal_self)
    qed
  qed
next
  case (4 f d s)
  from "4.prems" obtain v s1 where v: "parse_value f d s = Inr (v, s1)"
    by (auto simp: and_then_Inr)
  with "4.IH"(1) have "canonical v d" by blast
  with 4 v show ?case
    by (fastforce simp: and_then_Inr split: if_splits list.splits)
next
  case (6 f d s)
  from "6.prems" obtain s1 raw s2 s3 v s4
    where eqs: "expect_byte quote_char s = Inr s1" "scan_string s1 = Inr (raw, s2)"
      "expect_byte CHR '':'' s2 = Inr s3" "parse_value f d s3 = Inr (v, s4)"
    by (auto simp: and_then_Inr)
  with "6.IH"(1) have "canonical v d" by blast
  moreover have "valid_string (unquote raw)" using eqs(2) by (intro valid_unquote scan_string_escaped)
  ultimately show ?case
    using 6 eqs by (fastforce simp: and_then_Inr split: if_splits list.splits)
qed auto

end
