(* ===== verification/JsonCompact.thy ===== *)
theory JsonCompact
  imports JsonCanonical
begin

text \<open>
  Printed canonical values are compact: embedding one as a \<open>json.RawMessage\<close> copies its bytes.
  The lemmas follow the printer; \<open>kept m p m'\<close> says that compaction copies \<open>p\<close> from mode
  \<open>m\<close> to mode \<open>m'\<close>, whatever follows.
\<close>

definition kept :: "compact_mode \<Rightarrow> go_string \<Rightarrow> compact_mode \<Rightarrow> bool" where
  "kept m p m' \<longleftrightarrow> (\<forall>rest. compact_bytes m (p @ rest) = p @ compact_bytes m' rest)"

lemma kept_Nil: "kept m [] m"
  by (simp add: kept_def)

lemma kept_append: "kept m p m' \<Longrightarrow> kept m' q m'' \<Longrightarrow> kept m (p @ q) m''"
  by (simp add: kept_def)

lemma kept_concat: "\<forall>p \<in> set ps. kept m p m \<Longrightarrow> kept m (concat ps) m"
  by (induction ps) (auto simp: kept_Nil intro: kept_append)

lemma compact_step: "c \<noteq> CHR 0xE2 \<Longrightarrow> compact_bytes m (c # cs) = compact_byte m c @ compact_bytes (next_mode m c) cs"
  by (cases cs; cases "tl cs") auto

definition html_char :: "char \<Rightarrow> bool" where
  "html_char c \<longleftrightarrow> c = CHR ''<'' \<or> c = CHR ''>'' \<or> c = CHR ''&''"

lemma kept_byte:
  assumes "c \<noteq> CHR 0xE2" "\<not> html_char c" "m = Outside \<Longrightarrow> \<not> is_ws c"
  shows "kept m [c] (next_mode m c)"
  using assms by (auto simp: kept_def compact_step compact_byte_def html_char_def)

lemma kept_bytes:
  assumes "\<And>c. c \<in> set p \<Longrightarrow> c \<noteq> CHR 0xE2 \<and> \<not> html_char c \<and> next_mode m c = m \<and> (m = Outside \<longrightarrow> \<not> is_ws c)"
  shows "kept m p m"
  using assms
proof (induction p)
  case (Cons c p)
  have "kept m [c] (next_mode m c)" using Cons.prems [of c] by (intro kept_byte) auto
  then have "kept m [c] m" using Cons.prems [of c] by simp
  from kept_append [OF this, of p m] Cons show ?case by simp
qed (simp add: kept_Nil)

text \<open>Inside a string.\<close>

lemma ascii_not_E2 [simp]: "byte_val c < 128 \<Longrightarrow> c \<noteq> CHR 0xE2"
  by auto

lemma kept_escape:
  assumes "byte_val e < 128" "\<not> html_char e"
  shows "kept InString [backslash, e] InString"
proof -
  have "kept InString [backslash] AfterBackslash"
    using kept_byte [of backslash InString] by (simp add: html_char_def next_mode_def)
  moreover have "kept AfterBackslash [e] InString"
    using kept_byte [of e AfterBackslash] assms by (auto simp: next_mode_def)
  ultimately show ?thesis using kept_append by fastforce
qed

lemma hex_digit_plain: "n < 16 \<Longrightarrow> byte_val (hex_digit n) < 128 \<and> \<not> html_char (hex_digit n)
    \<and> hex_digit n \<noteq> quote_char \<and> hex_digit n \<noteq> backslash"
  by (drule less_16_cases) (elim insertE emptyE; simp add: html_char_def)

lemma kept_plain:
  assumes "\<And>c. c \<in> set p \<Longrightarrow> byte_val c < 128 \<and> \<not> html_char c \<and> c \<noteq> quote_char \<and> c \<noteq> backslash"
  shows "kept InString p InString"
  by (rule kept_bytes) (use assms ascii_not_E2 in \<open>fastforce simp: next_mode_def\<close>)

lemma kept_u:
  assumes "\<And>c. c \<in> set h \<Longrightarrow> byte_val c < 128 \<and> \<not> html_char c \<and> c \<noteq> quote_char \<and> c \<noteq> backslash"
  shows "kept InString (backslash # CHR ''u'' # h) InString"
  using kept_append [OF kept_escape [of "CHR ''u''"] kept_plain [OF assms]]
  by (simp add: html_char_def)

lemma kept_quote_ascii:
  assumes "byte_val c < 128"
  shows "kept InString (quote_ascii c) InString"
proof -
  have d: "byte_val c div 16 < 16" "byte_val c mod 16 < 16"
    using byte_lt_256 [of c] by (simp_all add: div_less_iff_less_mult)
  consider (same) "c = quote_char \<or> c = backslash"
    | (letter) "c \<in> {CHR 0x08, CHR 0x0C, CHR 0x0A, CHR 0x0D, CHR 0x09}"
    | (other) "c \<noteq> quote_char" "c \<noteq> backslash" "c \<notin> {CHR 0x08, CHR 0x0C, CHR 0x0A, CHR 0x0D, CHR 0x09}"
    by blast
  then show ?thesis
  proof cases
    case same
    with assms kept_escape [of c] show ?thesis by (auto simp: quote_ascii_def html_char_def)
  next
    case letter
    then show ?thesis
      by (elim insertE emptyE) (simp_all add: quote_ascii_def kept_escape html_char_def)
  next
    case other
    show ?thesis
    proof (cases "byte_val c < 32 \<or> html_char c")
      case True
      with other have "quote_ascii c = backslash # CHR ''u'' # CHR ''0'' # CHR ''0'' # hex_byte (byte_val c)"
        by (simp add: quote_ascii_def html_char_def)
      moreover have "kept InString (backslash # CHR ''u'' # CHR ''0'' # CHR ''0'' # hex_byte (byte_val c)) InString"
        by (rule kept_u) (use hex_digit_plain [OF d(1)] hex_digit_plain [OF d(2)] in
            \<open>auto simp: hex_byte_def html_char_def\<close>)
      ultimately show ?thesis by simp
    next
      case False
      with other have "quote_ascii c = [c]" by (simp add: quote_ascii_def html_char_def)
      with False other assms show ?thesis by (auto intro: kept_plain)
    qed
  qed
qed

lemma byte_E2: "c = CHR 0xE2 \<longleftrightarrow> byte_val c = 226"
  by (auto simp: byte_of_eqI dest: byte_of_eqI [of 226 c, OF sym])

lemma kept_high:
  assumes "\<And>c. c \<in> set p \<Longrightarrow> 128 \<le> byte_val c \<and> c \<noteq> CHR 0xE2"
  shows "kept InString p InString"
  by (rule kept_bytes) (use assms in \<open>fastforce simp: next_mode_def html_char_def\<close>)

text \<open>A group of several bytes that is not one of the two separators is copied.\<close>

lemma cont_not_E2: "cont_byte c \<Longrightarrow> c \<noteq> CHR 0xE2"
  by (auto simp: in_range_def)

lemma kept_E2:
  assumes "cont_byte c1" "cont_byte c2" "\<not> (c1 = CHR 0x80 \<and> (c2 = CHR 0xA8 \<or> c2 = CHR 0xA9))"
  shows "kept InString [CHR 0xE2, c1, c2] InString"
proof -
  have "kept InString [c1, c2] InString"
    by (rule kept_high) (use assms(1,2) cont_not_E2 in \<open>auto simp: in_range_def\<close>)
  with assms(3) show ?thesis by (auto simp: kept_def compact_byte_def next_mode_def)
qed

lemma kept_chunk:
  assumes r: "rune_bytes ch r"
  shows "kept InString (quote_chunk ch) InString"
proof (cases "length ch = 1")
  case True
  then obtain c where ch: "ch = [c]" by (auto simp: length_Suc_conv)
  with rune_bytes_one [of c r] r have "byte_val c < 128" by simp
  with kept_quote_ascii [of c] rune_bytes_good [OF r] ch show ?thesis by (simp add: quote_chunk_def)
next
  case long: False
  have d: "decode_rune ch = (r, length ch)" using rune_bytes_decode [OF r, of "[]"] by simp
  show ?thesis
  proof (cases "r = 8232 \<or> r = 8233")
    case True
    then have "quote_chunk ch = backslash # CHR ''u'' # ''2028'' \<or> quote_chunk ch = backslash # CHR ''u'' # ''2029''"
      using long d rune_bytes_good [OF r] by (auto simp: quote_chunk_def)
    moreover have "kept InString (backslash # CHR ''u'' # ''2028'') InString"
      "kept InString (backslash # CHR ''u'' # ''2029'') InString"
      by (rule kept_u; auto simp: html_char_def)+
    ultimately show ?thesis by metis
  next
    case False
    then have q: "quote_chunk ch = ch"
      using long d rune_bytes_good [OF r] by (auto simp: quote_chunk_def)
    show ?thesis
    proof (cases "CHR 0xE2 \<in> set ch")
      case out: False
      have "1 < length ch" using long r by (auto simp: rune_bytes_def)
      from rune_bytes_tail [OF r this] out show ?thesis unfolding q by (intro kept_high) auto
    next
      case E2: True
      with r long have "\<exists>c1 c2. ch = [CHR 0xE2, c1, c2] \<and> cont_byte c1 \<and> cont_byte c2
          \<and> r = 8192 + payload6 c1 * 64 + payload6 c2"
        by (auto simp: rune_bytes_def in_range_def second_lo_def second_hi_def byte_E2
            split: if_splits)
      then obtain c1 c2 where ch: "ch = [CHR 0xE2, c1, c2]" "cont_byte c1" "cont_byte c2"
        "r = 8192 + payload6 c1 * 64 + payload6 c2" by blast
      with False have "\<not> (c1 = CHR 0x80 \<and> (c2 = CHR 0xA8 \<or> c2 = CHR 0xA9))"
        by (auto simp: payload6_def)
      with ch show ?thesis unfolding q by (simp add: kept_E2)
    qed
  qed
qed

lemma kept_bad_chunk: "bad_chunk ch \<Longrightarrow> kept InString (quote_chunk ch) InString"
proof -
  assume "bad_chunk ch"
  then have q: "quote_chunk ch = backslash # CHR ''u'' # ''fffd''" by (simp add: quote_chunk_def)
  show ?thesis unfolding q by (rule kept_u) (auto simp: html_char_def)
qed

lemma kept_quote_json: "kept Outside (quote_json s) Outside"
proof -
  have "\<forall>p \<in> set (map quote_chunk (chunks s)). kept InString p InString"
    using kept_chunk kept_bad_chunk chunk_good by fastforce
  then have body: "kept InString (quoted_body s) InString"
    unfolding quoted_body_def by (rule kept_concat)
  have "kept Outside [quote_char] InString" "kept InString [quote_char] Outside"
    using kept_byte [of quote_char Outside] kept_byte [of quote_char InString]
    by (simp_all add: html_char_def next_mode_def)
  from kept_append [OF kept_append [OF this(1) body] this(2)] show ?thesis
    by (simp add: quote_json_body)
qed

subsection \<open>Numbers\<close>

definition number_char :: "char \<Rightarrow> bool" where
  "number_char c \<longleftrightarrow> is_digit c \<or> c = CHR ''-'' \<or> c = CHR ''+'' \<or> c = CHR ''.'' \<or> c = CHR ''e'' \<or> c = CHR ''E''"

lemma scan_digits_chars: "scan_digits s = Inr (n, r) \<Longrightarrow> \<forall>c \<in> set n. number_char c"
  by (auto simp: scan_digits_def number_char_def split: list.splits if_splits dest: set_takeWhileD)

lemma scan_int_chars: "scan_int s = Inr (n, r) \<Longrightarrow> \<forall>c \<in> set n. number_char c"
  by (auto simp: scan_int_def number_char_def is_digit_def split: list.splits if_splits dest!: scan_digits_chars)

lemma scan_frac_chars: "scan_frac s = Inr (n, r) \<Longrightarrow> \<forall>c \<in> set n. number_char c"
  by (auto simp: scan_frac_def cons_raw_Inr split: list.splits if_splits dest!: scan_digits_chars)
     (simp add: number_char_def)

lemma scan_exp_chars: "scan_exp s = Inr (n, r) \<Longrightarrow> \<forall>c \<in> set n. number_char c"
  by (auto simp: scan_exp_def cons_raw_Inr split: list.splits if_splits dest!: scan_digits_chars)
     (simp_all add: number_char_def)

lemma scan_number_chars: "scan_number s = Inr (n, r) \<Longrightarrow> \<forall>c \<in> set n. number_char c"
  unfolding scan_number_parts
  using split_sign_fst [of s] scan_int_chars scan_frac_chars scan_exp_chars
  by (fastforce simp: number_char_def)

lemma kept_outside:
  assumes "\<And>c. c \<in> set p \<Longrightarrow> byte_val c < 128 \<and> \<not> html_char c \<and> c \<noteq> quote_char \<and> \<not> is_ws c"
  shows "kept Outside p Outside"
  by (rule kept_bytes) (use assms ascii_not_E2 in \<open>fastforce simp: next_mode_def\<close>)

lemma number_char_plain: "number_char c \<Longrightarrow> byte_val c < 128 \<and> \<not> html_char c \<and> c \<noteq> quote_char \<and> \<not> is_ws c"
  by (auto simp: number_char_def is_digit_def html_char_def is_ws_def)

subsection \<open>Values\<close>

lemmas kept_intros = kept_append [of Outside _ Outside _ Outside] kept_quote_json kept_Nil

lemma kept_punct:
  "kept Outside ''{'' Outside" "kept Outside ''}'' Outside" "kept Outside ''['' Outside"
  "kept Outside '']'' Outside" "kept Outside '','' Outside" "kept Outside '':'' Outside"
  "kept Outside ''null'' Outside" "kept Outside ''true'' Outside" "kept Outside ''false'' Outside"
  by (rule kept_outside; auto simp: html_char_def is_ws_def)+

lemma kept_elems:
  "\<forall>v \<in> set vs. kept Outside (marshal v) Outside \<Longrightarrow> kept Outside (marshal_elems vs) Outside"
  by (induction vs) (auto simp del: append.simps intro!: kept_intros kept_punct)

lemma kept_members:
  "\<forall>(k, v) \<in> set ms. kept Outside (marshal v) Outside \<Longrightarrow> kept Outside (marshal_members ms) Outside"
  by (induction ms) (auto simp del: append.simps intro!: kept_intros kept_punct)

lemma kept_marshal: "marshal_ok v \<Longrightarrow> kept Outside (marshal v) Outside"
proof (induction v rule: json.induct)
  case (JNumber n)
  have "kept Outside n Outside" if "scan_number n = Inr (n, [])"
    using scan_number_chars [OF that] number_char_plain by (intro kept_outside) blast
  moreover have "kept Outside ''0'' Outside"
    by (rule kept_outside) (auto simp: html_char_def is_ws_def)
  ultimately show ?case using JNumber by (auto simp: valid_number_def)
next
  case (JArray vs)
  then have "kept Outside (marshal_elems vs) Outside" by (intro kept_elems) (auto simp: list_all_iff)
  then show ?case by (auto simp del: append.simps intro!: kept_intros kept_punct)
next
  case (JObject ms)
  then have "kept Outside (marshal_members ms) Outside"
    by (intro kept_members) (fastforce simp: list_all_iff)
  then show ?case by (auto simp del: append.simps intro!: kept_intros kept_punct)
qed (auto intro: kept_punct kept_quote_json)

lemma compact_marshal: "marshal_ok v \<Longrightarrow> compact_bytes Outside (marshal v) = marshal v"
  using kept_marshal [of v] unfolding kept_def by (metis append_Nil2 compact_bytes.simps(4))

end
