(* ===== verification/JsonPrefix.thy ===== *)
theory JsonPrefix
  imports JsonCompact
begin

text \<open>
  The parser looks at nothing beyond the value it returns, so the bytes that \<open>Decode\<close> cuts out
  of its buffer parse to the same value, and printed values can be told apart inside a text.
\<close>

lemma skip_ws_parts:
  assumes "skip_ws s = x # q"
  shows "\<exists>w. s = w @ x # q \<and> (\<forall>t. skip_ws (w @ x # t) = x # t)"
proof -
  have "\<not> is_ws x" using assms unfolding skip_ws_def by (metis hd_dropWhile list.distinct(1) list.sel(1))
  then have "skip_ws (takeWhile is_ws s @ x # t) = x # t" for t
    unfolding skip_ws_def by (intro dropWhile_append_stop) (auto dest: set_takeWhileD)
  moreover have "s = takeWhile is_ws s @ x # q"
    using assms unfolding skip_ws_def by (metis takeWhile_dropWhile_id)
  ultimately show ?thesis by blast
qed

lemma expect_word_self: "expect_word w (w @ t) = Inr t"
  by (induction w) auto

lemma expect_byte_parts:
  assumes "expect_byte b s = Inr r"
  shows "\<exists>w. s = w @ r \<and> (\<forall>t. expect_byte b (w @ t) = Inr t)"
proof -
  from assms have "skip_ws s = b # r" by (auto simp: expect_byte_def dest: expect_word_split)
  from skip_ws_parts [OF this] obtain w where w: "s = w @ b # r" "\<forall>t. skip_ws (w @ b # t) = b # t" by blast
  from w(2) have "\<forall>t. expect_byte b ((w @ [b]) @ t) = Inr t"
    by (simp add: expect_byte_def)
  moreover have "s = (w @ [b]) @ r" using w(1) by simp
  ultimately show ?thesis by blast
qed

lemma scan_string_parts:
  assumes "scan_string s = Inr (raw, r)"
  shows "s = (raw @ [quote_char]) @ r \<and> (\<forall>t. scan_string ((raw @ [quote_char]) @ t) = Inr (raw, t))"
  using scan_string_split [OF assms] scan_string_safe [OF assms]
  by (simp add: scan_safe_def cons_raw_def)

lemma number_end_ws: "skip_ws s = x # q \<Longrightarrow> number_end (x # q) \<Longrightarrow> number_end s"
  by (cases s) (auto simp: skip_ws_def number_end_def is_ws_def is_digit_def split: if_splits)

lemma number_end_punct: "skip_ws s = x # q \<Longrightarrow> x = CHR '','' \<or> x = CHR '']'' \<or> x = CHR ''}'' \<Longrightarrow> number_end s"
  by (erule number_end_ws) auto

lemma parse_prefix:
  shows parse_value_prefix: "parse_value f d s = Inr (v, r) \<Longrightarrow>
      \<exists>p. s = p @ r \<and> (\<forall>t. number_end t \<longrightarrow> parse_value f d (p @ t) = Inr (v, t))"
    and parse_elems_prefix: "parse_elems f d s = Inr (vs, r) \<Longrightarrow>
      \<exists>p. s = p @ r \<and> (\<forall>t. parse_elems f d (p @ t) = Inr (vs, t))"
    and parse_members_prefix: "parse_members f d s = Inr (kvs, r) \<Longrightarrow>
      \<exists>p. s = p @ r \<and> (\<forall>t. parse_members f d (p @ t) = Inr (kvs, t))"
proof (induction f d s and f d s and f d s arbitrary: v r and vs r and kvs r
    rule: parse_value_parse_elems_parse_members.induct)
  case (2 f d s)
  from "2.prems" obtain c cs where s: "skip_ws s = c # cs" by (cases "skip_ws s") auto
  from skip_ws_parts [OF s] obtain w where w: "s = w @ c # cs" "\<And>t. skip_ws (w @ c # t) = c # t" by blast
  consider "c = CHR ''{''" | "c = CHR ''[''" | "c \<noteq> CHR ''{''" "c \<noteq> CHR ''[''" by blast
  then have "\<exists>p. cs = p @ r \<and> (\<forall>t. number_end t \<longrightarrow> parse_value (Suc f) d (w @ c # p @ t) = Inr (v, t))"
  proof cases
    case 1
    with "2.prems" s obtain x q where x: "skip_ws cs = x # q" and max: "\<not> max_depth \<le> d"
      by (auto split: if_splits list.splits)
    from skip_ws_parts [OF x] obtain u where u: "cs = u @ x # q" "\<And>t. skip_ws (u @ x # t) = x # t" by blast
    show ?thesis
    proof (cases "x = CHR ''}''")
      case True
      with "2.prems" s x max 1 u w(2) show ?thesis by (intro exI [of _ "u @ [x]"]) simp
    next
      case False
      with "2.prems" s x max 1 obtain kvs where kvs: "parse_members f (Suc d) (x # q) = Inr (kvs, r)"
        "v = JObject (obj_of kvs)" by (auto simp: and_then_Inr)
      from "2.IH"(1) [OF s 1 max x False kvs(1)] obtain p where
        p: "x # q = p @ r" "\<And>t. parse_members f (Suc d) (p @ t) = Inr (kvs, t)" by blast
      obtain p' where p': "p = x # p'" using p(1) parse_members_consumes [OF kvs(1)] by (cases p) auto
      with p u have "cs = (u @ p) @ r" by simp
      moreover have "parse_value (Suc f) d (w @ c # (u @ p) @ t) = Inr (v, t)" for t
        using p(2) [of t] p' max 1 u(2) w(2) kvs(2) False by simp
      ultimately show ?thesis by blast
    qed
  next
    case 2
    with "2.prems" s obtain x q where x: "skip_ws cs = x # q" and max: "\<not> max_depth \<le> d"
      by (auto split: if_splits list.splits)
    from skip_ws_parts [OF x] obtain u where u: "cs = u @ x # q" "\<And>t. skip_ws (u @ x # t) = x # t" by blast
    have ne: "c \<noteq> CHR ''{''" using 2 by simp
    show ?thesis
    proof (cases "x = CHR '']''")
      case True
      with "2.prems" s x max 2 u w(2) show ?thesis by (intro exI [of _ "u @ [x]"]) simp
    next
      case False
      with "2.prems" s x max 2 obtain vs where vs: "parse_elems f (Suc d) (x # q) = Inr (vs, r)" "v = JArray vs"
        by (auto simp: and_then_Inr)
      from "2.IH"(2) [OF s ne 2 max x False vs(1)] obtain p where
        p: "x # q = p @ r" "\<And>t. parse_elems f (Suc d) (p @ t) = Inr (vs, t)" by blast
      obtain p' where p': "p = x # p'" using p(1) parse_elems_consumes [OF vs(1)] by (cases p) auto
      with p u have "cs = (u @ p) @ r" by simp
      moreover have "parse_value (Suc f) d (w @ c # (u @ p) @ t) = Inr (v, t)" for t
        using p(2) [of t] p' max 2 u(2) w(2) vs(2) False by simp
      ultimately show ?thesis by blast
    qed
  next
    case ne: 3
    consider (str) "c = quote_char" | (word) "c = CHR ''t'' \<or> c = CHR ''f'' \<or> c = CHR ''n''"
      | (num) "c \<noteq> quote_char" "c \<noteq> CHR ''t''" "c \<noteq> CHR ''f''" "c \<noteq> CHR ''n''" by blast
    then show ?thesis
    proof cases
      case str
      with "2.prems" s obtain raw where raw: "scan_string cs = Inr (raw, r)" "v = JString (unquote raw)"
        by (auto simp: and_then_Inr)
      from scan_string_parts [OF raw(1)] raw(2) str w(2) show ?thesis
        by (intro exI [of _ "raw @ [quote_char]"]) simp
    next
      case word
      then show ?thesis
      proof (elim disjE)
        assume "c = CHR ''t''"
        with "2.prems" s w(2) show ?thesis
          by (intro exI [of _ "''rue''"]) (auto simp: and_then_Inr dest: expect_word_split)
      next
        assume "c = CHR ''f''"
        with "2.prems" s w(2) show ?thesis
          by (intro exI [of _ "''alse''"]) (auto simp: and_then_Inr dest: expect_word_split)
      next
        assume "c = CHR ''n''"
        with "2.prems" s w(2) show ?thesis
          by (intro exI [of _ "''ull''"]) (auto simp: and_then_Inr dest: expect_word_split)
      qed
    next
      case num
      have "\<exists>n. scan_number (c # cs) = Inr (n, r) \<and> v = JNumber n"
        using "2.prems" num ne s by (simp add: and_then_Inr) blast
      then obtain n where n: "scan_number (c # cs) = Inr (n, r)" "v = JNumber n" by blast
      then obtain n' where n': "n = c # n'" "cs = n' @ r" by (auto dest!: scan_number_split simp: append_eq_Cons_conv Cons_eq_append_conv)
      have "parse_value (Suc f) d (w @ c # n' @ t) = Inr (v, t)" if "number_end t" for t
        using scan_number_again(1) [OF n(1) that] n' n(2) num ne w(2) [of "n' @ t"] by simp
      with n' show ?thesis by blast
    qed
  qed
  with w(1) show ?case by (metis append.assoc append_Cons)
next
  case (4 f d s)
  from "4.prems" obtain v s1 where v: "parse_value f d s = Inr (v, s1)"
    by (auto simp: and_then_Inr)
  from "4.prems" v obtain x q where x: "skip_ws s1 = x # q" by (auto split: list.splits)
  from skip_ws_parts [OF x] obtain u where u: "s1 = u @ x # q" "\<And>t. skip_ws (u @ x # t) = x # t" by blast
  from "4.IH"(1) [OF v] obtain p where
    p: "s = p @ s1" "\<And>t. number_end t \<Longrightarrow> parse_value f d (p @ t) = Inr (v, t)" by blast
  have tail: "parse_value f d (p @ u @ x # t) = Inr (v, u @ x # t)" if "x = CHR '','' \<or> x = CHR '']''" for t
    using that number_end_punct [OF u(2)] by (intro p(2)) blast
  show ?case
  proof (cases "x = CHR '',''")
    case True
    with "4.prems" v x obtain vs' where vs': "parse_elems f d q = Inr (vs', r)" "vs = v # vs'"
      by (auto simp: and_then_Inr)
    from "4.IH"(2) [OF v refl x True vs'(1)] obtain p' where
      p': "q = p' @ r" "\<And>t. parse_elems f d (p' @ t) = Inr (vs', t)" by blast
    have "parse_elems (Suc f) d ((p @ u @ x # p') @ t) = Inr (vs, t)" for t
      using tail [of "p' @ t"] u(2) [of "p' @ t"] p'(2) [of t] True vs'(2) by simp
    moreover have "s = (p @ u @ x # p') @ r" using p(1) u(1) p'(1) by simp
    ultimately show ?thesis by blast
  next
    case False
    with "4.prems" v x have e: "x = CHR '']''" "vs = [v]" "q = r" by (auto split: if_splits)
    have "parse_elems (Suc f) d ((p @ u @ [x]) @ t) = Inr (vs, t)" for t
      using tail [of t] u(2) [of t] e by simp
    moreover have "s = (p @ u @ [x]) @ r" using p(1) u(1) e(3) by simp
    ultimately show ?thesis by blast
  qed
next
  case (6 f d s)
  from "6.prems" obtain s1 raw s2 s3 v s4
    where eqs: "expect_byte quote_char s = Inr s1" "scan_string s1 = Inr (raw, s2)"
      "expect_byte CHR '':'' s2 = Inr s3" "parse_value f d s3 = Inr (v, s4)"
    by (auto simp: and_then_Inr)
  from expect_byte_parts [OF eqs(1)] obtain w1 where
    w1: "s = w1 @ s1" "\<And>t. expect_byte quote_char (w1 @ t) = Inr t" by blast
  from expect_byte_parts [OF eqs(3)] obtain w2 where
    w2: "s2 = w2 @ s3" "\<And>t. expect_byte CHR '':'' (w2 @ t) = Inr t" by blast
  from scan_string_parts [OF eqs(2)] have
    str: "s1 = (raw @ [quote_char]) @ s2" "\<And>t. scan_string ((raw @ [quote_char]) @ t) = Inr (raw, t)" by blast+
  from "6.prems" eqs obtain x q where x: "skip_ws s4 = x # q" by (auto split: list.splits)
  from skip_ws_parts [OF x] obtain u where u: "s4 = u @ x # q" "\<And>t. skip_ws (u @ x # t) = x # t" by blast
  from "6.IH"(1) [OF eqs(1,2) refl eqs(3,4)] obtain p where
    p: "s3 = p @ s4" "\<And>t. number_end t \<Longrightarrow> parse_value f d (p @ t) = Inr (v, t)" by blast
  let ?pre = "w1 @ (raw @ [quote_char]) @ w2 @ p @ u"
  have tail: "parse_value f d (p @ u @ x # t) = Inr (v, u @ x # t)" if "x = CHR '','' \<or> x = CHR ''}''" for t
    using that number_end_punct [OF u(2)] by (intro p(2)) blast
  have s: "s = ?pre @ x # q" using w1(1) str(1) w2(1) p(1) u(1) by simp
  have step: "parse_members (Suc f) d (?pre @ x # t) =
      (if x = CHR '','' then and_then (parse_members f d t) (\<lambda>(kvs, r'). Inr ((unquote raw, v) # kvs, r'))
       else if x = CHR ''}'' then Inr ([(unquote raw, v)], t) else Inl SyntaxError)"
    if "x = CHR '','' \<or> x = CHR ''}''" for t
    using w1(2) str(2) w2(2) tail [OF that, of t] u(2) [of t] by simp
  show ?case
  proof (cases "x = CHR '',''")
    case True
    with "6.prems" eqs x obtain kvs' where kvs': "parse_members f d q = Inr (kvs', r)" "kvs = (unquote raw, v) # kvs'"
      by (auto simp: and_then_Inr)
    from "6.IH"(2) [OF eqs(1,2) refl eqs(3,4) refl x True kvs'(1)] obtain p' where
      p': "q = p' @ r" "\<And>t. parse_members f d (p' @ t) = Inr (kvs', t)" by blast
    have "parse_members (Suc f) d ((?pre @ x # p') @ t) = Inr (kvs, t)" for t
      using step [of "p' @ t"] p'(2) [of t] True kvs'(2) by simp
    moreover have "s = (?pre @ x # p') @ r" using s p'(1) by simp
    ultimately show ?thesis by blast
  next
    case False
    with "6.prems" eqs x have e: "x = CHR ''}''" "kvs = [(unquote raw, v)]" "q = r" by (auto split: if_splits)
    have "parse_members (Suc f) d ((?pre @ [x]) @ t) = Inr (kvs, t)" for t
      using step [of t] e by simp
    moreover have "s = (?pre @ [x]) @ r" using s e(3) by simp
    ultimately show ?thesis by blast
  qed
qed auto

subsection \<open>Whole inputs\<close>

lemma parse_whole_marshal:
  assumes "canonical v 0"
  shows "parse_whole (marshal v) = Inr v"
proof -
  have "parse_value (json_fuel (marshal v)) 0 (marshal v @ []) = Inr (v, [])"
    using assms by (intro parse_printed) (auto simp: json_fuel_def)
  then show ?thesis by (simp add: parse_whole_def parse_json_def skip_ws_def)
qed

lemma marshal_inject: "canonical v 0 \<Longrightarrow> canonical w 0 \<Longrightarrow> marshal v = marshal w \<longleftrightarrow> v = w"
  using parse_whole_marshal by (metis sum.inject(2))

lemma marshal_cancel:
  assumes "canonical v 0" "canonical w 0" "number_end a" "number_end b" "marshal v @ a = marshal w @ b"
  shows "v = w \<and> a = b"
proof -
  let ?f = "Suc (2 * length (marshal v @ a))"
  have "parse_value ?f 0 (marshal v @ a) = Inr (v, a)" using assms by (intro parse_printed) auto
  moreover have "parse_value ?f 0 (marshal w @ b) = Inr (w, b)" using assms by (intro parse_printed) auto
  ultimately show ?thesis using assms(5) by simp
qed

lemma canonical_marshal_ok: "canonical v d \<Longrightarrow> marshal_ok v"
proof (induction v arbitrary: d rule: json.induct)
  case (JArray vs)
  moreover have "canonical_elems vs d \<Longrightarrow> x \<in> set vs \<Longrightarrow> canonical x d" for x d by (induction vs) auto
  ultimately show ?case by (auto simp: list_all_iff)
next
  case (JObject ms)
  then have "canonical_members ms (Suc d)" by simp
  with JObject.IH show ?case by (fastforce simp: list_all_iff canonical_members_iff)
qed (auto simp: valid_number_def)

lemma parse_json_canonical: "parse_json s = Inr (v, rest) \<Longrightarrow> canonical v 0"
  unfolding parse_json_def by (rule parse_value_canonical)

lemma parse_whole_canonical: "parse_whole s = Inr v \<Longrightarrow> canonical v 0"
  using parse_json_canonical by (auto simp: parse_whole_def split: sum.splits if_splits)

text \<open>What \<open>Decode\<close> cuts out of the buffer is the value it parsed.\<close>

lemma parse_json_cut:
  assumes "parse_json s = Inr (v, rest)"
  shows "\<exists>p. s = p @ rest \<and> parse_whole p = Inr v"
proof -
  from parse_value_prefix [OF assms [unfolded parse_json_def]] obtain p where
    p: "s = p @ rest" "\<And>t. number_end t \<Longrightarrow> parse_value (json_fuel s) 0 (p @ t) = Inr (v, t)" by blast
  have "parse_json p = parse_value (json_fuel s) 0 p"
    unfolding parse_json_def by (rule parse_value_fuel) (use p(1) in \<open>simp_all add: json_fuel_def\<close>)
  with p(2) [of "[]"] have "parse_json p = Inr (v, [])" by simp
  with p(1) show ?thesis by (intro exI [of _ p]) (simp add: parse_whole_def skip_ws_def)
qed

lemma read_value_Inr:
  assumes "read_value e s = Inr (raw, rest)"
  obtains v where "parse_json s = Inr (v, rest)" "s = raw @ rest" "parse_whole raw = Inr v"
proof -
  from assms obtain v where v: "parse_json s = Inr (v, rest)" "raw = take (length s - length rest) s"
    by (auto simp: read_value_def split: sum.splits prod.splits json_error.splits read_end.splits if_splits)
  from parse_json_cut [OF v(1)] obtain p where "s = p @ rest" "parse_whole p = Inr v" by blast
  with v that show thesis by simp
qed

lemma read_value_EndOfData:
  "read_value EndOfData s = Inr (raw, rest) \<longleftrightarrow>
     (\<exists>v. parse_json s = Inr (v, rest) \<and> raw = take (length s - length rest) s)"
  by (auto simp: read_value_def split: sum.splits prod.splits json_error.splits if_splits)

lemma and_then_pair: "and_then m (\<lambda>(a, b). f a b) = Inr y \<longleftrightarrow> (\<exists>a b. m = Inr (a, b) \<and> f a b = Inr y)"
  by (cases m) auto

lemma decode_any_map_Some:
  "decode_any_map EndOfData s = Inr (Some m, rest) \<longleftrightarrow> parse_json s = Inr (JObject m, rest)"
proof
  assume "decode_any_map EndOfData s = Inr (Some m, rest)"
  then obtain raw r' v where v: "read_value EndOfData s = Inr (raw, r')" "parse_whole raw = Inr v"
    "(case v of JNull \<Rightarrow> Inr (None, r') | JObject m \<Rightarrow> Inr (Some m, r') | _ \<Rightarrow> Inl DecodeType) = Inr (Some m, rest)"
    unfolding decode_any_map_def and_then_pair unfolding and_then_Inr by blast
  from v(3) have "v = JObject m" "r' = rest" by (cases v; simp)+
  with v(1,2) have raw: "read_value EndOfData s = Inr (raw, rest)" "parse_whole raw = Inr (JObject m)" by simp_all
  from raw(1) show "parse_json s = Inr (JObject m, rest)" by (rule read_value_Inr) (use raw(2) in auto)
next
  assume p: "parse_json s = Inr (JObject m, rest)"
  from parse_json_cut [OF p] obtain r where "s = r @ rest" "parse_whole r = Inr (JObject m)" by blast
  with p show "decode_any_map EndOfData s = Inr (Some m, rest)"
    by (simp add: decode_any_map_def read_value_def)
qed

lemma parse_json_all_ws: "skip_ws s = [] \<Longrightarrow> parse_json s = Inl UnexpectedEnd"
  by (simp add: parse_json_def json_fuel_def)

lemma read_value_EOF_iff: "read_value EndOfData s = Inl DecodeEOF \<longleftrightarrow> skip_ws s = []"
  using parse_json_all_ws [of s]
  by (auto simp: read_value_def split: sum.splits prod.splits json_error.splits if_splits)

lemma compact_raw_marshal: "canonical v 0 \<Longrightarrow> compact_raw (marshal v) = Inr (marshal v)"
  by (simp add: compact_raw_def parse_whole_marshal compact_marshal canonical_marshal_ok)

end
