(* ===== verification/StructCodec.thy ===== *)
theory StructCodec
  imports JsonPrefix
begin

text \<open>
  What the program uses of \<open>encoding/json\<close> on structs: \<open>Marshal\<close> prints the fields in the order of
  their declaration without the omitted ones, \<open>Unmarshal\<close> walks the members of the object in the
  order of the text and stores each into the field with that name, or else with that name up to
  case folding. A pointer is an \<open>option\<close>; a \<open>[]byte\<close> is base64 text; a \<open>time.Time\<close> is RFC 3339.
\<close>

subsection \<open>Base64\<close>

definition b64_char :: "nat \<Rightarrow> char" where
  [go_eval]: "b64_char n =
     (if n < 26 then byte_of (65 + n) else if n < 52 then byte_of (71 + n)
      else if n < 62 then byte_of (n - 4) else if n = 62 then CHR ''+'' else CHR ''/'')"

definition b64_val :: "char \<Rightarrow> nat option" where
  [go_eval]: "b64_val c =
     (let b = byte_val c in
      if 65 \<le> b \<and> b \<le> 90 then Some (b - 65) else if 97 \<le> b \<and> b \<le> 122 then Some (b - 71)
      else if 48 \<le> b \<and> b \<le> 57 then Some (b + 4) else if c = CHR ''+'' then Some 62
      else if c = CHR ''/'' then Some 63 else None)"

fun base64_encode :: "go_string \<Rightarrow> go_string" where
  "base64_encode (a # b # c # r) =
     (let x = byte_val a; y = byte_val b; z = byte_val c in
      [b64_char (x div 4), b64_char (x mod 4 * 16 + y div 16), b64_char (y mod 16 * 4 + z div 64),
       b64_char (z mod 64)] @ base64_encode r)"
| "base64_encode [a, b] =
     (let x = byte_val a; y = byte_val b in
      [b64_char (x div 4), b64_char (x mod 4 * 16 + y div 16), b64_char (y mod 16 * 4), CHR ''=''])"
| "base64_encode [a] =
     (let x = byte_val a in [b64_char (x div 4), b64_char (x mod 4 * 16), CHR ''='', CHR ''=''])"
| "base64_encode [] = []"

text \<open>Line breaks are ignored, the padding is required and ends the text.\<close>

fun b64_groups :: "go_string \<Rightarrow> go_string option" where
  "b64_groups [] = Some []"
| "b64_groups (a # b # c # d # r) =
     (case (b64_val a, b64_val b) of
        (Some w, Some x) \<Rightarrow>
          if c = CHR ''='' then
            (if d = CHR ''='' \<and> r = [] then Some [byte_of (w * 4 + x div 16)] else None)
          else
            (case b64_val c of
               None \<Rightarrow> None
             | Some y \<Rightarrow>
                 if d = CHR ''='' then
                   (if r = [] then Some [byte_of (w * 4 + x div 16), byte_of (x mod 16 * 16 + y div 4)] else None)
                 else
                   (case b64_val d of
                      None \<Rightarrow> None
                    | Some z \<Rightarrow>
                        map_option (\<lambda>q. [byte_of (w * 4 + x div 16), byte_of (x mod 16 * 16 + y div 4),
                                         byte_of (y mod 4 * 64 + z)] @ q) (b64_groups r)))
      | _ \<Rightarrow> None)"
| "b64_groups _ = None"

definition base64_decode :: "go_string \<Rightarrow> go_string option" where
  "base64_decode s = b64_groups (filter (\<lambda>c. c \<noteq> CHR 0x0A \<and> c \<noteq> CHR 0x0D) s)"

subsection \<open>Marshal\<close>

text \<open>\<open>time.Time.MarshalJSON\<close>: the year must have four digits.\<close>

definition time_year :: "gotime \<Rightarrow> int" where
  "time_year t = fst (civil_of_days ((t_ns t + t_zone t * second_ns) div day_ns))"

definition marshal_time :: "gotime \<Rightarrow> go_string result" where
  "marshal_time t =
     (if 0 \<le> time_year t \<and> time_year t \<le> 9999 \<and> \<bar>t_zone t\<bar> < 86400
      then Inr (quote_char # format_rfc3339nano t @ [quote_char])
      else Inl (Errorf ''Time.MarshalJSON: year outside of range [0,9999]''))"

text \<open>\<open>json.RawMessage\<close> with \<open>omitempty\<close>.\<close>

definition marshal_raw :: "go_string option \<Rightarrow> go_string option result" where
  "marshal_raw r =
     (case r of
        None \<Rightarrow> Inr None
      | Some b \<Rightarrow>
          if b = [] then Inr None
          else (case compact_raw b of Inl e \<Rightarrow> Inl (json_go_error e) | Inr c \<Rightarrow> Inr (Some c)))"

text \<open>\<open>[]byte\<close> with \<open>omitempty\<close>.\<close>

definition marshal_bytes :: "go_string option \<Rightarrow> go_string option" where
  "marshal_bytes r =
     (case r of
        None \<Rightarrow> None
      | Some b \<Rightarrow> if b = [] then None else Some (quote_char # base64_encode b @ [quote_char]))"

text \<open>\<open>string\<close> with \<open>omitempty\<close>.\<close>

definition marshal_omit_string :: "go_string \<Rightarrow> go_string option" where
  "marshal_omit_string s = (if s = [] then None else Some (quote_json s))"

fun print_members :: "(go_string \<times> go_string) list \<Rightarrow> go_string" where
  "print_members [] = []"
| "print_members ((k, v) # ms) =
     quote_json k @ '':'' @ v @ (if ms = [] then [] else '','' @ print_members ms)"

definition print_object :: "(go_string \<times> go_string) list \<Rightarrow> go_string" where
  "print_object ms = ''{'' @ print_members ms @ ''}''"

text \<open>The fields with their printed values, \<open>None\<close> when omitted.\<close>

definition present :: "(go_string \<times> go_string option) list \<Rightarrow> (go_string \<times> go_string) list" where
  "present fs = List.map_filter (\<lambda>(k, v). map_option (\<lambda>x. (k, x)) v) fs"

definition marshal_struct :: "(go_string \<times> go_string option) list \<Rightarrow> go_string" where
  "marshal_struct fs = print_object (present fs)"

subsection \<open>Unmarshal\<close>

type_synonym 'a setter = "'a \<Rightarrow> go_string \<Rightarrow> decode_error + 'a"

definition string_setter :: "go_string setter" where
  "string_setter cur raw = unmarshal_string raw cur"

text \<open>\<open>strconv.ParseInt(n, 10, 64)\<close> on a number literal.\<close>

definition parse_int :: "go_string \<Rightarrow> int option" where
  [go_eval]: "parse_int n =
     (let neg = (n \<noteq> [] \<and> hd n = CHR ''-''); ds = (if neg then tl n else n);
          v = (if neg then - int (digits_val ds) else int (digits_val ds))
      in if ds \<noteq> [] \<and> list_all is_digit ds \<and> - (2 ^ 63) \<le> v \<and> v < 2 ^ 63 then Some v else None)"

definition int_setter :: "int setter" where
  "int_setter cur raw =
     and_then (parse_whole raw) (\<lambda>v.
       case v of
         JNull \<Rightarrow> Inr cur
       | JNumber n \<Rightarrow> (case parse_int n of Some i \<Rightarrow> Inr i | None \<Rightarrow> Inl DecodeType)
       | _ \<Rightarrow> Inl DecodeType)"

definition bool_setter :: "bool setter" where
  "bool_setter cur raw =
     and_then (parse_whole raw) (\<lambda>v.
       case v of JNull \<Rightarrow> Inr cur | JBool b \<Rightarrow> Inr b | _ \<Rightarrow> Inl DecodeType)"

text \<open>\<open>time.Time.UnmarshalJSON\<close> reads the bytes between the quotes as they are.\<close>

definition time_setter :: "gotime setter" where
  "time_setter cur raw =
     and_then (parse_whole raw) (\<lambda>v.
       case v of
         JNull \<Rightarrow> Inr cur
       | JString _ \<Rightarrow>
           (case parse_rfc3339 (butlast (tl raw)) of Some t \<Rightarrow> Inr t | None \<Rightarrow> Inl DecodeType)
       | _ \<Rightarrow> Inl DecodeType)"

text \<open>\<open>json.RawMessage\<close> takes the bytes of the value, \<open>null\<close> included.\<close>

definition raw_setter :: "go_string option setter" where
  "raw_setter cur raw = Inr (Some raw)"

definition bytes_setter :: "go_string option setter" where
  "bytes_setter cur raw =
     and_then (parse_whole raw) (\<lambda>v.
       case v of
         JNull \<Rightarrow> Inr None
       | JString s \<Rightarrow> (case base64_decode s of Some b \<Rightarrow> Inr (Some b) | None \<Rightarrow> Inl DecodeType)
       | _ \<Rightarrow> Inl DecodeType)"

text \<open>A pointer: \<open>null\<close> makes it nil, otherwise the value is decoded into what it points to.\<close>

definition pointer_setter :: "'a \<Rightarrow> 'a setter \<Rightarrow> 'a option setter" where
  "pointer_setter zero st cur raw =
     and_then (parse_whole raw) (\<lambda>v.
       if v = JNull then Inr None
       else and_then (st (case cur of None \<Rightarrow> zero | Some x \<Rightarrow> x) raw) (\<lambda>x. Inr (Some x)))"

text \<open>
  \<open>foldName\<close>: ASCII letters in upper case; U+017F folds to S and the Kelvin sign to K. No other
  rune folds to ASCII; they are kept.
\<close>

definition upper_char :: "char \<Rightarrow> char" where
  [go_eval]: "upper_char c = (if 97 \<le> byte_val c \<and> byte_val c \<le> 122 then byte_of (byte_val c - 32) else c)"

definition fold_chunk :: "go_string \<Rightarrow> go_string" where
  [go_eval]: "fold_chunk ch =
     (let r = fst (decode_rune ch) in
      if r = 383 then ''S'' else if r = 8490 then ''K'' else List.map upper_char ch)"

definition fold_name :: "go_string \<Rightarrow> go_string" where
  [go_eval]: "fold_name s = concat (List.map fold_chunk (chunks s))"

definition find_field :: "(go_string \<times> 'a setter) list \<Rightarrow> go_string \<Rightarrow> 'a setter option" where
  "find_field fs k =
     (case map_of fs k of
        Some st \<Rightarrow> Some st
      | None \<Rightarrow> map_option snd (find (\<lambda>(n, _). fold_name n = fold_name k) fs))"

text \<open>A setter of one field of a record, by its selector and its update function.\<close>

definition field_of :: "('r \<Rightarrow> 'a) \<Rightarrow> (('a \<Rightarrow> 'a) \<Rightarrow> 'r \<Rightarrow> 'r) \<Rightarrow> 'a setter \<Rightarrow> 'r setter" where
  "field_of sel upd st r raw = and_then (st (sel r) raw) (\<lambda>x. Inr (upd (\<lambda>_. x) r))"

fun set_members :: "(go_string \<times> 'a setter) list \<Rightarrow> (go_string \<times> go_string) list \<Rightarrow> 'a \<Rightarrow> decode_error + 'a" where
  "set_members fs [] r = Inr r"
| "set_members fs ((k, raw) # ms) r =
     and_then (case find_field fs k of None \<Rightarrow> Inr r | Some st \<Rightarrow> st r raw) (set_members fs ms)"

text \<open>The members of an object in the order of the text.\<close>

definition object_members :: "go_string \<Rightarrow> decode_error + (go_string \<times> go_string) list" where
  "object_members raw =
     (case parse_raw_members (json_fuel raw) 1 (tl (skip_ws raw)) of
        Inr (ms, _) \<Rightarrow> Inr ms
      | Inl e \<Rightarrow> Inl DecodeSyntax)"

definition struct_setter :: "(go_string \<times> 'a setter) list \<Rightarrow> 'a setter" where
  "struct_setter fs cur raw =
     and_then (parse_whole raw) (\<lambda>v.
       case v of
         JNull \<Rightarrow> Inr cur
       | JObject [] \<Rightarrow> Inr cur
       | JObject _ \<Rightarrow> and_then (object_members raw) (\<lambda>ms. set_members fs ms cur)
       | _ \<Rightarrow> Inl DecodeType)"

end
