(* ===== verification/GoSha256.thy ===== *)
theory GoSha256
  imports GoText
begin

unbundle bit_operations_syntax

text \<open>
  Go's \<open>crypto/sha256\<close> (\<open>Sum256\<close>) and \<open>encoding/hex\<close> (\<open>EncodeToString\<close>), as the program uses
  them for transaction fingerprints and API key digests. SHA-256 is the function of FIPS 180-4 on
  32-bit words; nothing here assumes that it is injective.
\<close>

type_synonym u32 = "32 word"

definition rotr :: "nat \<Rightarrow> u32 \<Rightarrow> u32" where
  "rotr n x = (drop_bit n x) OR (push_bit (32 - n) x)"

definition big_sigma0 :: "u32 \<Rightarrow> u32" where
  "big_sigma0 x = rotr 2 x XOR rotr 13 x XOR rotr 22 x"

definition big_sigma1 :: "u32 \<Rightarrow> u32" where
  "big_sigma1 x = rotr 6 x XOR rotr 11 x XOR rotr 25 x"

definition small_sigma0 :: "u32 \<Rightarrow> u32" where
  "small_sigma0 x = rotr 7 x XOR rotr 18 x XOR drop_bit 3 x"

definition small_sigma1 :: "u32 \<Rightarrow> u32" where
  "small_sigma1 x = rotr 17 x XOR rotr 19 x XOR drop_bit 10 x"

definition sha_ch :: "u32 \<Rightarrow> u32 \<Rightarrow> u32 \<Rightarrow> u32" where
  "sha_ch x y z = (x AND y) XOR (NOT x AND z)"

definition sha_maj :: "u32 \<Rightarrow> u32 \<Rightarrow> u32 \<Rightarrow> u32" where
  "sha_maj x y z = (x AND y) XOR (x AND z) XOR (y AND z)"

definition round_constants :: "u32 list" where
  "round_constants =
     [1116352408, 1899447441, 3049323471, 3921009573, 961987163, 1508970993, 2453635748, 2870763221,
      3624381080, 310598401, 607225278, 1426881987, 1925078388, 2162078206, 2614888103, 3248222580,
      3835390401, 4022224774, 264347078, 604807628, 770255983, 1249150122, 1555081692, 1996064986,
      2554220882, 2821834349, 2952996808, 3210313671, 3336571891, 3584528711, 113926993, 338241895,
      666307205, 773529912, 1294757372, 1396182291, 1695183700, 1986661051, 2177026350, 2456956037,
      2730485921, 2820302411, 3259730800, 3345764771, 3516065817, 3600352804, 4094571909, 275423344,
      430227734, 506948616, 659060556, 883997877, 958139571, 1322822218, 1537002063, 1747873779,
      1955562222, 2024104815, 2227730452, 2361852424, 2428436474, 2756734187, 3204031479, 3329325298]"

definition initial_hash :: "u32 list" where
  "initial_hash =
     [1779033703, 3144134277, 1013904242, 2773480762, 1359893119, 2600822924, 528734635, 1541459225]"

text \<open>The message schedule, newest word first: each new word from those 2, 7, 15 and 16 back.\<close>

definition schedule_step :: "u32 list \<Rightarrow> u32 list" where
  "schedule_step w =
     (small_sigma1 (w ! 1) + w ! 6 + small_sigma0 (w ! 14) + w ! 15) # w"

definition schedule :: "u32 list \<Rightarrow> u32 list" where
  "schedule blk = rev ((schedule_step ^^ 48) (rev blk))"

fun sha_round :: "u32 list \<Rightarrow> u32 \<times> u32 \<Rightarrow> u32 list" where
  "sha_round [a, b, c, d, e, f, g, h] (k, w) =
     (let t1 = h + big_sigma1 e + sha_ch e f g + k + w;
          t2 = big_sigma0 a + sha_maj a b c
      in [t1 + t2, a, b, c, d + t1, e, f, g])"
| "sha_round st _ = st"

definition compress :: "u32 list \<Rightarrow> u32 list \<Rightarrow> u32 list" where
  "compress h blk = map2 (+) h (foldl sha_round h (zip round_constants (schedule blk)))"

text \<open>Bytes to words, big-endian, and back.\<close>

fun to_words :: "go_string \<Rightarrow> u32 list" where
  "to_words (a # b # c # d # r) =
     (((of_char a * 256 + of_char b) * 256 + of_char c) * 256 + of_char d) # to_words r"
| "to_words _ = []"

definition word_bytes :: "u32 \<Rightarrow> go_string" where
  "word_bytes w =
     [char_of (uint w div 16777216), char_of (uint w div 65536 mod 256),
      char_of (uint w div 256 mod 256), char_of (uint w mod 256)]"

definition len_bytes :: "int \<Rightarrow> go_string" where
  "len_bytes n = map (\<lambda>i. char_of (n div 256 ^ i mod 256)) [7, 6, 5, 4, 3, 2, 1, 0]"

text \<open>Padding to a multiple of 64 bytes: a one bit, zeros and the length in bits.\<close>

definition sha_pad :: "go_string \<Rightarrow> go_string" where
  "sha_pad m =
     m @ [CHR 0x80] @ replicate ((119 - length m mod 64) mod 64) CHR 0x00 @ len_bytes (8 * int (length m))"

function blocks :: "u32 list \<Rightarrow> u32 list list" where
  "blocks ws = (if ws = [] then [] else take 16 ws # blocks (drop 16 ws))"
  by pat_completeness auto
termination
  by (relation "measure length") auto

declare blocks.simps [simp del]

definition sha256 :: "go_string \<Rightarrow> go_string" where
  "sha256 m = concat (map word_bytes (foldl compress initial_hash (blocks (to_words (sha_pad m)))))"

text \<open>Lower-case hexadecimal.\<close>

definition hex_nibble :: "nat \<Rightarrow> char" where
  "hex_nibble n = (if n < 10 then digit_char n else byte_of (87 + n))"

definition hex_encode :: "go_string \<Rightarrow> go_string" where
  "hex_encode s = concat (map (\<lambda>c. [hex_nibble (byte_val c div 16), hex_nibble (byte_val c mod 16)]) s)"

lemma hex_nibble_inject: "m < 16 \<Longrightarrow> n < 16 \<Longrightarrow> hex_nibble m = hex_nibble n \<longleftrightarrow> m = n"
  by (auto simp: hex_nibble_def digit_char_def char_of_eq_iff take_bit_eq_mod)

lemma hex_encode_length [simp]: "length (hex_encode s) = 2 * length s"
  by (induction s) (simp_all add: hex_encode_def)

lemma hex_encode_inject: "hex_encode s = hex_encode t \<longleftrightarrow> s = t"
proof
  show "hex_encode s = hex_encode t \<Longrightarrow> s = t"
  proof (induction s arbitrary: t)
    case Nil
    then show ?case by (cases t) (auto simp: hex_encode_def)
  next
    case (Cons c cs)
    from Cons.prems obtain d ds where t: "t = d # ds"
      by (cases t) (auto simp: hex_encode_def)
    have lt: "byte_val x div 16 < 16" "byte_val x mod 16 < 16" for x :: char
    proof -
      have "byte_val x < 256" by (rule nat_of_char_less_256)
      then show "byte_val x div 16 < 16" by (simp add: less_mult_imp_div_less)
    qed simp
    from Cons.prems t have "byte_val c div 16 = byte_val d div 16" "byte_val c mod 16 = byte_val d mod 16"
      and tails: "hex_encode cs = hex_encode ds"
      by (auto simp: hex_encode_def hex_nibble_inject lt)
    then have "byte_val c = byte_val d" by (metis div_mult_mod_eq)
    then have "c = d" by (simp only: of_char_eq_iff)
    with Cons.IH [OF tails] t show ?case by simp
  qed
qed simp

end
