(* ===== verification/Domain.thy ===== *)
theory Domain
  imports JsonCanonical GoSha256
begin

text \<open>
  \<open>internal/transaction/domain/transaction.go\<close>: the transaction, its validation, the canonical
  form of the producer's JSON objects and the fingerprint.

  A \<open>json.RawMessage\<close> is an optional byte string: \<open>None\<close> is the nil slice. A parsed
  \<open>map[string]any\<close> is an optional list of members in key order: \<open>None\<close> is the nil map.
\<close>

subsection \<open>Data\<close>

record plate =
  plate_number :: go_string
  plate_jurisdiction :: go_string

type_synonym raw_message = "go_string option"
type_synonym any_map = "(go_string \<times> json) list option"

record transaction =
  tx_id :: go_string
  tx_source :: go_string
  tx_source_reference :: go_string
  tx_type :: go_string
  tx_time :: gotime
  tx_base_amount :: go_string
  tx_currency :: go_string
  tx_plate :: "plate option"
  tx_transponder :: go_string
  tx_location :: any_map
  tx_metadata :: any_map
  tx_location_raw :: raw_message
  tx_metadata_raw :: raw_message

definition raw_bytes :: "raw_message \<Rightarrow> go_string" where
  [go_eval]: "raw_bytes r = (case r of None \<Rightarrow> [] | Some b \<Rightarrow> b)"

subsection \<open>Canonical objects\<close>

definition canonical_object :: "raw_message \<Rightarrow> any_map \<Rightarrow> raw_message result" where
  "canonical_object raw parsed =
     (if raw_bytes raw = [] then
        (case parsed of
           None \<Rightarrow> Inr None
         | Some m \<Rightarrow> and_then (marshal_value (JObject m)) (\<lambda>p. Inr (Some p)))
      else
        (case decode_any_map EndOfData (raw_bytes raw) of
           Inl e \<Rightarrow> Inl (json_go_error e)
         | Inr (None, rest) \<Rightarrow> Inl (Errorf ''value is null'')
         | Inr (Some m, rest) \<Rightarrow>
             (case read_value EndOfData rest of
                Inl DecodeEOF \<Rightarrow> and_then (marshal_value (JObject m)) (\<lambda>p. Inr (Some p))
              | Inr _ \<Rightarrow> Inl (Errorf ''multiple JSON values'')
              | Inl e \<Rightarrow> Inl (json_go_error e))))"

subsection \<open>Validation\<close>

definition valid_bounded :: "go_string \<Rightarrow> nat \<Rightarrow> nat \<Rightarrow> bool" where
  [go_eval]: "valid_bounded s lo hi \<longleftrightarrow> valid_string s \<and> lo \<le> rune_count s \<and> rune_count s \<le> hi"

text \<open>The regular expression of \<open>amountPattern\<close>: \<open>^-?[0-9]+(\.[0-9]+)?$\<close>.\<close>

definition strip_sign :: "go_string \<Rightarrow> go_string" where
  [go_eval]: "strip_sign s = (case s of c # cs \<Rightarrow> if c = CHR ''-'' then cs else s | [] \<Rightarrow> [])"

definition matches_amount :: "go_string \<Rightarrow> bool" where
  [go_eval]: "matches_amount s \<longleftrightarrow>
     (let t = strip_sign s; r = dropWhile is_digit t
      in takeWhile is_digit t \<noteq> []
         \<and> (case r of [] \<Rightarrow> True | c # f \<Rightarrow> c = CHR ''.'' \<and> f \<noteq> [] \<and> list_all is_digit f))"

text \<open>The variadic \<open>typeSets\<close>: only the first is read, and only when it is not nil.\<close>

definition allowed_types :: "go_string set option list \<Rightarrow> go_string set" where
  [go_eval]: "allowed_types ts = (case ts of Some s # _ \<Rightarrow> s | _ \<Rightarrow> {''toll''})"

definition validate :: "transaction \<Rightarrow> go_string set option list \<Rightarrow> go_error option" where
  "validate t ts =
     (if \<not> valid_bounded (tx_source t) 1 64 then Some (Errorf ''source must be 1-64 characters'')
      else if \<not> valid_bounded (tx_source_reference t) 1 128
        then Some (Errorf ''source_reference must be 1-128 characters'')
      else if tx_type t = [] then Some (Errorf ''transaction_type must be set'')
      else if tx_type t \<notin> allowed_types ts then Some (Errorf ''unrecognized transaction_type'')
      else if is_zero_time (tx_time t) then Some (Errorf ''transaction_time_utc must be set'')
      else if t_zone (tx_time t) \<noteq> 0 then Some (Errorf ''transaction_time_utc must use UTC'')
      else if \<not> matches_amount (tx_base_amount t) then Some (Errorf ''base_amount must be a decimal string'')
      else if 8 < rune_count (tx_currency t) then Some (Errorf ''currency must be at most 8 characters'')
      else if tx_plate t = None \<and> trim_space (tx_transponder t) = []
        then Some (Errorf ''plate or transponder_number is required'')
      else if (case tx_plate t of
                 None \<Rightarrow> False
               | Some p \<Rightarrow> \<not> valid_bounded (plate_number p) 1 16 \<or> \<not> valid_bounded (plate_jurisdiction p) 1 8)
        then Some (Errorf ''plate is invalid'')
      else if 64 < rune_count (tx_transponder t) then Some (Errorf ''transponder_number is too long'')
      else
        (case canonical_object (tx_location_raw t) (tx_location t) of
           Inl e \<Rightarrow> Some (Wrap ''location must be a JSON object'' e)
         | Inr _ \<Rightarrow>
             (case canonical_object (tx_metadata_raw t) (tx_metadata t) of
                Inl e \<Rightarrow> Some (Wrap ''metadata must be a JSON object'' e)
              | Inr _ \<Rightarrow> None)))"

subsection \<open>The fingerprint\<close>

text \<open>
  The marshalled struct: members in declaration order, \<open>omitempty\<close> for the plate, the
  transponder and the two raw objects, which are compacted as they are embedded.
\<close>

definition field :: "go_string \<Rightarrow> go_string \<Rightarrow> go_string" where
  "field name v = quote_char # name @ [quote_char, CHR '':''] @ v"

definition marshal_plate :: "plate \<Rightarrow> go_string" where
  "marshal_plate p =
     ''{'' @ field ''number'' (quote_json (plate_number p)) @ '','' @
     field ''jurisdiction'' (quote_json (plate_jurisdiction p)) @ ''}''"

definition opt_field :: "go_string \<Rightarrow> go_string option \<Rightarrow> go_string" where
  "opt_field name v = (case v of None \<Rightarrow> [] | Some x \<Rightarrow> '','' @ field name x)"

definition omit_empty :: "go_string \<Rightarrow> go_string option" where
  "omit_empty s = (if s = [] then None else Some (quote_json s))"

definition embed_raw :: "raw_message \<Rightarrow> go_string option result" where
  "embed_raw r =
     (if raw_bytes r = [] then Inr None
      else (case compact_raw (raw_bytes r) of
              Inl e \<Rightarrow> Inl (json_go_error e)
            | Inr c \<Rightarrow> Inr (Some c)))"

definition fingerprint_payload :: "transaction \<Rightarrow> raw_message \<Rightarrow> raw_message \<Rightarrow> go_string result" where
  "fingerprint_payload t location metadata =
     and_then (embed_raw location) (\<lambda>loc.
     and_then (embed_raw metadata) (\<lambda>meta.
       Inr (''{'' @ field ''source'' (quote_json (tx_source t)) @
            '','' @ field ''source_reference'' (quote_json (tx_source_reference t)) @
            '','' @ field ''transaction_type'' (quote_json (tx_type t)) @
            '','' @ field ''transaction_time_utc''
                     (quote_json (format_rfc3339nano (time_utc (tx_time t)))) @
            '','' @ field ''base_amount'' (quote_json (tx_base_amount t)) @
            '','' @ field ''currency'' (quote_json (tx_currency t)) @
            opt_field ''plate'' (map_option marshal_plate (tx_plate t)) @
            opt_field ''transponder_number'' (omit_empty (tx_transponder t)) @
            opt_field ''location'' loc @ opt_field ''metadata'' meta @ ''}'')))"

definition fingerprint :: "transaction \<Rightarrow> go_string set option list \<Rightarrow> go_string result" where
  "fingerprint t ts =
     (case validate t ts of
        Some e \<Rightarrow> Inl e
      | None \<Rightarrow>
          (case canonical_object (tx_location_raw t) (tx_location t) of
             Inl e \<Rightarrow> Inl (Wrap ''canonicalize location'' e)
           | Inr location \<Rightarrow>
               (case canonical_object (tx_metadata_raw t) (tx_metadata t) of
                  Inl e \<Rightarrow> Inl (Wrap ''canonicalize metadata'' e)
                | Inr metadata \<Rightarrow>
                    (case fingerprint_payload t location metadata of
                       Inl e \<Rightarrow> Inl (Wrap ''marshal transaction fingerprint'' e)
                     | Inr payload \<Rightarrow> Inr (hex_encode (sha256 payload))))))"

subsection \<open>Facts about the parts\<close>

lemma valid_bounded_ascii: "ascii s \<Longrightarrow> valid_bounded s lo hi \<longleftrightarrow> lo \<le> length s \<and> length s \<le> hi"
  by (simp add: valid_bounded_def rune_count_ascii valid_string_ascii)

lemma canonical_object_nil [simp]: "canonical_object None None = Inr None"
  by (simp add: canonical_object_def raw_bytes_def)

lemma embed_raw_nil [simp]: "embed_raw None = Inr None"
  by (simp add: embed_raw_def raw_bytes_def)

text \<open>Without location and metadata a valid transaction always has a fingerprint.\<close>

lemma fingerprint_plain:
  assumes "validate t ts = None"
    and "tx_location t = None" "tx_metadata t = None" "tx_location_raw t = None" "tx_metadata_raw t = None"
  shows "\<exists>fp. fingerprint t ts = Inr fp"
  using assms by (simp add: fingerprint_def fingerprint_payload_def and_then_def)

subsection \<open>Facts about validation\<close>

text \<open>The shape of an amount: an optional sign, digits, and an optional fraction with digits.\<close>

lemma matches_amount_iff:
  "matches_amount s \<longleftrightarrow>
     (\<exists>sg ip fp. s = sg @ ip @ fp \<and> (sg = [] \<or> sg = ''-'') \<and> ip \<noteq> [] \<and> list_all is_digit ip
        \<and> (fp = [] \<or> (\<exists>ds. fp = CHR ''.'' # ds \<and> ds \<noteq> [] \<and> list_all is_digit ds)))"
proof
  assume m: "matches_amount s"
  let ?t = "strip_sign s"
  have "\<exists>sg. s = sg @ ?t \<and> (sg = [] \<or> sg = ''-'')"
    by (cases s) (auto simp: strip_sign_def)
  then obtain sg where sg: "s = sg @ ?t" "sg = [] \<or> sg = ''-''" by blast
  let ?ip = "takeWhile is_digit ?t" and ?fp = "dropWhile is_digit ?t"
  from sg have "s = sg @ ?ip @ ?fp" by simp
  moreover have "list_all is_digit ?ip" using set_takeWhileD [of _ is_digit ?t] by (auto simp: list_all_iff)
  moreover from m have "?ip \<noteq> []" "?fp = [] \<or> (\<exists>ds. ?fp = CHR ''.'' # ds \<and> ds \<noteq> [] \<and> list_all is_digit ds)"
    by (auto simp: matches_amount_def Let_def split: list.splits)
  ultimately show "\<exists>sg ip fp. s = sg @ ip @ fp \<and> (sg = [] \<or> sg = ''-'') \<and> ip \<noteq> [] \<and> list_all is_digit ip
        \<and> (fp = [] \<or> (\<exists>ds. fp = CHR ''.'' # ds \<and> ds \<noteq> [] \<and> list_all is_digit ds))"
    using sg(2) by blast
next
  assume "\<exists>sg ip fp. s = sg @ ip @ fp \<and> (sg = [] \<or> sg = ''-'') \<and> ip \<noteq> [] \<and> list_all is_digit ip
        \<and> (fp = [] \<or> (\<exists>ds. fp = CHR ''.'' # ds \<and> ds \<noteq> [] \<and> list_all is_digit ds))"
  then obtain sg ip fp where s: "s = sg @ ip @ fp" "sg = [] \<or> sg = ''-''" "ip \<noteq> []" "list_all is_digit ip"
    and fp: "fp = [] \<or> (\<exists>ds. fp = CHR ''.'' # ds \<and> ds \<noteq> [] \<and> list_all is_digit ds)" by blast
  have dash: "\<not> is_digit CHR ''-''" and dot: "\<not> is_digit CHR ''.''" by (simp_all add: is_digit_def)
  from s have t: "strip_sign s = ip @ fp"
    using dash by (cases ip) (auto simp: strip_sign_def)
  have "takeWhile is_digit (ip @ fp) = ip \<and> dropWhile is_digit (ip @ fp) = fp"
    using s(4) fp dot by (auto simp: list_all_iff)
  with s(3) t fp show "matches_amount s"
    by (auto simp: matches_amount_def)
qed

lemma validateD:
  assumes "validate t ts = None"
  shows "valid_bounded (tx_source t) 1 64" "valid_bounded (tx_source_reference t) 1 128"
    "tx_type t \<noteq> []" "tx_type t \<in> allowed_types ts" "\<not> is_zero_time (tx_time t)" "t_zone (tx_time t) = 0"
    "matches_amount (tx_base_amount t)" "rune_count (tx_currency t) \<le> 8"
    "tx_plate t \<noteq> None \<or> trim_space (tx_transponder t) \<noteq> []"
    "\<forall>p. tx_plate t = Some p \<longrightarrow>
       valid_bounded (plate_number p) 1 16 \<and> valid_bounded (plate_jurisdiction p) 1 8"
    "rune_count (tx_transponder t) \<le> 64"
    "\<exists>l. canonical_object (tx_location_raw t) (tx_location t) = Inr l"
    "\<exists>m. canonical_object (tx_metadata_raw t) (tx_metadata t) = Inr m"
  using assms unfolding validate_def by (auto split: if_splits option.splits sum.splits)

lemma validate_None_iff:
  "validate t ts = None \<longleftrightarrow>
     valid_bounded (tx_source t) 1 64 \<and> valid_bounded (tx_source_reference t) 1 128
     \<and> tx_type t \<noteq> [] \<and> tx_type t \<in> allowed_types ts
     \<and> \<not> is_zero_time (tx_time t) \<and> t_zone (tx_time t) = 0
     \<and> matches_amount (tx_base_amount t) \<and> rune_count (tx_currency t) \<le> 8
     \<and> (tx_plate t \<noteq> None \<or> trim_space (tx_transponder t) \<noteq> [])
     \<and> (\<forall>p. tx_plate t = Some p \<longrightarrow>
          valid_bounded (plate_number p) 1 16 \<and> valid_bounded (plate_jurisdiction p) 1 8)
     \<and> rune_count (tx_transponder t) \<le> 64
     \<and> (\<exists>l. canonical_object (tx_location_raw t) (tx_location t) = Inr l)
     \<and> (\<exists>m. canonical_object (tx_metadata_raw t) (tx_metadata t) = Inr m)"
  (is "_ \<longleftrightarrow> ?R")
proof
  assume "validate t ts = None"
  from validateD [OF this] show ?R by blast
next
  assume ?R
  then show "validate t ts = None"
    by (auto simp: validate_def not_less split: option.split)
qed

end
