(* ===== verification/Intake.thy ===== *)
theory Intake
  imports Domain
begin

text \<open>
  \<open>internal/transaction/app/intake.go\<close>: the intake service. A store is a function on an
  abstract store state; \<open>new_id\<close> gives the value of each call of \<open>newID\<close> in the order of the
  calls, \<open>now\<close> the value of the call of the clock and \<open>ctx\<close> the request's context.
\<close>

subsection \<open>Data\<close>

text \<open>What \<open>ctx.Err()\<close> returns.\<close>

type_synonym go_context = "go_error option"

definition review_candidate_event_type :: go_string where
  "review_candidate_event_type = ''transaction.review-candidate''"

datatype store_outcome_kind = StoreAccepted | StoreReplay | StoreConflict | StoreOther go_string

datatype result_kind = Accepted | Replayed

record outbox_event =
  ev_id :: go_string
  ev_type :: go_string
  ev_schema_version :: int
  ev_occurred_at :: gotime
  ev_correlation_id :: go_string
  ev_source :: go_string
  ev_source_reference :: go_string
  ev_transaction_id :: go_string
  ev_key :: go_string
  ev_payload :: transaction

record acceptance =
  acc_transaction :: transaction
  acc_fingerprint :: go_string
  acc_event :: outbox_event

record store_outcome =
  so_kind :: store_outcome_kind
  so_transaction_id :: go_string
  so_event_id :: go_string

record accept_command =
  cmd_transaction :: transaction
  cmd_correlation_id :: go_string

record accept_result =
  res_kind :: result_kind
  res_id :: go_string
  res_event_id :: go_string

type_synonym 's accept_fn = "go_context \<Rightarrow> acceptance \<Rightarrow> 's \<Rightarrow> store_outcome result \<times> 's"

record intake_service =
  svc_allowed_types :: "go_string set"

definition new_intake_service :: "go_string set option list \<Rightarrow> intake_service" where
  "new_intake_service ts = \<lparr>svc_allowed_types = allowed_types ts\<rparr>"

subsection \<open>Acceptance\<close>

definition identity_key :: "transaction \<Rightarrow> go_string" where
  "identity_key t = tx_source t @ '':'' @ tx_source_reference t"

text \<open>
  The acceptance the service hands to the store: the event identifier is the first call of
  \<open>newID\<close>, a missing transaction identifier the second.
\<close>

definition build_acceptance ::
  "(nat \<Rightarrow> go_string) \<Rightarrow> gotime \<Rightarrow> accept_command \<Rightarrow> go_string \<Rightarrow> acceptance" where
  "build_acceptance new_id now cmd fp =
     (let t0 = cmd_transaction cmd;
          t = (if tx_id t0 = [] then t0\<lparr>tx_id := new_id 1\<rparr> else t0)
      in \<lparr>acc_transaction = t, acc_fingerprint = fp,
          acc_event =
            \<lparr>ev_id = new_id 0, ev_type = review_candidate_event_type, ev_schema_version = 1,
             ev_occurred_at = time_utc now, ev_correlation_id = cmd_correlation_id cmd,
             ev_source = tx_source t, ev_source_reference = tx_source_reference t,
             ev_transaction_id = tx_id t, ev_key = identity_key t, ev_payload = t\<rparr>\<rparr>)"

definition interpret_outcome :: "acceptance \<Rightarrow> store_outcome \<Rightarrow> accept_result result" where
  "interpret_outcome a out =
     (case so_kind out of
        StoreAccepted \<Rightarrow>
          Inr \<lparr>res_kind = Accepted, res_id = tx_id (acc_transaction a), res_event_id = so_event_id out\<rparr>
      | StoreReplay \<Rightarrow>
          (if so_transaction_id out = [] then Inl (Errorf ''replay outcome is missing transaction ID'')
           else Inr \<lparr>res_kind = Replayed, res_id = so_transaction_id out, res_event_id = so_event_id out\<rparr>)
      | StoreConflict \<Rightarrow> Inl ErrConflict
      | StoreOther k \<Rightarrow> Inl (Errorq ''unknown store outcome %q'' k))"

definition intake_accept ::
  "intake_service \<Rightarrow> 's accept_fn \<Rightarrow> (nat \<Rightarrow> go_string) \<Rightarrow> gotime \<Rightarrow> go_context \<Rightarrow> accept_command \<Rightarrow> 's
     \<Rightarrow> accept_result result \<times> 's" where
  "intake_accept svc store_accept new_id now ctx cmd s =
     (case validate (cmd_transaction cmd) [Some (svc_allowed_types svc)] of
        Some e \<Rightarrow> (Inl (WrapDetail ErrInvalidTransaction e), s)
      | None \<Rightarrow>
          (case fingerprint (cmd_transaction cmd) [Some (svc_allowed_types svc)] of
             Inl e \<Rightarrow> (Inl (WrapDetail ErrInvalidTransaction e), s)
           | Inr fp \<Rightarrow>
               (let a = build_acceptance new_id now cmd fp in
                case store_accept ctx a s of
                  (Inl e, s') \<Rightarrow> (Inl (Wrap ''accept transaction'' e), s')
                | (Inr out, s') \<Rightarrow> (interpret_outcome a out, s'))))"

subsection \<open>Facts\<close>

lemma build_acceptance_simps [simp]:
  "acc_fingerprint (build_acceptance new_id now cmd fp) = fp"
  "ev_id (acc_event (build_acceptance new_id now cmd fp)) = new_id 0"
  "tx_source (acc_transaction (build_acceptance new_id now cmd fp)) = tx_source (cmd_transaction cmd)"
  "tx_source_reference (acc_transaction (build_acceptance new_id now cmd fp))
     = tx_source_reference (cmd_transaction cmd)"
  "tx_id (acc_transaction (build_acceptance new_id now cmd fp))
     = (if tx_id (cmd_transaction cmd) = [] then new_id 1 else tx_id (cmd_transaction cmd))"
  "ev_payload (acc_event (build_acceptance new_id now cmd fp))
     = acc_transaction (build_acceptance new_id now cmd fp)"
  "ev_transaction_id (acc_event (build_acceptance new_id now cmd fp))
     = tx_id (acc_transaction (build_acceptance new_id now cmd fp))"
  "ev_key (acc_event (build_acceptance new_id now cmd fp)) = identity_key (cmd_transaction cmd)"
  "identity_key (acc_transaction (build_acceptance new_id now cmd fp)) = identity_key (cmd_transaction cmd)"
  by (simp_all add: build_acceptance_def Let_def identity_key_def)

text \<open>An invalid transaction never reaches the store.\<close>

lemma intake_accept_invalid:
  "validate (cmd_transaction cmd) [Some (svc_allowed_types svc)] = Some e \<Longrightarrow>
     intake_accept svc sa new_id now ctx cmd s = (Inl (WrapDetail ErrInvalidTransaction e), s)"
  by (simp add: intake_accept_def)

lemma intake_accept_valid:
  assumes "fingerprint (cmd_transaction cmd) [Some (svc_allowed_types svc)] = Inr fp"
  shows "intake_accept svc sa new_id now ctx cmd s =
     (let a = build_acceptance new_id now cmd fp in
      case sa ctx a s of
        (Inl e, s') \<Rightarrow> (Inl (Wrap ''accept transaction'' e), s')
      | (Inr out, s') \<Rightarrow> (interpret_outcome a out, s'))"
proof -
  from assms have "validate (cmd_transaction cmd) [Some (svc_allowed_types svc)] = None"
    by (auto simp: fingerprint_def split: option.splits)
  with assms show ?thesis by (simp add: intake_accept_def)
qed

end
