(* ===== verification/Config.thy ===== *)
theory Config
  imports GoStrconv StructCodec Intake
begin

text \<open>
  \<open>internal/bootstrap\<close>: the configuration (\<open>config.go\<close>), the secret providers and their overlay
  (\<open>secrets/file.go\<close>, \<open>secrets/aws.go\<close>), the server's limits (\<open>server.go\<close>) and UUIDs (\<open>id.go\<close>).
  A lookup of settings is a total function that returns the empty string for what is not set. The
  file system, the secrets service and the entropy source are parameters.
\<close>

type_synonym lookup = "go_string \<Rightarrow> go_string"

subsection \<open>Modes\<close>

datatype mode = ModeAPI | ModeWorker | ModeLocal

definition parse_mode :: "go_string \<Rightarrow> mode result" where
  "parse_mode s =
     (if s = ''api'' then Inr ModeAPI else if s = ''worker'' then Inr ModeWorker
      else if s = ''local'' then Inr ModeLocal else Inl (Errorq ''unsupported mode %q'' s))"

definition mode_text :: "mode \<Rightarrow> go_string" where
  "mode_text m = (case m of ModeAPI \<Rightarrow> ''api'' | ModeWorker \<Rightarrow> ''worker'' | ModeLocal \<Rightarrow> ''local'')"

lemma parse_mode_text: "parse_mode s = Inr m \<longleftrightarrow> s = mode_text m"
  by (cases m) (auto simp: parse_mode_def mode_text_def)

subsection \<open>Configuration\<close>

record config =
  cf_address :: go_string
  cf_partner_id :: go_string
  cf_api_key :: go_string
  cf_auth_mode :: go_string
  cf_default_currency :: go_string
  cf_transaction_types :: "go_string set"
  cf_kafka_brokers :: "go_string list"
  cf_kafka_topic :: go_string
  cf_kafka_tls :: bool
  cf_kafka_ca_file :: go_string
  cf_kafka_sasl_username :: go_string
  cf_kafka_sasl_password :: go_string
  cf_store_driver :: go_string
  cf_store_path :: go_string
  cf_postgres_url :: go_string
  cf_dynamo_endpoint :: go_string
  cf_dynamo_region :: go_string
  cf_dynamo_table :: go_string

definition default_to :: "go_string \<Rightarrow> go_string \<Rightarrow> go_string" where
  "default_to d s = (if s = [] then d else s)"

text \<open>\<open>strings.Split\<close> at commas, each item trimmed, empty items dropped.\<close>

definition comma_items :: "go_string \<Rightarrow> go_string list" where
  "comma_items s = filter (\<lambda>x. x \<noteq> []) (map trim_space (split_on CHR '','' s))"

text \<open>The settings with their defaults, and the first check that fails.\<close>

definition configured_types :: "lookup \<Rightarrow> go_string set" where
  "configured_types lookup =
     (let items = comma_items (lookup ''TRANSACTION_TYPES'') in if items = [] then {''toll''} else set items)"

definition configured_brokers :: "lookup \<Rightarrow> go_string list" where
  "configured_brokers lookup = comma_items (default_to ''localhost:9092'' (lookup ''KAFKA_BROKERS''))"

definition config_of :: "lookup \<Rightarrow> config" where
  "config_of lookup =
     \<lparr>cf_address = default_to '':8080'' (lookup ''HTTP_ADDRESS''),
      cf_partner_id = lookup ''PARTNER_ID'', cf_api_key = lookup ''API_KEY'',
      cf_auth_mode = default_to ''disabled'' (lookup ''AUTH_MODE''),
      cf_default_currency = default_to ''USD'' (lookup ''DEFAULT_CURRENCY''),
      cf_transaction_types = configured_types lookup, cf_kafka_brokers = configured_brokers lookup,
      cf_kafka_topic = default_to ''transaction.review-candidates.v1'' (lookup ''KAFKA_TOPIC''),
      cf_kafka_tls = (parse_bool (lookup ''KAFKA_TLS'') = Some True),
      cf_kafka_ca_file = lookup ''KAFKA_CA_FILE'',
      cf_kafka_sasl_username = lookup ''KAFKA_SASL_USERNAME'',
      cf_kafka_sasl_password = lookup ''KAFKA_SASL_PASSWORD'',
      cf_store_driver = default_to ''memory'' (lookup ''STORE_DRIVER''),
      cf_store_path = default_to ''.local/data/transactions.ndjson'' (lookup ''STORE_PATH''),
      cf_postgres_url = lookup ''POSTGRES_URL'',
      cf_dynamo_endpoint = lookup ''DYNAMODB_ENDPOINT'',
      cf_dynamo_region = default_to ''us-west-2'' (lookup ''AWS_REGION''),
      cf_dynamo_table = default_to ''transaction-intake'' (lookup ''DYNAMODB_TABLE'')\<rparr>"

definition config_error :: "lookup \<Rightarrow> config \<Rightarrow> go_error option" where
  "config_error lookup c =
     (if cf_auth_mode c \<noteq> ''disabled'' \<and> cf_auth_mode c \<noteq> ''api_key''
        then Some (Errorf ''AUTH_MODE must be disabled or api_key'')
      else if cf_auth_mode c = ''api_key'' \<and> (cf_partner_id c = [] \<or> cf_api_key c = [])
        then Some (Errorf ''PARTNER_ID and API_KEY are required when AUTH_MODE=api_key'')
      else if \<not> valid_string (cf_default_currency c) \<or> 8 < rune_count (cf_default_currency c)
        then Some (Errorf ''DEFAULT_CURRENCY must be at most 8 characters'')
      else if cf_kafka_brokers c = [] then Some (Errorf ''KAFKA_BROKERS must contain at least one broker'')
      else if cf_store_driver c \<notin> {''memory'', ''ndjson'', ''dynamodb'', ''postgres''}
        then Some (Errorf ''STORE_DRIVER must be memory, ndjson, dynamodb, or postgres'')
      else if cf_store_driver c = ''postgres'' \<and> cf_postgres_url c = []
        then Some (Errorf ''POSTGRES_URL is required for postgres storage'')
      else if lookup ''KAFKA_TLS'' \<noteq> [] \<and> parse_bool (lookup ''KAFKA_TLS'') = None
        then Some (Wrap ''KAFKA_TLS must be a boolean'' (External ''strconv.ParseBool: invalid syntax''))
      else None)"

definition load_config :: "lookup \<Rightarrow> config result" where
  "load_config lookup =
     (case config_error lookup (config_of lookup) of Some e \<Rightarrow> Inl e | None \<Rightarrow> Inr (config_of lookup))"

text \<open>\<open>Config.String\<close>, what is logged of a configuration.\<close>

definition join_comma :: "go_string list \<Rightarrow> go_string" where
  "join_comma xs = (case xs of [] \<Rightarrow> [] | y # ys \<Rightarrow> y @ concat (map (\<lambda>z. '','' @ z) ys))"

definition bool_text :: "bool \<Rightarrow> go_string" where
  "bool_text b = (if b then ''true'' else ''false'')"

definition config_string :: "config \<Rightarrow> go_string" where
  "config_string c =
     ''address='' @ cf_address c @ '' partner='' @ cf_partner_id c @ '' store_driver='' @ cf_store_driver c
     @ '' kafka_brokers='' @ join_comma (cf_kafka_brokers c) @ '' kafka_topic='' @ cf_kafka_topic c
     @ '' kafka_tls='' @ bool_text (cf_kafka_tls c)
     @ '' kafka_sasl='' @ bool_text (cf_kafka_sasl_username c \<noteq> [])"

subsection \<open>Secrets\<close>

definition max_file_bytes :: nat where
  "max_file_bytes = 64 * 1024"

text \<open>\<open>json.Unmarshal\<close> into a \<open>map[string]string\<close>: a null value is the empty string.\<close>

fun set_string_members :: "(go_string \<times> go_string) list \<Rightarrow> (go_string \<times> go_string) list
    \<Rightarrow> decode_error + (go_string \<times> go_string) list" where
  "set_string_members [] m = Inr m"
| "set_string_members ((k, raw) # ms) m =
     and_then (string_setter [] raw) (\<lambda>v. set_string_members ms (put_sorted k v m))"

definition unmarshal_string_map :: "go_string \<Rightarrow> decode_error + (go_string \<times> go_string) list" where
  "unmarshal_string_map s =
     and_then (parse_whole s) (\<lambda>v.
       case v of
         JNull \<Rightarrow> Inr []
       | JObject [] \<Rightarrow> Inr []
       | JObject _ \<Rightarrow> and_then (object_members s) (\<lambda>ms. set_string_members ms [])
       | _ \<Rightarrow> Inl DecodeType)"

definition blank_entry :: "(go_string \<times> go_string) list \<Rightarrow> bool" where
  "blank_entry m \<longleftrightarrow> (\<exists>(k, v) \<in> set m. trim_space k = [] \<or> v = [])"

text \<open>\<open>opened\<close> is what opening and reading the file gives: its bytes, or the error of either step.\<close>

datatype file_contents = OpenFailed go_error | ReadFails go_error | Contents go_string

definition file_provider_load :: "(go_string \<Rightarrow> file_contents) \<Rightarrow> go_string \<Rightarrow> go_context
    \<Rightarrow> (go_string \<times> go_string) list result" where
  "file_provider_load opened path ctx =
     (case ctx of
        Some e \<Rightarrow> Inl (Wrap ''load local secret file'' e)
      | None \<Rightarrow>
          (case opened path of
             OpenFailed e \<Rightarrow> Inl (Wrap ''open local secret file'' e)
           | ReadFails e \<Rightarrow> Inl (Wrap ''read local secret file'' e)
           | Contents b \<Rightarrow>
               (let payload = take (max_file_bytes + 1) b in
                if max_file_bytes < length payload then Inl (Errorf ''local secret file exceeds 65536 bytes'')
                else (case unmarshal_string_map payload of
                        Inl _ \<Rightarrow> Inl (Errorf ''decode local secret file: invalid JSON'')
                      | Inr m \<Rightarrow>
                          if m = [] then Inl (Errorf ''local secret file contains no values'')
                          else if blank_entry m
                            then Inl (Errorf ''local secret file contains an empty key or value'')
                          else Inr m))))"

text \<open>The answers of \<open>GetSecretValue\<close>: an error, or a response that may be nil.\<close>

record secret_output =
  sec_string :: "go_string option"
  sec_binary :: go_string

datatype secret_error = SecretResourceNotFound | SecretOtherError

definition aws_provider_load ::
  "(go_string \<Rightarrow> secret_error + secret_output option) \<Rightarrow> go_string \<Rightarrow> go_context
     \<Rightarrow> (go_string \<times> go_string) list result" where
  "aws_provider_load get_secret_value secret_id ctx =
     (case ctx of
        Some e \<Rightarrow> Inl (Wrap ''load AWS secret'' e)
      | None \<Rightarrow>
          (case get_secret_value secret_id of
             Inl SecretResourceNotFound \<Rightarrow> Inl (Wrap ''load AWS secret'' ErrSecretNotFound)
           | Inl SecretOtherError \<Rightarrow> Inl (Errorf ''load AWS secret: provider unavailable'')
           | Inr None \<Rightarrow> Inl (Errorf ''load AWS secret: empty response'')
           | Inr (Some out) \<Rightarrow>
               (let payload = (case sec_string out of None \<Rightarrow> sec_binary out | Some s \<Rightarrow> s) in
                if payload = [] then Inl (Errorf ''load AWS secret: empty response'')
                else if max_file_bytes < length payload
                  then Inl (Errorf ''load AWS secret: payload exceeds 65536 bytes'')
                else (case unmarshal_string_map payload of
                        Inl _ \<Rightarrow> Inl (Errorf ''load AWS secret: invalid JSON'')
                      | Inr m \<Rightarrow>
                          if m = [] then Inl (Errorf ''load AWS secret: no values'')
                          else if blank_entry m then Inl (Errorf ''load AWS secret: empty key or value'')
                          else Inr m))))"

definition overlay :: "lookup \<Rightarrow> (go_string \<times> go_string) list \<Rightarrow> lookup" where
  "overlay base values key =
     (if base key \<noteq> [] then base key else (case map_of values key of None \<Rightarrow> [] | Some v \<Rightarrow> v))"

subsection \<open>Server limits and UUIDs\<close>

record http_server =
  hs_address :: go_string
  hs_read_header_timeout :: duration
  hs_read_timeout :: duration
  hs_write_timeout :: duration
  hs_idle_timeout :: duration
  hs_max_header_bytes :: nat

definition new_http_server :: "go_string \<Rightarrow> http_server" where
  "new_http_server address =
     \<lparr>hs_address = address, hs_read_header_timeout = seconds_dur 5, hs_read_timeout = seconds_dur 10,
      hs_write_timeout = seconds_dur 15, hs_idle_timeout = seconds_dur 60, hs_max_header_bytes = 16 * 1024\<rparr>"

definition uuid_bytes :: "nat list \<Rightarrow> nat list" where
  "uuid_bytes v = v[6 := v ! 6 mod 16 + 64, 8 := v ! 8 mod 64 + 128]"

definition uuid_text :: "nat list \<Rightarrow> go_string" where
  "uuid_text v =
     (let h = concat (map hex_byte v)
      in take 8 h @ ''-'' @ take 4 (drop 8 h) @ ''-'' @ take 4 (drop 12 h) @ ''-'' @ take 4 (drop 16 h)
         @ ''-'' @ take 12 (drop 20 h))"

text \<open>\<open>entropy\<close> is the result of reading sixteen bytes from \<open>rand.Reader\<close>.\<close>

definition new_uuid :: "go_error + nat list \<Rightarrow> go_string result" where
  "new_uuid entropy =
     (case entropy of
        Inl e \<Rightarrow> Inl (Wrap ''generate UUID entropy'' e)
      | Inr v \<Rightarrow> Inr (uuid_text (uuid_bytes v)))"

subsection \<open>Facts\<close>

lemma comma_items_nonempty: "x \<in> set (comma_items s) \<Longrightarrow> x \<noteq> []"
  by (simp add: comma_items_def)

text \<open>What a loaded configuration guarantees to the components it is handed to.\<close>

lemma load_config_Inr: "load_config lookup = Inr c \<longleftrightarrow> config_error lookup c = None \<and> c = config_of lookup"
  by (auto simp: load_config_def split: option.splits)

lemma config_error_None:
  assumes "config_error lookup c = None"
  shows "cf_auth_mode c = ''disabled'' \<or> cf_auth_mode c = ''api_key'' \<and> cf_partner_id c \<noteq> [] \<and> cf_api_key c \<noteq> []"
    and "valid_string (cf_default_currency c)" "rune_count (cf_default_currency c) \<le> 8"
    and "cf_kafka_brokers c \<noteq> []"
    and "cf_store_driver c \<in> {''memory'', ''ndjson'', ''dynamodb'', ''postgres''}"
    and "cf_store_driver c = ''postgres'' \<Longrightarrow> cf_postgres_url c \<noteq> []"
  using assms unfolding config_error_def by (simp_all split: if_splits) blast

lemma configured_types_ok: "configured_types lookup \<noteq> {} \<and> [] \<notin> configured_types lookup"
  using comma_items_nonempty by (auto simp: configured_types_def Let_def)

lemma config_of_simps:
  "cf_transaction_types (config_of lookup) = configured_types lookup"
  "cf_default_currency (config_of lookup) = default_to ''USD'' (lookup ''DEFAULT_CURRENCY'')"
  "cf_kafka_topic (config_of lookup) = default_to ''transaction.review-candidates.v1'' (lookup ''KAFKA_TOPIC'')"
  "cf_kafka_brokers (config_of lookup) = configured_brokers lookup"
  "cf_store_path (config_of lookup) = default_to ''.local/data/transactions.ndjson'' (lookup ''STORE_PATH'')"
  by (simp_all add: config_of_def)

lemma default_to_nonempty: "d \<noteq> [] \<Longrightarrow> default_to d s \<noteq> []"
  by (simp add: default_to_def)

text \<open>An explicit setting always wins over a secret.\<close>

lemma overlay_explicit: "base k \<noteq> [] \<Longrightarrow> overlay base values k = base k"
  by (simp add: overlay_def)

end
