(* ===== verification/Outbox.thy ===== *)
theory Outbox
  imports Intake
begin

text \<open>
  \<open>internal/transaction/app/outbox.go\<close>: the dispatcher that publishes pending events, and its
  retry delays. The store's operations and the publisher are functions on a state \<open>'w\<close> that
  holds whatever they share; the dispatcher reads its clock once per batch.

  Attempts are Go \<open>int\<close>s far from their bounds and are \<open>int\<close> here. Delays are 64-bit
  durations, so doubling wraps as it does in Go.
\<close>

subsection \<open>Data\<close>

record pending_event =
  pe_event :: outbox_event
  pe_attempts :: int
  pe_claim_token :: go_string

record publish_failure =
  pf_event_id :: go_string
  pf_claim_token :: go_string
  pf_attempts :: int
  pf_retry_at :: gotime
  pf_terminal :: bool
  pf_reason :: go_string

record dispatcher_config =
  cfg_lease :: duration
  cfg_batch_size :: int
  cfg_max_attempts :: int
  cfg_base_delay :: duration
  cfg_max_delay :: duration

definition default_dispatcher_config :: dispatcher_config where
  "default_dispatcher_config =
     \<lparr>cfg_lease = seconds_dur 30, cfg_batch_size = 10, cfg_max_attempts = 5,
      cfg_base_delay = seconds_dur 1, cfg_max_delay = seconds_dur 60\<rparr>"

record dispatch_result =
  dr_claimed :: nat
  dr_published :: nat
  dr_failed :: nat

type_synonym 'w claim_fn =
  "go_context \<Rightarrow> (nat \<Rightarrow> go_string) \<Rightarrow> gotime \<Rightarrow> duration \<Rightarrow> int \<Rightarrow> 'w \<Rightarrow> pending_event list result \<times> 'w"
type_synonym 'w mark_fn = "go_context \<Rightarrow> go_string \<Rightarrow> go_string \<Rightarrow> gotime \<Rightarrow> 'w \<Rightarrow> go_error option \<times> 'w"
type_synonym 'w fail_fn = "go_context \<Rightarrow> publish_failure \<Rightarrow> 'w \<Rightarrow> go_error option \<times> 'w"
type_synonym 'w publish_fn = "go_context \<Rightarrow> outbox_event \<Rightarrow> 'w \<Rightarrow> go_error option \<times> 'w"

subsection \<open>Retry delays\<close>

text \<open>The loop of \<open>retryDelay\<close> from \<open>current\<close> on; comparisons are signed.\<close>

function retry_loop :: "dispatcher_config \<Rightarrow> int \<Rightarrow> int \<Rightarrow> duration \<Rightarrow> duration" where
  "retry_loop cfg attempt current delay =
     (if current < attempt \<and> delay <s cfg_max_delay cfg then
        (let delay' = delay * 2 in
         if cfg_max_delay cfg <s delay' then cfg_max_delay cfg
         else retry_loop cfg attempt (current + 1) delay')
      else delay)"
  by pat_completeness auto
termination
  by (relation "measure (\<lambda>(cfg, attempt, current, delay). nat (attempt - current))") auto

declare retry_loop.simps [simp del]

definition retry_delay :: "dispatcher_config \<Rightarrow> int \<Rightarrow> duration" where
  "retry_delay cfg attempt = retry_loop cfg attempt 1 (cfg_base_delay cfg)"

text \<open>Doubling a duration below 2^62 nanoseconds is exact.\<close>

lemma sint_double:
  assumes "0 \<le> sint d" "sint d < 2 ^ 62"
  shows "sint (d * 2 :: duration) = 2 * sint d"
proof -
  have "sint (d * 2) = signed_take_bit 63 (sint d * 2)"
    by (simp add: sint_word_ariths)
  also have "\<dots> = sint d * 2"
    using assms by (simp add: signed_take_bit_int_eq_self_iff)
  finally show ?thesis by simp
qed

lemma min_double_step:
  fixes a m :: int
  assumes "0 < a" "m \<le> a * 2 ^ k"
  shows "m \<le> a * 2 ^ (k + j)"
proof -
  have "a * 2 ^ k * 1 \<le> a * 2 ^ k * 2 ^ j" using assms(1) by (intro mult_left_mono) auto
  with assms(2) show ?thesis by (simp add: power_add mult.assoc)
qed

lemma retry_loop_exact:
  assumes "sint (cfg_max_delay cfg) \<le> 2 ^ 62" "0 < sint delay" "sint delay \<le> sint (cfg_max_delay cfg)"
    and "current \<le> attempt"
  shows "sint (retry_loop cfg attempt current delay)
           = min (sint (cfg_max_delay cfg)) (sint delay * 2 ^ nat (attempt - current))"
  using assms
proof (induction cfg attempt current delay rule: retry_loop.induct)
  case (1 cfg attempt current delay)
  let ?m = "sint (cfg_max_delay cfg)" and ?d = "sint delay"
  show ?case
  proof (cases "current < attempt \<and> delay <s cfg_max_delay cfg")
    case False
    then consider "current = attempt" | "?d = ?m"
      using "1.prems" by (auto simp: word_sless_alt)
    then show ?thesis
    proof cases
      case 1
      with "1.prems"(3) show ?thesis by (simp add: retry_loop.simps)
    next
      case 2
      with "1.prems"(2) have "?m \<le> ?d * 2 ^ (0 + nat (attempt - current))"
        by (intro min_double_step) simp_all
      with False 2 show ?thesis by (subst retry_loop.simps) auto
    qed
  next
    case True
    then have d: "?d < ?m" "current < attempt" by (auto simp: word_sless_alt)
    have dbl: "sint (delay * 2) = 2 * ?d"
      by (rule sint_double) (use "1.prems" d in auto)
    obtain k where k: "nat (attempt - current) = 1 + k" "nat (attempt - (current + 1)) = k"
      using d(2) by (intro that [of "nat (attempt - current - 1)"]) auto
    show ?thesis
    proof (cases "cfg_max_delay cfg <s delay * 2")
      case big: True
      then have "?m \<le> ?d * 2 ^ (1 + k)"
        using "1.prems"(2) dbl by (intro min_double_step) (auto simp: word_sless_alt)
      with True big k show ?thesis by (subst retry_loop.simps) simp
    next
      case small: False
      with dbl have "2 * ?d \<le> ?m" by (simp add: word_sless_alt)
      with "1.IH" [OF True refl small] "1.prems" d dbl k True small show ?thesis
        by (subst retry_loop.simps) (simp add: mult.commute mult.left_commute)
    qed
  qed
qed
text \<open>
  C11: with a positive base delay, a maximal delay of at least the base delay and at most
  \<open>2^62\<close> nanoseconds, the delay before attempt \<open>n + 1\<close> is the base delay doubled \<open>n - 1\<close> times and
  capped at the maximum; no doubling wraps around.
\<close>

theorem retry_delay_exact:
  assumes "0 < sint (cfg_base_delay cfg)" "sint (cfg_base_delay cfg) \<le> sint (cfg_max_delay cfg)"
    and "sint (cfg_max_delay cfg) \<le> 2 ^ 62" "1 \<le> attempt"
  shows "sint (retry_delay cfg attempt)
           = min (sint (cfg_max_delay cfg)) (sint (cfg_base_delay cfg) * 2 ^ nat (attempt - 1))"
  unfolding retry_delay_def using assms by (intro retry_loop_exact) auto

theorem retry_delay_exact_witness:
  "sint (retry_delay default_dispatcher_config 4) = 8000000000
   \<and> sint (retry_delay default_dispatcher_config 9) = 60000000000"
  using retry_delay_exact [of default_dispatcher_config 4] retry_delay_exact [of default_dispatcher_config 9]
  by (simp add: default_dispatcher_config_def go_eval)

text \<open>A base delay that is not below the maximal delay is used as it is: the cap applies to doubled delays only.\<close>

lemma retry_delay_over_max:
  assumes "\<not> cfg_base_delay cfg <s cfg_max_delay cfg"
  shows "retry_delay cfg attempt = cfg_base_delay cfg"
  using assms by (simp add: retry_delay_def retry_loop.simps)


subsection \<open>One batch\<close>

definition make_failure :: "dispatcher_config \<Rightarrow> gotime \<Rightarrow> pending_event \<Rightarrow> publish_failure" where
  "make_failure cfg now p =
     (let attempts = pe_attempts p + 1;
          terminal = (cfg_max_attempts cfg \<le> attempts)
      in \<lparr>pf_event_id = ev_id (pe_event p), pf_claim_token = pe_claim_token p,
          pf_attempts = attempts,
          pf_retry_at = (if terminal then zero_time else time_add now (retry_delay cfg attempts)),
          pf_terminal = terminal, pf_reason = ''publish_failed''\<rparr>)"

text \<open>
  The body of the loop over the claimed events. The context can end during a batch: \<open>ctxs i\<close> is
  what \<open>ctx.Err()\<close> returns at the \<open>i\<close>-th call of the batch that receives the context.
\<close>

definition dispatch_one ::
  "'w mark_fn \<Rightarrow> 'w fail_fn \<Rightarrow> 'w publish_fn \<Rightarrow> dispatcher_config \<Rightarrow> (nat \<Rightarrow> go_context) \<Rightarrow> nat \<Rightarrow> gotime
     \<Rightarrow> pending_event \<Rightarrow> dispatch_result \<Rightarrow> 'w \<Rightarrow> (go_error option \<times> dispatch_result) \<times> 'w" where
  "dispatch_one mark record_failure publish cfg ctxs i now p r w =
     (case publish (ctxs i) (pe_event p) w of
        (None, w1) \<Rightarrow>
          (case mark (ctxs (i + 1)) (ev_id (pe_event p)) (pe_claim_token p) now w1 of
             (Some e, w2) \<Rightarrow> ((Some (Wrap (''mark event '' @ ev_id (pe_event p) @ '' published'') e), r), w2)
           | (None, w2) \<Rightarrow> ((None, r\<lparr>dr_published := dr_published r + 1\<rparr>), w2))
      | (Some _, w1) \<Rightarrow>
          (case record_failure (ctxs (i + 1)) (make_failure cfg now p) w1 of
             (Some e, w2) \<Rightarrow> ((Some (Wrap (''record event '' @ ev_id (pe_event p) @ '' failure'') e), r), w2)
           | (None, w2) \<Rightarrow> ((None, r\<lparr>dr_failed := dr_failed r + 1\<rparr>), w2)))"

fun dispatch_all ::
  "'w mark_fn \<Rightarrow> 'w fail_fn \<Rightarrow> 'w publish_fn \<Rightarrow> dispatcher_config \<Rightarrow> (nat \<Rightarrow> go_context) \<Rightarrow> nat \<Rightarrow> gotime
     \<Rightarrow> pending_event list \<Rightarrow> dispatch_result \<Rightarrow> 'w \<Rightarrow> (go_error option \<times> dispatch_result) \<times> 'w" where
  "dispatch_all mark rf publish cfg ctxs i now [] r w = ((None, r), w)"
| "dispatch_all mark rf publish cfg ctxs i now (p # ps) r w =
     (case dispatch_one mark rf publish cfg ctxs i now p r w of
        ((Some e, r'), w') \<Rightarrow> ((Some e, r'), w')
      | ((None, r'), w') \<Rightarrow> dispatch_all mark rf publish cfg ctxs (i + 2) now ps r' w')"

definition run_batch ::
  "'w claim_fn \<Rightarrow> 'w mark_fn \<Rightarrow> 'w fail_fn \<Rightarrow> 'w publish_fn \<Rightarrow> dispatcher_config \<Rightarrow> (nat \<Rightarrow> go_context)
     \<Rightarrow> (nat \<Rightarrow> go_string) \<Rightarrow> gotime \<Rightarrow> 'w \<Rightarrow> (go_error option \<times> dispatch_result) \<times> 'w" where
  "run_batch claim mark rf publish cfg ctxs tokens clock w =
     (let now = time_utc clock in
      case claim (ctxs 0) tokens now (cfg_lease cfg) (cfg_batch_size cfg) w of
        (Inl e, w1) \<Rightarrow>
          ((Some (Wrap ''claim pending outbox events'' e), \<lparr>dr_claimed = 0, dr_published = 0, dr_failed = 0\<rparr>), w1)
      | (Inr ps, w1) \<Rightarrow>
          dispatch_all mark rf publish cfg ctxs 1 now ps
            \<lparr>dr_claimed = length ps, dr_published = 0, dr_failed = 0\<rparr> w1)"

end
