(* ===== verification/DomainFacts.thy ===== *)
theory DomainFacts
  imports Domain JsonPrefix
begin

text \<open>
  The canonical objects and the fingerprint as the program relies on them: the canonical form is
  a normal form of the JSON object, a valid transaction always has a fingerprint, and the
  fingerprinted text determines every field that identifies the business content.
\<close>

subsection \<open>Canonical objects\<close>

text \<open>A parsed map that JSON decoding produced (or no map).\<close>

definition canonical_map :: "any_map \<Rightarrow> bool" where
  "canonical_map p \<longleftrightarrow> (case p of None \<Rightarrow> True | Some m \<Rightarrow> canonical (JObject m) 0)"

lemma canonical_map_simps [simp]:
  "canonical_map None" "canonical_map (Some m) \<longleftrightarrow> canonical (JObject m) 0"
  by (simp_all add: canonical_map_def del: canonical.simps)

definition object_text :: "raw_message \<Rightarrow> bool" where
  "object_text r \<longleftrightarrow> (case r of None \<Rightarrow> True | Some c \<Rightarrow> \<exists>m. canonical (JObject m) 0 \<and> c = marshal (JObject m))"

lemma marshal_value_ok: "canonical v d \<Longrightarrow> marshal_value v = Inr (marshal v)"
  by (simp add: marshal_value_def canonical_marshal_ok)

lemma marshal_object_nonempty [simp]: "marshal (JObject m) \<noteq> []"
  by simp

text \<open>For given bytes the result is the printed form of the one object they denote.\<close>

lemma canonical_object_raw:
  assumes "raw \<noteq> []"
  shows "canonical_object (Some raw) p = Inr r \<longleftrightarrow>
           (\<exists>m. parse_whole raw = Inr (JObject m) \<and> r = Some (marshal (JObject m)))"
proof -
  have ok: "marshal_value (JObject m) = Inr (marshal (JObject m))" if "parse_json raw = Inr (JObject m, rest)" for m rest
    using parse_json_canonical [OF that] by (rule marshal_value_ok)
  have "canonical_object (Some raw) p = Inr r \<longleftrightarrow>
      (\<exists>m rest. parse_json raw = Inr (JObject m, rest) \<and> skip_ws rest = [] \<and> r = Some (marshal (JObject m)))"
    (is "?L \<longleftrightarrow> ?R")
  proof
    assume ?L
    with assms obtain m rest where m: "decode_any_map EndOfData raw = Inr (Some m, rest)"
      "read_value EndOfData rest = Inl DecodeEOF" "and_then (marshal_value (JObject m)) (\<lambda>p. Inr (Some p)) = Inr r"
      by (auto simp: canonical_object_def raw_bytes_def split: sum.splits prod.splits option.splits decode_error.splits)
    with ok show ?R unfolding decode_any_map_Some read_value_EOF_iff by fastforce
  next
    assume ?R
    then obtain m rest where m: "parse_json raw = Inr (JObject m, rest)" "skip_ws rest = []" "r = Some (marshal (JObject m))"
      by blast
    then have "decode_any_map EndOfData raw = Inr (Some m, rest)" "read_value EndOfData rest = Inl DecodeEOF"
      by (simp_all add: decode_any_map_Some read_value_EOF_iff)
    with m ok [OF m(1)] assms show ?L by (simp add: canonical_object_def raw_bytes_def)
  qed
  also have "\<dots> \<longleftrightarrow> (\<exists>m. parse_whole raw = Inr (JObject m) \<and> r = Some (marshal (JObject m)))"
    by (auto simp: parse_whole_def split: sum.splits)
  finally show ?thesis .
qed

lemma canonical_object_text:
  assumes "canonical_object raw p = Inr r" "canonical_map p"
  shows "object_text r"
proof (cases "raw_bytes raw = []")
  case True
  with assms show ?thesis
    by (cases p) (auto simp: canonical_object_def object_text_def marshal_value_ok simp del: canonical.simps marshal.simps)
next
  case False
  then obtain b where b: "raw = Some b" "b \<noteq> []" by (cases raw) (auto simp: raw_bytes_def)
  with assms canonical_object_raw [OF b(2), of p r] obtain m where
    m: "parse_whole b = Inr (JObject m)" "r = Some (marshal (JObject m))" by auto
  from parse_whole_canonical [OF m(1)] m(2) show ?thesis unfolding object_text_def by auto
qed

lemma canonical_object_self:
  assumes "object_text (Some c)"
  shows "canonical_object (Some c) p = Inr (Some c)"
proof -
  from assms obtain m where m: "canonical (JObject m) 0" "c = marshal (JObject m)"
    by (auto simp: object_text_def simp del: canonical.simps marshal.simps)
  have "c \<noteq> []" using m(2) by simp
  from canonical_object_raw [OF this, of p "Some c"] parse_whole_marshal [OF m(1)] m(2) show ?thesis by blast
qed

subsection \<open>A valid transaction has a fingerprint\<close>

lemma embed_object_text: "object_text r \<Longrightarrow> embed_raw r = Inr r"
  by (cases r) (auto simp: object_text_def embed_raw_def raw_bytes_def compact_raw_marshal
      simp del: canonical.simps marshal.simps)

text \<open>The text that is hashed.\<close>

definition fingerprint_input :: "transaction \<Rightarrow> go_string result" where
  "fingerprint_input t =
     and_then (canonical_object (tx_location_raw t) (tx_location t)) (\<lambda>l.
     and_then (canonical_object (tx_metadata_raw t) (tx_metadata t)) (\<lambda>m.
       fingerprint_payload t l m))"

lemma fingerprint_Inr:
  "fingerprint t ts = Inr h \<longleftrightarrow>
     validate t ts = None \<and> (\<exists>p. fingerprint_input t = Inr p \<and> h = hex_encode (sha256 p))"
  by (auto simp: fingerprint_def fingerprint_input_def split: option.split sum.split)

text \<open>Both maps come from JSON decoding, if they are present.\<close>

definition decoded_maps :: "transaction \<Rightarrow> bool" where
  "decoded_maps t \<longleftrightarrow> canonical_map (tx_location t) \<and> canonical_map (tx_metadata t)"

lemma fingerprint_input_total:
  assumes "validate t ts = None" "decoded_maps t"
  shows "\<exists>p. fingerprint_input t = Inr p"
proof -
  from validateD(12,13) [OF assms(1)] obtain l m where
    l: "canonical_object (tx_location_raw t) (tx_location t) = Inr l" and
    m: "canonical_object (tx_metadata_raw t) (tx_metadata t) = Inr m" by blast
  with assms(2) have "object_text l" "object_text m"
    by (auto simp: decoded_maps_def intro: canonical_object_text)
  with l m show ?thesis by (simp add: fingerprint_input_def fingerprint_payload_def embed_object_text)
qed

subsection \<open>The hashed text determines the business content\<close>

lemma quote_cancel:
  assumes "quote_json s @ a = quote_json t @ b"
  shows "to_valid s = to_valid t \<and> a = b"
proof -
  have "scan_string (quoted_body s @ quote_char # a) = scan_string (quoted_body t @ quote_char # b)"
    using assms by (simp add: quote_json_body)
  then have "quoted_body s = quoted_body t" "a = b" by (simp_all add: scan_quoted)
  then show ?thesis using unquote_quoted by metis
qed

lemma field_cancel:
  assumes "field n (quote_json s) @ a = field n (quote_json t) @ b"
  shows "to_valid s = to_valid t \<and> a = b"
  using assms by (intro quote_cancel) (simp add: field_def)

lemma comma_field_cancel:
  assumes "'','' @ field n (quote_json s) @ a = '','' @ field n (quote_json t) @ b"
  shows "to_valid s = to_valid t \<and> a = b"
  using assms by (intro field_cancel [of n]) (simp only: same_append_eq)

text \<open>The optional tail of the object.\<close>

definition tail3 :: "go_string option \<Rightarrow> go_string" where
  "tail3 m = opt_field ''metadata'' m @ ''}''"

definition tail2 :: "go_string option \<Rightarrow> go_string option \<Rightarrow> go_string" where
  "tail2 l m = opt_field ''location'' l @ tail3 m"

definition tail1 :: "go_string option \<Rightarrow> go_string option \<Rightarrow> go_string option \<Rightarrow> go_string" where
  "tail1 x l m = opt_field ''transponder_number'' x @ tail2 l m"

lemmas tail_defs = tail1_def tail2_def tail3_def opt_field_def field_def

lemma tail_starts:
  "number_end (tail1 x l m)" "number_end (tail2 l m)" "number_end (tail3 m)"
  by (auto simp: tail_defs split: option.split)

lemma tail_differs:
  "tail1 x l m \<noteq> '','' @ field ''plate'' v @ r"
  "tail2 l m \<noteq> '','' @ field ''transponder_number'' v @ r"
  "tail3 m \<noteq> '','' @ field ''location'' v @ r"
  "''}'' \<noteq> '','' @ field ''metadata'' v @ r"
  by (auto simp: tail_defs split: option.split)

text \<open>An optional field is present on both sides or on none.\<close>

lemma opt_field_cancel:
  assumes eq: "opt_field n v @ a = opt_field n w @ b"
    and "\<And>u r. a \<noteq> '','' @ field n u @ r" "\<And>u r. b \<noteq> '','' @ field n u @ r"
  shows "v = None \<and> w = None \<and> a = b \<or> (\<exists>x y. v = Some x \<and> w = Some y \<and> x @ a = y @ b)"
proof (cases v; cases w)
  fix x y assume "v = Some x" "w = Some y"
  with eq show ?thesis by (simp add: opt_field_def field_def)
next
  fix y assume "v = None" "w = Some y"
  with eq have "a = '','' @ field n y @ b" by (simp add: opt_field_def)
  with assms(2) show ?thesis by blast
next
  fix x assume "v = Some x" "w = None"
  with eq have "b = '','' @ field n x @ a" by (simp add: opt_field_def)
  with assms(3) show ?thesis by blast
qed (use eq in \<open>simp add: opt_field_def\<close>)

lemma plate_cancel:
  assumes "marshal_plate p @ a = marshal_plate q @ b"
  shows "to_valid (plate_number p) = to_valid (plate_number q)
       \<and> to_valid (plate_jurisdiction p) = to_valid (plate_jurisdiction q) \<and> a = b"
proof -
  have "field ''number'' (quote_json (plate_number p)) @ '','' @ field ''jurisdiction'' (quote_json (plate_jurisdiction p)) @ ''}'' @ a
      = field ''number'' (quote_json (plate_number q)) @ '','' @ field ''jurisdiction'' (quote_json (plate_jurisdiction q)) @ ''}'' @ b"
    using assms unfolding marshal_plate_def append_assoc same_append_eq .
  from field_cancel [OF this] have n: "to_valid (plate_number p) = to_valid (plate_number q)"
    and r: "'','' @ field ''jurisdiction'' (quote_json (plate_jurisdiction p)) @ ''}'' @ a
      = '','' @ field ''jurisdiction'' (quote_json (plate_jurisdiction q)) @ ''}'' @ b" by blast+
  from comma_field_cancel [OF r] n show ?thesis by simp
qed

lemma object_cancel:
  assumes "object_text (Some x)" "object_text (Some y)" "number_end a" "number_end b" "x @ a = y @ b"
  shows "x = y \<and> a = b"
proof -
  from assms(1,2) obtain m n where "canonical (JObject m) 0" "x = marshal (JObject m)"
    "canonical (JObject n) 0" "y = marshal (JObject n)" unfolding object_text_def by auto
  with marshal_cancel [of "JObject m" "JObject n" a b] assms(3-5) show ?thesis by metis
qed

lemma raw_field_cancel:
  assumes "opt_field n l @ a = opt_field n l' @ b" "object_text l" "object_text l'" "number_end a" "number_end b"
    and "\<And>u r. a \<noteq> '','' @ field n u @ r" "\<And>u r. b \<noteq> '','' @ field n u @ r"
  shows "l = l' \<and> a = b"
  using opt_field_cancel [OF assms(1,6,7)] object_cancel [OF _ _ assms(4,5)] assms(2,3) by auto

text \<open>Every text of the transaction is valid UTF-8, as JSON decoding leaves it.\<close>

definition valid_texts :: "transaction \<Rightarrow> bool" where
  "valid_texts t \<longleftrightarrow>
     valid_string (tx_source t) \<and> valid_string (tx_source_reference t) \<and> valid_string (tx_type t)
     \<and> valid_string (tx_base_amount t) \<and> valid_string (tx_currency t) \<and> valid_string (tx_transponder t)
     \<and> (case tx_plate t of None \<Rightarrow> True
         | Some p \<Rightarrow> valid_string (plate_number p) \<and> valid_string (plate_jurisdiction p))"

definition time_text :: "transaction \<Rightarrow> go_string" where
  "time_text t = format_rfc3339nano (time_utc (tx_time t))"

text \<open>The payload, with its optional tail named.\<close>

lemma fingerprint_payload_text:
  assumes "object_text l" "object_text m"
  shows "fingerprint_payload t l m =
    Inr (''{'' @ field ''source'' (quote_json (tx_source t)) @
         '','' @ field ''source_reference'' (quote_json (tx_source_reference t)) @
         '','' @ field ''transaction_type'' (quote_json (tx_type t)) @
         '','' @ field ''transaction_time_utc'' (quote_json (time_text t)) @
         '','' @ field ''base_amount'' (quote_json (tx_base_amount t)) @
         '','' @ field ''currency'' (quote_json (tx_currency t)) @
         opt_field ''plate'' (map_option marshal_plate (tx_plate t)) @
         tail1 (omit_empty (tx_transponder t)) l m)"
  using assms
  by (simp add: fingerprint_payload_def embed_object_text tail1_def tail2_def tail3_def time_text_def)

lemma transponder_cancel:
  assumes "tail1 (omit_empty x) l m = tail1 (omit_empty y) l' m'" "valid_string x" "valid_string y"
  shows "x = y \<and> tail2 l m = tail2 l' m'"
proof -
  have "omit_empty x = None \<and> omit_empty y = None \<and> tail2 l m = tail2 l' m'
      \<or> (\<exists>u v. omit_empty x = Some u \<and> omit_empty y = Some v \<and> u @ tail2 l m = v @ tail2 l' m')"
    by (rule opt_field_cancel [OF assms(1) [unfolded tail1_def]]) (use tail_differs(2) in blast)+
  then show ?thesis
  proof (elim disjE conjE exE)
    fix u v
    assume "omit_empty x = Some u" "omit_empty y = Some v" and eq: "u @ tail2 l m = v @ tail2 l' m'"
    then have "u = quote_json x" "v = quote_json y" by (simp_all add: omit_empty_def split: if_splits)
    with quote_cancel [of x "tail2 l m" y "tail2 l' m'"] eq assms(2,3) show ?thesis by (simp add: to_valid_id)
  qed (simp add: omit_empty_def split: if_splits)
qed

lemma tails_cancel:
  assumes "tail2 l m = tail2 l' m'" "object_text l" "object_text m" "object_text l'" "object_text m'"
  shows "l = l' \<and> m = m'"
proof -
  have "l = l' \<and> tail3 m = tail3 m'"
    by (rule raw_field_cancel [OF assms(1) [unfolded tail2_def] assms(2,4) tail_starts(3) tail_starts(3)])
       (use tail_differs(3) in blast)+
  moreover from this have "opt_field ''metadata'' m @ ''}'' = opt_field ''metadata'' m' @ ''}''"
    by (simp add: tail3_def)
  then have "m = m'"
    using raw_field_cancel [OF _ assms(3,5), of "''metadata''" "''}''" "''}''"] tail_differs(4) by auto
  ultimately show ?thesis by blast
qed

lemma payload_cancel:
  assumes p: "fingerprint_payload t l m = Inr p" "fingerprint_payload t' l' m' = Inr p"
    and o: "object_text l" "object_text m" "object_text l'" "object_text m'"
    and v: "valid_texts t" "valid_texts t'"
  shows "tx_source t = tx_source t'" "tx_source_reference t = tx_source_reference t'" "tx_type t = tx_type t'"
    "to_valid (time_text t) = to_valid (time_text t')" "tx_base_amount t = tx_base_amount t'"
    "tx_currency t = tx_currency t'" "tx_plate t = tx_plate t'" "tx_transponder t = tx_transponder t'"
    "l = l'" "m = m'"
proof -
  note texts = v [unfolded valid_texts_def]
  let ?tl = "tail1 (omit_empty (tx_transponder t)) l m"
  let ?tl' = "tail1 (omit_empty (tx_transponder t')) l' m'"
  from p(1) [unfolded fingerprint_payload_text [OF o(1,2)]] p(2) [unfolded fingerprint_payload_text [OF o(3,4)]]
  have eq: "field ''source'' (quote_json (tx_source t)) @
         '','' @ field ''source_reference'' (quote_json (tx_source_reference t)) @
         '','' @ field ''transaction_type'' (quote_json (tx_type t)) @
         '','' @ field ''transaction_time_utc'' (quote_json (time_text t)) @
         '','' @ field ''base_amount'' (quote_json (tx_base_amount t)) @
         '','' @ field ''currency'' (quote_json (tx_currency t)) @
         opt_field ''plate'' (map_option marshal_plate (tx_plate t)) @ ?tl
     = field ''source'' (quote_json (tx_source t')) @
         '','' @ field ''source_reference'' (quote_json (tx_source_reference t')) @
         '','' @ field ''transaction_type'' (quote_json (tx_type t')) @
         '','' @ field ''transaction_time_utc'' (quote_json (time_text t')) @
         '','' @ field ''base_amount'' (quote_json (tx_base_amount t')) @
         '','' @ field ''currency'' (quote_json (tx_currency t')) @
         opt_field ''plate'' (map_option marshal_plate (tx_plate t')) @ ?tl'"
    unfolding sum.inject by (metis same_append_eq)
  note e1 = field_cancel [OF eq]
  note e2 = comma_field_cancel [OF e1 [THEN conjunct2]]
  note e3 = comma_field_cancel [OF e2 [THEN conjunct2]]
  note e4 = comma_field_cancel [OF e3 [THEN conjunct2]]
  note e5 = comma_field_cancel [OF e4 [THEN conjunct2]]
  note e6 = comma_field_cancel [OF e5 [THEN conjunct2]]
  from e1 e2 e3 e5 e6 texts show "tx_source t = tx_source t'" "tx_source_reference t = tx_source_reference t'"
    "tx_type t = tx_type t'" "tx_base_amount t = tx_base_amount t'" "tx_currency t = tx_currency t'"
    by (simp_all add: to_valid_id)
  from e4 show "to_valid (time_text t) = to_valid (time_text t')" by blast
  have pl: "map_option marshal_plate (tx_plate t) = None \<and> map_option marshal_plate (tx_plate t') = None \<and> ?tl = ?tl'
      \<or> (\<exists>x y. map_option marshal_plate (tx_plate t) = Some x \<and> map_option marshal_plate (tx_plate t') = Some y
           \<and> x @ ?tl = y @ ?tl')"
    by (rule opt_field_cancel [OF e6 [THEN conjunct2]]) (use tail_differs(1) in blast)+
  then have both: "tx_plate t = tx_plate t' \<and> ?tl = ?tl'"
  proof (elim disjE exE conjE)
    fix x y
    assume "map_option marshal_plate (tx_plate t) = Some x" "map_option marshal_plate (tx_plate t') = Some y"
      and xy: "x @ ?tl = y @ ?tl'"
    then obtain a b where ab: "tx_plate t = Some a" "x = marshal_plate a" "tx_plate t' = Some b" "y = marshal_plate b"
      by auto
    with plate_cancel [of a ?tl b ?tl'] xy texts show ?thesis by (auto simp: to_valid_id)
  qed auto
  from both show "tx_plate t = tx_plate t'" by blast
  from both have tl: "?tl = ?tl'" by blast
  from transponder_cancel [OF tl] texts show "tx_transponder t = tx_transponder t'" by simp
  from transponder_cancel [OF tl] tails_cancel [OF _ o] texts show "l = l'" "m = m'" by simp_all
qed

text \<open>
  The business content that the fingerprint covers: everything but the service's own identifier,
  with the two objects in canonical form and the time as an instant in UTC.
\<close>

definition same_business :: "transaction \<Rightarrow> transaction \<Rightarrow> bool" where
  "same_business t t' \<longleftrightarrow>
     tx_source t = tx_source t' \<and> tx_source_reference t = tx_source_reference t' \<and> tx_type t = tx_type t'
     \<and> to_valid (time_text t) = to_valid (time_text t') \<and> tx_base_amount t = tx_base_amount t'
     \<and> tx_currency t = tx_currency t' \<and> tx_plate t = tx_plate t' \<and> tx_transponder t = tx_transponder t'
     \<and> canonical_object (tx_location_raw t) (tx_location t) = canonical_object (tx_location_raw t') (tx_location t')
     \<and> canonical_object (tx_metadata_raw t) (tx_metadata t) = canonical_object (tx_metadata_raw t') (tx_metadata t')"

lemma fingerprint_input_Inr:
  "fingerprint_input t = Inr p \<longleftrightarrow>
     (\<exists>l m. canonical_object (tx_location_raw t) (tx_location t) = Inr l
        \<and> canonical_object (tx_metadata_raw t) (tx_metadata t) = Inr m \<and> fingerprint_payload t l m = Inr p)"
  by (auto simp: fingerprint_input_def and_then_Inr)

lemma fingerprint_input_same_business:
  assumes "fingerprint_input t = Inr p" "fingerprint_input t' = Inr p"
    and "decoded_maps t" "decoded_maps t'" "valid_texts t" "valid_texts t'"
  shows "same_business t t'"
proof -
  from assms(1,2) obtain l m l' m' where
    c: "canonical_object (tx_location_raw t) (tx_location t) = Inr l"
    "canonical_object (tx_metadata_raw t) (tx_metadata t) = Inr m"
    "canonical_object (tx_location_raw t') (tx_location t') = Inr l'"
    "canonical_object (tx_metadata_raw t') (tx_metadata t') = Inr m'"
    and p: "fingerprint_payload t l m = Inr p" "fingerprint_payload t' l' m' = Inr p"
    unfolding fingerprint_input_Inr by blast
  have o: "object_text l" "object_text m" "object_text l'" "object_text m'"
    using assms(3,4) c by (auto simp: decoded_maps_def intro: canonical_object_text)
  from payload_cancel [OF p o assms(5,6)] c show ?thesis unfolding same_business_def by simp
qed

end
