(* ===== verification/EventCodec.thy ===== *)
theory EventCodec
  imports StructCodec Outbox DomainFacts
begin

text \<open>
  The JSON form in which the durable stores keep transactions, events and the records of the
  append log: \<open>Marshal\<close> and \<open>Unmarshal\<close> of \<open>domain.Transaction\<close>, \<open>app.OutboxEvent\<close>,
  \<open>app.Acceptance\<close> and \<open>app.PublishFailure\<close> by their field tags.
\<close>

subsection \<open>Transactions\<close>

text \<open>The two parsed maps carry the tag \<open>json:"-"\<close>: they are not printed and not read.\<close>

definition marshal_transaction :: "transaction \<Rightarrow> go_string result" where
  "marshal_transaction t =
     and_then (marshal_time (tx_time t)) (\<lambda>tm.
     and_then (marshal_raw (tx_location_raw t)) (\<lambda>loc.
     and_then (marshal_raw (tx_metadata_raw t)) (\<lambda>meta.
       Inr (marshal_struct
         [(''id'', Some (quote_json (tx_id t))),
          (''source'', Some (quote_json (tx_source t))),
          (''source_reference'', Some (quote_json (tx_source_reference t))),
          (''transaction_type'', Some (quote_json (tx_type t))),
          (''transaction_time_utc'', Some tm),
          (''base_amount'', Some (quote_json (tx_base_amount t))),
          (''currency'', Some (quote_json (tx_currency t))),
          (''plate'', map_option marshal_plate (tx_plate t)),
          (''transponder_number'', marshal_omit_string (tx_transponder t)),
          (''location'', loc),
          (''metadata'', meta)]))))"

definition empty_plate :: plate where
  "empty_plate = \<lparr>plate_number = [], plate_jurisdiction = []\<rparr>"

definition plate_setter :: "plate setter" where
  "plate_setter = struct_setter
     [(''number'', field_of plate_number plate_number_update string_setter),
      (''jurisdiction'', field_of plate_jurisdiction plate_jurisdiction_update string_setter)]"

definition empty_transaction :: transaction where
  "empty_transaction =
     \<lparr>tx_id = [], tx_source = [], tx_source_reference = [], tx_type = [], tx_time = zero_time,
      tx_base_amount = [], tx_currency = [], tx_plate = None, tx_transponder = [],
      tx_location = None, tx_metadata = None, tx_location_raw = None, tx_metadata_raw = None\<rparr>"

definition transaction_fields :: "(go_string \<times> transaction setter) list" where
  "transaction_fields =
     [(''id'', field_of tx_id tx_id_update string_setter),
      (''source'', field_of tx_source tx_source_update string_setter),
      (''source_reference'', field_of tx_source_reference tx_source_reference_update string_setter),
      (''transaction_type'', field_of tx_type tx_type_update string_setter),
      (''transaction_time_utc'', field_of tx_time tx_time_update time_setter),
      (''base_amount'', field_of tx_base_amount tx_base_amount_update string_setter),
      (''currency'', field_of tx_currency tx_currency_update string_setter),
      (''plate'', field_of tx_plate tx_plate_update (pointer_setter empty_plate plate_setter)),
      (''transponder_number'', field_of tx_transponder tx_transponder_update string_setter),
      (''location'', field_of tx_location_raw tx_location_raw_update raw_setter),
      (''metadata'', field_of tx_metadata_raw tx_metadata_raw_update raw_setter)]"

definition transaction_setter :: "transaction setter" where
  "transaction_setter = struct_setter transaction_fields"

subsection \<open>Events\<close>

definition marshal_event :: "outbox_event \<Rightarrow> go_string result" where
  "marshal_event ev =
     and_then (marshal_time (ev_occurred_at ev)) (\<lambda>tm.
     and_then (marshal_transaction (ev_payload ev)) (\<lambda>payload.
       Inr (marshal_struct
         [(''ID'', Some (quote_json (ev_id ev))),
          (''Type'', Some (quote_json (ev_type ev))),
          (''SchemaVersion'', Some (itoa_int (ev_schema_version ev))),
          (''OccurredAt'', Some tm),
          (''CorrelationID'', Some (quote_json (ev_correlation_id ev))),
          (''Source'', Some (quote_json (ev_source ev))),
          (''SourceReference'', Some (quote_json (ev_source_reference ev))),
          (''TransactionID'', Some (quote_json (ev_transaction_id ev))),
          (''Key'', Some (quote_json (ev_key ev))),
          (''Payload'', Some payload)])))"

definition empty_event :: outbox_event where
  "empty_event =
     \<lparr>ev_id = [], ev_type = [], ev_schema_version = 0, ev_occurred_at = zero_time,
      ev_correlation_id = [], ev_source = [], ev_source_reference = [], ev_transaction_id = [],
      ev_key = [], ev_payload = empty_transaction\<rparr>"

definition event_fields :: "(go_string \<times> outbox_event setter) list" where
  "event_fields =
     [(''ID'', field_of ev_id ev_id_update string_setter),
      (''Type'', field_of ev_type ev_type_update string_setter),
      (''SchemaVersion'', field_of ev_schema_version ev_schema_version_update int_setter),
      (''OccurredAt'', field_of ev_occurred_at ev_occurred_at_update time_setter),
      (''CorrelationID'', field_of ev_correlation_id ev_correlation_id_update string_setter),
      (''Source'', field_of ev_source ev_source_update string_setter),
      (''SourceReference'', field_of ev_source_reference ev_source_reference_update string_setter),
      (''TransactionID'', field_of ev_transaction_id ev_transaction_id_update string_setter),
      (''Key'', field_of ev_key ev_key_update string_setter),
      (''Payload'', field_of ev_payload ev_payload_update transaction_setter)]"

definition event_setter :: "outbox_event setter" where
  "event_setter = struct_setter event_fields"

text \<open>\<open>json.Unmarshal(payload, &event)\<close> into a zero event.\<close>

definition unmarshal_event :: "go_string \<Rightarrow> decode_error + outbox_event" where
  "unmarshal_event raw = event_setter empty_event raw"

subsection \<open>Acceptances and failures\<close>

definition marshal_acceptance :: "acceptance \<Rightarrow> go_string result" where
  "marshal_acceptance a =
     and_then (marshal_transaction (acc_transaction a)) (\<lambda>t.
     and_then (marshal_event (acc_event a)) (\<lambda>ev.
       Inr (marshal_struct
         [(''Transaction'', Some t), (''Fingerprint'', Some (quote_json (acc_fingerprint a))),
          (''Event'', Some ev)])))"

definition empty_acceptance :: acceptance where
  "empty_acceptance = \<lparr>acc_transaction = empty_transaction, acc_fingerprint = [], acc_event = empty_event\<rparr>"

definition acceptance_setter :: "acceptance setter" where
  "acceptance_setter = struct_setter
     [(''Transaction'', field_of acc_transaction acc_transaction_update transaction_setter),
      (''Fingerprint'', field_of acc_fingerprint acc_fingerprint_update string_setter),
      (''Event'', field_of acc_event acc_event_update event_setter)]"

definition marshal_failure :: "publish_failure \<Rightarrow> go_string result" where
  "marshal_failure f =
     and_then (marshal_time (pf_retry_at f)) (\<lambda>tm.
       Inr (marshal_struct
         [(''EventID'', Some (quote_json (pf_event_id f))),
          (''ClaimToken'', Some (quote_json (pf_claim_token f))),
          (''Attempts'', Some (itoa_int (pf_attempts f))),
          (''RetryAt'', Some tm),
          (''Terminal'', Some (if pf_terminal f then ''true'' else ''false'')),
          (''Reason'', Some (quote_json (pf_reason f)))]))"

definition empty_failure :: publish_failure where
  "empty_failure =
     \<lparr>pf_event_id = [], pf_claim_token = [], pf_attempts = 0, pf_retry_at = zero_time,
      pf_terminal = False, pf_reason = []\<rparr>"

definition failure_setter :: "publish_failure setter" where
  "failure_setter = struct_setter
     [(''EventID'', field_of pf_event_id pf_event_id_update string_setter),
      (''ClaimToken'', field_of pf_claim_token pf_claim_token_update string_setter),
      (''Attempts'', field_of pf_attempts pf_attempts_update int_setter),
      (''RetryAt'', field_of pf_retry_at pf_retry_at_update time_setter),
      (''Terminal'', field_of pf_terminal pf_terminal_update bool_setter),
      (''Reason'', field_of pf_reason pf_reason_update string_setter)]"

end
