(* ===== verification/KafkaAdapter.thy ===== *)
theory KafkaAdapter
  imports EventCodec
begin

text \<open>
  \<open>internal/transaction/adapters/kafka\<close>: the publisher that turns an event into one message
  (\<open>publisher.go\<close>), the creation of the topic (\<open>topic.go\<close>) and the settings of the writer and the
  dialer (\<open>writer.go\<close>). The Kafka client, the file system, the PEM parser and the SCRAM mechanism
  are parameters.
\<close>

subsection \<open>Publisher\<close>

record kafka_message =
  km_topic :: go_string
  km_key :: go_string
  km_value :: go_string
  km_time :: gotime
  km_headers :: "(go_string \<times> go_string) list"

type_synonym 'q message_writer = "go_context \<Rightarrow> kafka_message \<Rightarrow> 'q \<Rightarrow> go_error option \<times> 'q"

definition raw_object :: "raw_message \<Rightarrow> any_map \<Rightarrow> go_string option" where
  "raw_object raw parsed =
     (if raw_bytes raw \<noteq> [] then raw
      else (case parsed of
              None \<Rightarrow> None
            | Some m \<Rightarrow> (case marshal_value (JObject m) of Inl _ \<Rightarrow> None | Inr p \<Rightarrow> Some p)))"

definition marshal_payload :: "transaction \<Rightarrow> go_string result" where
  "marshal_payload t =
     and_then (marshal_raw (raw_object (tx_location_raw t) (tx_location t))) (\<lambda>loc.
     and_then (marshal_raw (raw_object (tx_metadata_raw t) (tx_metadata t))) (\<lambda>meta.
       Inr (marshal_struct
         [(''id'', Some (quote_json (tx_id t))),
          (''source'', Some (quote_json (tx_source t))),
          (''source_reference'', Some (quote_json (tx_source_reference t))),
          (''transaction_type'', Some (quote_json (tx_type t))),
          (''transaction_time_utc'', Some (quote_json (format_rfc3339nano (time_utc (tx_time t))))),
          (''base_amount'', Some (quote_json (tx_base_amount t))),
          (''currency'', Some (quote_json (tx_currency t))),
          (''plate'', map_option marshal_plate (tx_plate t)),
          (''transponder_number'', marshal_omit_string (tx_transponder t)),
          (''location'', loc),
          (''metadata'', meta)])))"

definition marshal_envelope :: "outbox_event \<Rightarrow> go_string result" where
  "marshal_envelope ev =
     and_then (marshal_payload (ev_payload ev)) (\<lambda>payload.
       Inr (marshal_struct
         [(''eventId'', Some (quote_json (ev_id ev))),
          (''eventType'', Some (quote_json (ev_type ev))),
          (''schemaVersion'', Some (itoa_int (ev_schema_version ev))),
          (''occurredAt'', Some (quote_json (format_rfc3339nano (time_utc (ev_occurred_at ev))))),
          (''correlationId'', Some (quote_json (ev_correlation_id ev))),
          (''source'', Some (quote_json (ev_source ev))),
          (''sourceReference'', Some (quote_json (ev_source_reference ev))),
          (''transactionId'', Some (quote_json (ev_transaction_id ev))),
          (''payload'', Some payload)]))"

definition event_message :: "go_string \<Rightarrow> outbox_event \<Rightarrow> go_string \<Rightarrow> kafka_message" where
  "event_message topic ev val =
     \<lparr>km_topic = topic, km_key = ev_key ev, km_value = val, km_time = time_utc (ev_occurred_at ev),
      km_headers = [(''event-id'', ev_id ev), (''correlation-id'', ev_correlation_id ev)]\<rparr>"

definition kafka_publish :: "'q message_writer \<Rightarrow> go_string \<Rightarrow> 'q publish_fn" where
  "kafka_publish writer topic ctx ev q =
     (case marshal_envelope ev of
        Inl e \<Rightarrow> (Some (Wrap (''encode event '' @ ev_id ev) e), q)
      | Inr val \<Rightarrow>
          (case writer ctx (event_message topic ev val) q of
             (Some e, q') \<Rightarrow> (Some (Wrap (''publish event '' @ ev_id ev) e), q')
           | (None, q') \<Rightarrow> (None, q')))"

subsection \<open>Topic\<close>

record topic_config =
  tc_name :: go_string
  tc_partitions :: int
  tc_replication_factor :: int
  tc_retention :: duration

record topic_request =
  tr_topic :: go_string
  tr_num_partitions :: int
  tr_replication_factor :: int
  tr_config_entries :: "(go_string \<times> go_string) list"

type_synonym 'q topic_admin = "topic_request \<Rightarrow> 'q \<Rightarrow> go_error option \<times> 'q"

text \<open>The client's error for a topic that is already there.\<close>

definition topic_already_exists :: go_error where
  "topic_already_exists = External ''kafka: topic already exists''"

text \<open>The retention is positive here, so \<open>div\<close> is the division of \<open>Milliseconds\<close>.\<close>

definition topic_request_of :: "topic_config \<Rightarrow> topic_request" where
  "topic_request_of c =
     \<lparr>tr_topic = tc_name c, tr_num_partitions = tc_partitions c,
      tr_replication_factor = tc_replication_factor c,
      tr_config_entries = [(''retention.ms'', itoa_int (sint (tc_retention c) div 1000000))]\<rparr>"

definition ensure_topic :: "'q topic_admin \<Rightarrow> topic_config \<Rightarrow> 'q \<Rightarrow> go_error option \<times> 'q" where
  "ensure_topic admin c q =
     (if tc_name c = [] \<or> tc_partitions c \<le> 0 \<or> tc_replication_factor c \<le> 0 \<or> tc_retention c \<le>s 0
      then (Some (Errorf ''topic name, partitions, replication factor, and retention must be configured''), q)
      else
        (case admin (topic_request_of c) q of
           (None, q') \<Rightarrow> (None, q')
         | (Some e, q') \<Rightarrow>
             if errors_is e topic_already_exists then (None, q')
             else (Some (Wrap (''create Kafka topic '' @ tc_name c) e), q')))"

subsection \<open>Writer and dialer settings\<close>

record security_config =
  sc_tls :: bool
  sc_ca_file :: go_string
  sc_sasl_username :: go_string
  sc_sasl_password :: go_string

record writer_config =
  wc_brokers :: "go_string list"
  wc_topic :: go_string
  wc_security :: security_config

text \<open>A TLS configuration: TLS 1.2 at least, with the certificates of the file added to the roots.\<close>

record tls_config =
  tls_min_version :: nat
  tls_extra_roots :: "go_string option"

datatype sasl_mechanism = ScramSha512 go_string go_string

definition tls_version12 :: nat where
  "tls_version12 = 771"

text \<open>
  \<open>read_file\<close> is \<open>os.ReadFile\<close>, \<open>has_certificates\<close> is \<open>AppendCertsFromPEM\<close>, and \<open>scram_err\<close> what
  \<open>scram.Mechanism\<close> reports for the credentials.
\<close>

definition kafka_security ::
  "(go_string \<Rightarrow> go_string result) \<Rightarrow> (go_string \<Rightarrow> bool) \<Rightarrow> (go_string \<Rightarrow> go_string \<Rightarrow> go_error option)
     \<Rightarrow> security_config \<Rightarrow> (tls_config option \<times> sasl_mechanism option) result" where
  "kafka_security read_file has_certificates scram_err c =
     (let has_username = (sc_sasl_username c \<noteq> []); has_password = (sc_sasl_password c \<noteq> []) in
      if has_username \<noteq> has_password then Inl (Errorf ''Kafka SASL username and password must be provided together'')
      else if has_username \<and> \<not> sc_tls c then Inl (Errorf ''Kafka SASL/SCRAM requires TLS'')
      else if sc_ca_file c \<noteq> [] \<and> \<not> sc_tls c then Inl (Errorf ''Kafka CA file requires TLS'')
      else
        and_then
          (if \<not> sc_tls c then Inr None
           else if sc_ca_file c = [] then Inr (Some \<lparr>tls_min_version = tls_version12, tls_extra_roots = None\<rparr>)
           else (case read_file (sc_ca_file c) of
                   Inl e \<Rightarrow> Inl (Wrap ''read Kafka CA file'' e)
                 | Inr pem \<Rightarrow>
                     if \<not> has_certificates pem then Inl (Errorf ''Kafka CA file contains no certificates'')
                     else Inr (Some \<lparr>tls_min_version = tls_version12, tls_extra_roots = Some pem\<rparr>)))
          (\<lambda>tls.
             if \<not> has_username then Inr (tls, None)
             else (case scram_err (sc_sasl_username c) (sc_sasl_password c) of
                     Some e \<Rightarrow> Inl (Wrap ''configure Kafka SCRAM'' e)
                   | None \<Rightarrow> Inr (tls, Some (ScramSha512 (sc_sasl_username c) (sc_sasl_password c))))))"

record kafka_writer =
  kw_brokers :: "go_string list"
  kw_require_all_acks :: bool
  kw_async :: bool
  kw_max_attempts :: nat
  kw_read_timeout :: duration
  kw_write_timeout :: duration
  kw_batch_timeout :: duration
  kw_auto_topic_creation :: bool
  kw_tls :: "tls_config option"
  kw_sasl :: "sasl_mechanism option"

definition new_writer ::
  "(go_string \<Rightarrow> go_string result) \<Rightarrow> (go_string \<Rightarrow> bool) \<Rightarrow> (go_string \<Rightarrow> go_string \<Rightarrow> go_error option)
     \<Rightarrow> writer_config \<Rightarrow> kafka_writer result" where
  "new_writer read_file has_certificates scram_err c =
     (if wc_brokers c = [] then Inl (Errorf ''at least one Kafka broker is required'')
      else if wc_topic c = [] then Inl (Errorf ''Kafka topic is required'')
      else and_then (kafka_security read_file has_certificates scram_err (wc_security c)) (\<lambda>(tls, sasl).
        Inr \<lparr>kw_brokers = wc_brokers c, kw_require_all_acks = True, kw_async = False, kw_max_attempts = 5,
             kw_read_timeout = seconds_dur 10, kw_write_timeout = seconds_dur 10,
             kw_batch_timeout = word_of_int 10000000, kw_auto_topic_creation = False,
             kw_tls = tls, kw_sasl = sasl\<rparr>))"

record kafka_dialer =
  kd_timeout :: duration
  kd_tls :: "tls_config option"
  kd_sasl :: "sasl_mechanism option"

definition new_dialer ::
  "(go_string \<Rightarrow> go_string result) \<Rightarrow> (go_string \<Rightarrow> bool) \<Rightarrow> (go_string \<Rightarrow> go_string \<Rightarrow> go_error option)
     \<Rightarrow> security_config \<Rightarrow> kafka_dialer result" where
  "new_dialer read_file has_certificates scram_err c =
     and_then (kafka_security read_file has_certificates scram_err c) (\<lambda>(tls, sasl).
       Inr \<lparr>kd_timeout = seconds_dur 10, kd_tls = tls, kd_sasl = sasl\<rparr>)"

subsection \<open>Facts\<close>

text \<open>Credentials and certificates are only ever used over TLS 1.2 or later.\<close>

lemma kafka_security_tls:
  assumes "kafka_security read_file has_certificates scram_err c = Inr (tls, sasl)"
  shows "(tls = None \<longleftrightarrow> \<not> sc_tls c) \<and> (sasl \<noteq> None \<longrightarrow> tls \<noteq> None)
     \<and> (\<forall>t. tls = Some t \<longrightarrow> tls_min_version t = tls_version12)
     \<and> (sasl \<noteq> None \<longleftrightarrow> sc_sasl_username c \<noteq> [] \<and> sc_sasl_password c \<noteq> [])"
  using assms
  by (auto simp: kafka_security_def Let_def and_then_Inr split: if_splits sum.splits option.splits)

text \<open>A topic that exists already is success, so the bootstrap can run again.\<close>

lemma ensure_topic_exists:
  assumes "admin (topic_request_of c) q = (Some e, q')" "errors_is e topic_already_exists"
    and "tc_name c \<noteq> []" "0 < tc_partitions c" "0 < tc_replication_factor c" "0 <s tc_retention c"
  shows "ensure_topic admin c q = (None, q')"
  using assms by (simp add: ensure_topic_def)

end
