(* ===== verification/Bootstrap.thy ===== *)
theory Bootstrap
  imports Config KafkaAdapter
begin

text \<open>
  The two programs: \<open>cmd/topic-bootstrap/main.go\<close>, which creates the Kafka topic, and
  \<open>cmd/transaction-service/main.go\<close>, which reads the configuration and starts the mode it is asked
  for. Dialling Kafka, the providers of secrets and the starters of the modes are parameters.
\<close>

subsection \<open>Topic settings\<close>

record topic_settings =
  ts_broker :: go_string
  ts_topic :: topic_config
  ts_security :: security_config

definition positive_integer :: "go_string \<Rightarrow> int \<Rightarrow> int result" where
  "positive_integer raw fallback =
     (if raw = [] then Inr fallback
      else (case atoi raw of
              None \<Rightarrow> Inl (Errorf ''must be a positive integer'')
            | Some v \<Rightarrow> if v \<le> 0 then Inl (Errorf ''must be a positive integer'') else Inr v))"

definition wrap_error :: "go_string \<Rightarrow> 'a result \<Rightarrow> 'a result" where
  "wrap_error ctx r = (case r of Inl e \<Rightarrow> Inl (Wrap ctx e) | Inr x \<Rightarrow> Inr x)"

definition week_dur :: duration where
  "week_dur = seconds_dur (7 * 24 * 3600)"

definition topic_retention :: "(nat \<Rightarrow> nat \<Rightarrow> nat \<Rightarrow> nat) \<Rightarrow> go_string \<Rightarrow> duration result" where
  "topic_retention scale_fraction raw =
     (if raw = [] then Inr week_dur
      else (case parse_duration scale_fraction raw of
              None \<Rightarrow> Inl (Errorf ''KAFKA_TOPIC_RETENTION must be a positive duration'')
            | Some d \<Rightarrow>
                if d \<le>s 0 then Inl (Errorf ''KAFKA_TOPIC_RETENTION must be a positive duration'') else Inr d))"

definition topic_security :: "lookup \<Rightarrow> security_config result" where
  "topic_security lookup =
     (let raw = lookup ''KAFKA_TLS'' in
      and_then
        (if raw = [] then Inr False
         else (case parse_bool raw of
                 Some b \<Rightarrow> Inr b
               | None \<Rightarrow> Inl (Wrap ''KAFKA_TLS must be a boolean'' (External ''strconv.ParseBool: invalid syntax''))))
        (\<lambda>tls.
           let c = \<lparr>sc_tls = tls, sc_ca_file = lookup ''KAFKA_CA_FILE'',
                    sc_sasl_username = lookup ''KAFKA_SASL_USERNAME'',
                    sc_sasl_password = lookup ''KAFKA_SASL_PASSWORD''\<rparr>
           in if (sc_sasl_username c = []) \<noteq> (sc_sasl_password c = [])
                then Inl (Errorf ''Kafka SASL username and password must be provided together'')
              else if (sc_sasl_username c \<noteq> [] \<or> sc_ca_file c \<noteq> []) \<and> \<not> tls
                then Inl (Errorf ''Kafka SASL and CA configuration require TLS'')
              else Inr c))"

definition load_topic_settings :: "(nat \<Rightarrow> nat \<Rightarrow> nat \<Rightarrow> nat) \<Rightarrow> lookup \<Rightarrow> topic_settings result" where
  "load_topic_settings scale_fraction lookup =
     (let broker = trim_space (hd (split_on CHR '','' (lookup ''KAFKA_BROKERS''))) in
      if broker = [] then Inl (Errorf ''KAFKA_BROKERS is required'')
      else
        and_then (wrap_error ''KAFKA_TOPIC_PARTITIONS'' (positive_integer (lookup ''KAFKA_TOPIC_PARTITIONS'') 3))
          (\<lambda>partitions.
        and_then (wrap_error ''KAFKA_TOPIC_REPLICATION'' (positive_integer (lookup ''KAFKA_TOPIC_REPLICATION'') 1))
          (\<lambda>replication.
        and_then (topic_retention scale_fraction (lookup ''KAFKA_TOPIC_RETENTION'')) (\<lambda>retention.
        and_then (topic_security lookup) (\<lambda>security.
          Inr \<lparr>ts_broker = broker,
               ts_topic =
                 \<lparr>tc_name = default_to ''transaction.review-candidates.v1'' (lookup ''KAFKA_TOPIC''),
                  tc_partitions = partitions, tc_replication_factor = replication, tc_retention = retention\<rparr>,
               ts_security = security\<rparr>)))))"

subsection \<open>Creating the topic\<close>

text \<open>
  A connection is an opaque value; \<open>controller\<close> asks one for the host and port of the controller,
  \<open>admin\<close> sends a creation request over one.
\<close>

definition join_host_port :: "go_string \<Rightarrow> int \<Rightarrow> go_string" where
  "join_host_port host port =
     (if CHR '':'' \<in> set host then ''['' @ host @ '']:'' @ itoa_int port else host @ '':'' @ itoa_int port)"

definition run_topic_bootstrap ::
  "(go_string \<Rightarrow> 'q \<Rightarrow> 'c result \<times> 'q) \<Rightarrow> ('c \<Rightarrow> 'q \<Rightarrow> (go_string \<times> int) result \<times> 'q) \<Rightarrow> ('c \<Rightarrow> 'q topic_admin)
     \<Rightarrow> topic_settings \<Rightarrow> 'q \<Rightarrow> go_error option \<times> 'q" where
  "run_topic_bootstrap dial controller admin settings q =
     (case dial (ts_broker settings) q of
        (Inl e, q1) \<Rightarrow> (Some (Wrap ''connect to Kafka'' e), q1)
      | (Inr seed, q1) \<Rightarrow>
          (case controller seed q1 of
             (Inl e, q2) \<Rightarrow> (Some (Wrap ''discover Kafka controller'' e), q2)
           | (Inr (host, port), q2) \<Rightarrow>
               (case dial (join_host_port host port) q2 of
                  (Inl e, q3) \<Rightarrow> (Some (Wrap ''connect to Kafka controller'' e), q3)
                | (Inr conn, q3) \<Rightarrow>
                    (case ensure_topic (admin conn) (ts_topic settings) q3 of
                       (Some e, q4) \<Rightarrow> (Some (Wrap ''ensure Kafka topic'' e), q4)
                     | (None, q4) \<Rightarrow> (None, q4)))))"

subsection \<open>Secrets and start\<close>

text \<open>
  What both programs do first: at most one provider of secrets may be set, and its values stand
  in for what the environment leaves unset. \<open>load_file\<close> and \<open>load_aws\<close> are the loads of the two
  providers; \<open>init_aws\<close> is the error of building the second.
\<close>

definition with_secrets ::
  "(go_string \<Rightarrow> (go_string \<times> go_string) list result) \<Rightarrow> (go_string \<Rightarrow> go_error option)
     \<Rightarrow> (go_string \<Rightarrow> (go_string \<times> go_string) list result) \<Rightarrow> go_string \<Rightarrow> lookup \<Rightarrow> lookup result" where
  "with_secrets load_file init_aws load_aws ctx lookup =
     (let local_path = lookup ''LOCAL_SECRET_FILE''; aws_id = lookup ''AWS_SECRET_ID'' in
      if local_path \<noteq> [] \<and> aws_id \<noteq> [] then Inl (Errorf ''LOCAL_SECRET_FILE and AWS_SECRET_ID are mutually exclusive'')
      else if local_path = [] \<and> aws_id = [] then Inr lookup
      else if local_path \<noteq> []
        then and_then (wrap_error ctx (load_file local_path)) (\<lambda>values. Inr (overlay lookup values))
      else (case init_aws aws_id of
              Some e \<Rightarrow> Inl e
            | None \<Rightarrow> and_then (wrap_error ctx (load_aws aws_id)) (\<lambda>values. Inr (overlay lookup values))))"

text \<open>\<open>topicConfigurationLookup\<close>: the AWS configuration error hides its cause.\<close>

definition topic_configuration_lookup ::
  "(go_string \<Rightarrow> (go_string \<times> go_string) list result) \<Rightarrow> bool
     \<Rightarrow> (go_string \<Rightarrow> (go_string \<times> go_string) list result) \<Rightarrow> lookup \<Rightarrow> lookup result" where
  "topic_configuration_lookup load_file aws_config_ok load_aws lookup =
     with_secrets load_file
       (\<lambda>_. if aws_config_ok then None else Some (Errorf ''load AWS configuration'')) load_aws
       ''load topic configuration'' lookup"

text \<open>\<open>secureKafkaDial\<close>: \<open>dial\<close> is what dialling with a dialer does.\<close>

definition secure_kafka_dial ::
  "(security_config \<Rightarrow> kafka_dialer result) \<Rightarrow> (kafka_dialer \<Rightarrow> 'a) \<Rightarrow> topic_settings \<Rightarrow> 'a result" where
  "secure_kafka_dial dialer dial settings =
     (case dialer (ts_security settings) of
        Inl e \<Rightarrow> Inl (Wrap ''configure Kafka connection'' e) | Inr d \<Rightarrow> Inr (dial d))"

text \<open>\<open>runProductionCLI\<close>; \<open>bootstrap\<close> is the run of the bootstrap with a dialer.\<close>

definition run_production_cli ::
  "(lookup \<Rightarrow> lookup result) \<Rightarrow> (nat \<Rightarrow> nat \<Rightarrow> nat \<Rightarrow> nat) \<Rightarrow> (security_config \<Rightarrow> kafka_dialer result)
     \<Rightarrow> (kafka_dialer \<Rightarrow> topic_settings \<Rightarrow> 'q \<Rightarrow> go_error option \<times> 'q) \<Rightarrow> lookup \<Rightarrow> 'q \<Rightarrow> go_error option \<times> 'q" where
  "run_production_cli config_lookup scale_fraction dialer bootstrap lookup0 q =
     (case config_lookup lookup0 of
        Inl e \<Rightarrow> (Some e, q)
      | Inr lookup \<Rightarrow>
          (case load_topic_settings scale_fraction lookup of
             Inl e \<Rightarrow> (Some e, q)
           | Inr settings \<Rightarrow>
               (case secure_kafka_dial dialer bootstrap settings of
                  Inl e \<Rightarrow> (Some e, q)
                | Inr run \<Rightarrow> run settings q)))"

definition exit_code :: "go_error option \<Rightarrow> int" where
  "exit_code e = (if e \<noteq> None then 1 else 0)"

text \<open>\<open>runWithAWSProvider\<close> of the service; \<open>starters\<close> gives the starter of a mode, if it has one.\<close>

definition service_init_aws :: "(go_string \<Rightarrow> go_error option) option \<Rightarrow> go_string \<Rightarrow> go_error option" where
  "service_init_aws aws_factory secret_id =
     (case aws_factory of
        None \<Rightarrow> Some (Errorf ''initialize AWS secret provider: unavailable'')
      | Some f \<Rightarrow> map_option (Wrap ''initialize AWS secret provider'') (f secret_id))"

text \<open>\<open>productionAWSProvider\<close>, as the error it reports.\<close>

definition production_aws_provider :: "go_context \<Rightarrow> bool \<Rightarrow> go_string \<Rightarrow> go_error option" where
  "production_aws_provider ctx config_ok secret_id =
     (case ctx of
        Some e \<Rightarrow> Some (Wrap ''load AWS configuration'' e)
      | None \<Rightarrow> if config_ok then None else Some (Errorf ''load AWS configuration''))"

definition run_service ::
  "(go_string \<Rightarrow> (go_string \<times> go_string) list result) \<Rightarrow> (go_string \<Rightarrow> go_error option) option
     \<Rightarrow> (go_string \<Rightarrow> (go_string \<times> go_string) list result)
     \<Rightarrow> (mode \<Rightarrow> (config \<Rightarrow> 'q \<Rightarrow> go_error option \<times> 'q) option) \<Rightarrow> go_string list \<Rightarrow> lookup \<Rightarrow> 'q \<Rightarrow> go_error option \<times> 'q" where
  "run_service load_file aws_factory load_aws starters arguments lookup q =
     (case arguments of
        [argument] \<Rightarrow>
          (case parse_mode argument of
             Inl e \<Rightarrow> (Some e, q)
           | Inr m \<Rightarrow>
               (case with_secrets load_file (service_init_aws aws_factory) load_aws
                       ''load secret configuration'' lookup of
                  Inl e \<Rightarrow> (Some e, q)
                | Inr lookup' \<Rightarrow>
                    (case load_config lookup' of
                       Inl e \<Rightarrow> (Some (Wrap ''load configuration'' e), q)
                     | Inr c \<Rightarrow>
                         if cf_store_driver c = ''ndjson'' \<and> m \<noteq> ModeLocal
                         then (Some (Errorf ''NDJSON storage is supported only in combined local mode''), q)
                         else (case starters m of
                                 None \<Rightarrow> (Some (Errorq ''mode %q has no starter'' (mode_text m)), q)
                               | Some start \<Rightarrow> start c q))))
      | _ \<Rightarrow> (Some (Errorf ''usage: transaction-service <api|worker|local>''), q))"

subsection \<open>Facts\<close>

lemma wrap_error_Inr [simp]: "wrap_error ctx r = Inr x \<longleftrightarrow> r = Inr x"
  by (auto simp: wrap_error_def split: sum.splits)

lemma positive_integer_pos: "positive_integer raw fb = Inr v \<Longrightarrow> 0 < fb \<Longrightarrow> 0 < v"
  by (auto simp: positive_integer_def split: if_splits option.splits)

lemma topic_retention_pos: "topic_retention sf raw = Inr d \<Longrightarrow> 0 <s d"
  by (auto simp: topic_retention_def week_dur_def seconds_dur_def second_ns_def word_sless_alt word_sle_eq
      split: if_splits option.splits)

text \<open>Loaded settings are ones that \<open>ensure_topic\<close> sends on: its own check never fails on them.\<close>

lemma load_topic_settings_ok:
  assumes "load_topic_settings sf lookup = Inr s"
  shows "ts_broker s \<noteq> [] \<and> tc_name (ts_topic s) \<noteq> [] \<and> 0 < tc_partitions (ts_topic s)
     \<and> 0 < tc_replication_factor (ts_topic s) \<and> 0 <s tc_retention (ts_topic s)"
  using assms positive_integer_pos topic_retention_pos
  by (fastforce simp: load_topic_settings_def Let_def and_then_Inr default_to_def split: if_splits)

end
