(* ===== verification/GoMime.thy ===== *)
theory GoMime
  imports GoText
begin

text \<open>
  What the program uses of Go's \<open>mime.ParseMediaType\<close>: the media type and whether the header
  value parses. The parameters are parsed, since a malformed one is an error, but their values are
  not returned: no caller reads them.
\<close>

text \<open>The bytes \<open>isTSpecial\<close> and \<open>isTokenChar\<close> accept.\<close>

definition is_tspecial :: "char \<Rightarrow> bool" where
  [go_eval]: "is_tspecial c \<longleftrightarrow> c \<in> set ''()<>@,;:/[]?='' \<union> {CHR 0x22, CHR 0x5C}"

definition is_token_char :: "char \<Rightarrow> bool" where
  [go_eval]: "is_token_char c \<longleftrightarrow> 32 < byte_val c \<and> byte_val c < 127 \<and> \<not> is_tspecial c"

definition consume_token :: "go_string \<Rightarrow> go_string \<times> go_string" where
  [go_eval]: "consume_token v = (takeWhile is_token_char v, dropWhile is_token_char v)"

text \<open>\<open>strings.TrimLeftFunc(v, unicode.IsSpace)\<close>.\<close>

definition trim_left :: "go_string \<Rightarrow> go_string" where
  [go_eval]: "trim_left s = concat (dropWhile space_chunk (chunks s))"

text \<open>
  \<open>strings.ToLower\<close>, exact on every rune whose lower case is ASCII: the ASCII letters, U+0130 and
  the Kelvin sign. Other runes never become ASCII; they are copied.
\<close>

definition lower_char :: "char \<Rightarrow> char" where
  [go_eval]: "lower_char c = (if 65 \<le> byte_val c \<and> byte_val c \<le> 90 then byte_of (byte_val c + 32) else c)"

definition lower_chunk :: "go_string \<Rightarrow> go_string" where
  [go_eval]: "lower_chunk ch =
     (let r = fst (decode_rune ch) in
      if bad_chunk ch then encode_rune rune_error
      else if r = 304 then ''i'' else if r = 8490 then ''k'' else List.map lower_char ch)"

definition to_lower :: "go_string \<Rightarrow> go_string" where
  [go_eval]: "to_lower s = concat (List.map lower_chunk (chunks s))"

text \<open>A quoted value after its opening quote; \<open>None\<close> when it does not end.\<close>

fun quoted_value :: "go_string \<Rightarrow> (go_string \<times> go_string) option" where
  "quoted_value [] = None"
| "quoted_value (r # v) =
     (if r = CHR 0x22 then Some ([], v)
      else if r = CHR 0x5C \<and> (case v of x # _ \<Rightarrow> is_tspecial x | [] \<Rightarrow> False)
        then map_option (\<lambda>(b, rest). (hd v # b, rest)) (quoted_value (tl v))
      else if r = CHR 0x0D \<or> r = CHR 0x0A then None
      else map_option (\<lambda>(b, rest). (r # b, rest)) (quoted_value v))"

definition consume_value :: "go_string \<Rightarrow> go_string \<times> go_string" where
  [go_eval]: "consume_value v =
     (case v of
        [] \<Rightarrow> ([], [])
      | c # cs \<Rightarrow>
          if c = CHR 0x22 then (case quoted_value cs of Some p \<Rightarrow> p | None \<Rightarrow> ([], v))
          else consume_token v)"

definition strip_byte :: "char \<Rightarrow> go_string \<Rightarrow> go_string option" where
  [go_eval]: "strip_byte b s = (case s of c # cs \<Rightarrow> if c = b then Some cs else None | [] \<Rightarrow> None)"

text \<open>One parameter \<open>; name = value\<close> with the text after it; \<open>None\<close> is the empty name.\<close>

definition consume_media_param :: "go_string \<Rightarrow> (go_string \<times> go_string \<times> go_string) option" where
  [go_eval]: "consume_media_param v =
     (case strip_byte CHR '';'' (trim_left v) of
        None \<Rightarrow> None
      | Some r1 \<Rightarrow>
          (let (param, r2) = consume_token (trim_left r1) in
           if param = [] then None
           else (case strip_byte CHR ''='' (trim_left r2) of
                   None \<Rightarrow> None
                 | Some r3 \<Rightarrow>
                     (let r4 = trim_left r3; (val, r5) = consume_value r4 in
                      if val = [] \<and> r5 = r4 then None else Some (to_lower param, val, r5)))))"

lemma trim_left_length: "length (trim_left s) \<le> length s"
proof -
  have "length (concat (dropWhile P xs)) \<le> length (concat xs)" for P and xs :: "go_string list"
    by (induction xs) auto
  from this [of space_chunk "chunks s"] show ?thesis by (simp add: trim_left_def)
qed

lemma quoted_value_length: "quoted_value v = Some (b, r) \<Longrightarrow> length r < length v"
proof (induction v arbitrary: b r rule: quoted_value.induct)
  case (2 c v)
  then show ?case by (cases v) (fastforce split: if_splits)+
qed simp

lemma consume_value_length: "length (snd (consume_value v)) \<le> length v"
proof (cases v)
  case (Cons c cs)
  show ?thesis
  proof (cases "c = CHR 0x22")
    case True
    show ?thesis
    proof (cases "quoted_value cs")
      case (Some p)
      with quoted_value_length [of cs "fst p" "snd p"] True Cons show ?thesis by (simp add: consume_value_def)
    qed (use True Cons in \<open>simp add: consume_value_def\<close>)
  next
    case False
    with Cons dropWhile_length_le [of is_token_char v] show ?thesis by (simp add: consume_value_def consume_token_def)
  qed
qed (simp add: consume_value_def)

lemma consume_media_param_length:
  assumes "consume_media_param v = Some (k, x, r)"
  shows "length r < length v"
proof -
  from assms obtain r1 r2 r3 where
    r1: "strip_byte CHR '';'' (trim_left v) = Some r1" and r2: "r2 = snd (consume_token (trim_left r1))"
    and r3: "strip_byte CHR ''='' (trim_left r2) = Some r3" and r: "r = snd (consume_value (trim_left r3))"
    by (auto simp: consume_media_param_def Let_def split: option.splits prod.splits if_splits)
  have "length r1 < length v" using r1 trim_left_length [of v]
    by (auto simp: strip_byte_def split: list.splits if_splits)
  moreover have "length r2 \<le> length r1" using r2 trim_left_length [of r1]
    by (simp add: consume_token_def) (meson dropWhile_length_le le_trans)
  moreover have "length r3 < length r2" using r3 trim_left_length [of r2]
    by (auto simp: strip_byte_def split: list.splits if_splits)
  moreover have "length r \<le> length r3" using r consume_value_length trim_left_length [of r3] le_trans by blast
  ultimately show ?thesis by simp
qed

text \<open>
  The loop over the parameters. A name with a star is kept in the map of its base name, which is
  the same as one map keyed by the full name; a repeated name must repeat its value.
\<close>

function media_params_ok :: "(go_string \<times> go_string) list \<Rightarrow> go_string \<Rightarrow> bool" where
  "media_params_ok seen v0 =
     (let v = trim_left v0 in
      if v = [] then True
      else (case consume_media_param v of
              None \<Rightarrow> trim_space v = '';''
            | Some (key, val, rest) \<Rightarrow>
                (case map_of seen key of
                   Some old \<Rightarrow> old = val \<and> media_params_ok seen rest
                 | None \<Rightarrow> media_params_ok ((key, val) # seen) rest)))"
  by pat_completeness auto
termination
proof (relation "measure (length \<circ> snd)")
  fix seen :: "(go_string \<times> go_string) list" and v0 v p key q val rest old
  assume v: "v = trim_left v0" and p: "consume_media_param v = Some p" and "(key, q) = p" and "(val, rest) = q"
  then have "length rest < length (trim_left v0)" using consume_media_param_length by blast
  then have "length rest < length v0" using trim_left_length [of v0] by simp
  then show "((seen, rest), seen, v0) \<in> measure (length \<circ> snd)"
    and "(((key, val) # seen, rest), seen, v0) \<in> measure (length \<circ> snd)" by simp_all
qed auto

declare media_params_ok.simps [simp del]

text \<open>\<open>checkMediaTypeDisposition\<close>.\<close>

definition media_type_ok :: "go_string \<Rightarrow> bool" where
  [go_eval]: "media_type_ok s =
     (let (typ, rest) = consume_token s in
      typ \<noteq> [] \<and>
      (rest = [] \<or>
       (case strip_byte CHR ''/'' rest of
          None \<Rightarrow> False
        | Some r \<Rightarrow> (let (sub, rest') = consume_token r in sub \<noteq> [] \<and> rest' = []))))"

text \<open>The media type, \<open>None\<close> for an error.\<close>

definition parse_media_type :: "go_string \<Rightarrow> go_string option" where
  [go_eval]: "parse_media_type v =
     (let base = takeWhile (\<lambda>c. c \<noteq> CHR '';'') v;
          mt = trim_space (to_lower base)
      in if media_type_ok mt \<and> media_params_ok [] (drop (length base) v) then Some mt else None)"

lemma media_params_ok_Nil [simp]: "media_params_ok seen [] \<longleftrightarrow> True"
  by (subst media_params_ok.simps) (simp add: trim_left_def)

lemma parse_media_type_plain: "parse_media_type ''application/json'' = Some ''application/json''"
  by (simp add: go_eval)

end
