(* ===== verification/StaticAuth.thy ===== *)
theory StaticAuth
  imports GoSha256
begin

text \<open>
  \<open>internal/transaction/adapters/http/static_auth.go\<close>: partner API keys, kept as SHA-256 digests.
  The Go map of keys is the list of its entries in the order of the iteration.
\<close>

record api_key_entry =
  ake_partner_id :: go_string
  ake_digest :: go_string

type_synonym static_api_keys = "api_key_entry list"

definition new_static_api_keys :: "(go_string \<times> go_string) list \<Rightarrow> static_api_keys" where
  "new_static_api_keys keys =
     map (\<lambda>(partner, key). \<lparr>ake_partner_id = partner, ake_digest = sha256 key\<rparr>)
       (filter (\<lambda>(partner, key). \<not> (partner = [] \<or> key = [])) keys)"

text \<open>\<open>subtle.ConstantTimeCompare\<close> is 1 exactly on equal slices.\<close>

fun match_entry :: "go_string \<Rightarrow> api_key_entry list \<Rightarrow> go_string option" where
  "match_entry candidate [] = None"
| "match_entry candidate (e # es) =
     (if candidate = ake_digest e then Some (ake_partner_id e) else match_entry candidate es)"

text \<open>The partner of a key, \<open>None\<close> when the key is refused.\<close>

definition authenticate :: "static_api_keys \<Rightarrow> go_string \<Rightarrow> go_string option" where
  "authenticate keys key = (if key = [] then None else match_entry (sha256 key) keys)"

subsection \<open>Facts\<close>

lemma match_entry_Some: "match_entry d es = Some p \<Longrightarrow> \<exists>e \<in> set es. ake_digest e = d \<and> ake_partner_id e = p"
  by (induction es) (auto split: if_splits)

lemma match_entry_None: "match_entry d es = None \<longleftrightarrow> (\<forall>e \<in> set es. ake_digest e \<noteq> d)"
  by (induction es) auto

text \<open>An accepted key belongs to a configured partner whose key has the same digest.\<close>

lemma authenticate_sound:
  assumes "authenticate (new_static_api_keys keys) key = Some p"
  shows "\<exists>k. (p, k) \<in> set keys \<and> p \<noteq> [] \<and> k \<noteq> [] \<and> key \<noteq> [] \<and> sha256 k = sha256 key"
proof -
  from assms have "key \<noteq> []" and m: "match_entry (sha256 key) (new_static_api_keys keys) = Some p"
    by (auto simp: authenticate_def split: if_splits)
  with match_entry_Some [OF m] show ?thesis by (fastforce simp: new_static_api_keys_def)
qed

text \<open>Every key configured for a named partner is accepted.\<close>

lemma authenticate_complete:
  assumes "(p, key) \<in> set keys" "p \<noteq> []" "key \<noteq> []"
  shows "\<exists>q k. authenticate (new_static_api_keys keys) key = Some q \<and> (q, k) \<in> set keys \<and> sha256 k = sha256 key"
proof -
  let ?es = "new_static_api_keys keys"
  have "\<exists>e \<in> set ?es. ake_digest e = sha256 key"
    using assms by (force simp: new_static_api_keys_def)
  then obtain q where q: "match_entry (sha256 key) ?es = Some q" by (metis match_entry_None option.exhaust)
  with assms(3) have "authenticate ?es key = Some q" by (simp add: authenticate_def)
  with authenticate_sound [OF this] show ?thesis by blast
qed

end
