(* ===== verification/HttpHandler.thy ===== *)
theory HttpHandler
  imports Intake GoMime StaticAuth
begin

text \<open>
  \<open>internal/transaction/adapters/http/handler.go\<close>: the intake endpoint and the probes.

  A request is its method, path, header (the value of each canonical name, empty when absent),
  declared length, the bytes of its body and how the transport ends it. The handler's calls are
  parameters: the intake service is a state transformer, \<open>h_new_request_id\<close> is the value of the
  one call of \<open>newRequestID\<close> a request can make and \<open>h_ready\<close> the value of \<open>ready()\<close>. A response is
  its status, header and body; a handler writes it once.
\<close>

subsection \<open>Data\<close>

type_synonym 's accept_op = "go_context \<Rightarrow> accept_command \<Rightarrow> 's \<Rightarrow> accept_result result \<times> 's"

type_synonym authenticator = "go_string \<Rightarrow> go_string option"

record 's handler =
  h_intake :: "'s accept_op"
  h_auth :: "authenticator option"
  h_new_request_id :: go_string
  h_ready :: bool
  h_default_currency :: go_string

type_synonym http_header = "go_string \<rightharpoonup> go_string"

record http_request =
  rq_method :: go_string
  rq_path :: go_string
  rq_header :: http_header
  rq_content_length :: int
  rq_body :: go_string
  rq_body_end :: read_end
  rq_context :: go_context

record http_response =
  rs_status :: nat
  rs_header :: http_header
  rs_body :: go_string

definition header_get :: "http_header \<Rightarrow> go_string \<Rightarrow> go_string" where
  [go_eval]: "header_get h k = (case h k of None \<Rightarrow> [] | Some v \<Rightarrow> v)"

definition max_request_body_bytes :: nat where
  [go_eval]: "max_request_body_bytes = 64 * 1024"

text \<open>\<open>^[A-Za-z0-9][A-Za-z0-9._:-]{0,127}$\<close>\<close>

definition is_alnum :: "char \<Rightarrow> bool" where
  [go_eval]: "is_alnum c \<longleftrightarrow> is_letter c \<or> is_digit c"

definition request_id_matches :: "go_string \<Rightarrow> bool" where
  [go_eval]: "request_id_matches s =
     (case s of
        [] \<Rightarrow> False
      | c # cs \<Rightarrow> is_alnum c \<and> length cs \<le> 127
          \<and> list_all (\<lambda>x. is_alnum x \<or> x \<in> {CHR ''.'', CHR ''_'', CHR '':'', CHR ''-''}) cs)"

subsection \<open>Responses\<close>

definition write_json :: "http_header \<Rightarrow> nat \<Rightarrow> json \<Rightarrow> http_response" where
  "write_json h status val =
     \<lparr>rs_status = status, rs_header = h(''Content-Type'' \<mapsto> ''application/json''),
      rs_body = marshal val @ [CHR 0x0A]\<rparr>"

definition write_error :: "http_header \<Rightarrow> nat \<Rightarrow> go_string \<Rightarrow> http_response" where
  "write_error h status message =
     write_json h status (JObject [(''code'', JNumber (itoa status)), (''message'', JString message)])"

definition write_status :: "http_header \<Rightarrow> nat \<Rightarrow> http_response" where
  "write_status h status = \<lparr>rs_status = status, rs_header = h, rs_body = []\<rparr>"

subsection \<open>Decoding the transaction\<close>

text \<open>The decoded map of raw messages; \<open>None\<close> is the nil map of a body \<open>null\<close>.\<close>

type_synonym transaction_request = "(go_string \<times> go_string) list option"

definition request_field :: "transaction_request \<Rightarrow> go_string \<Rightarrow> go_string option" where
  [go_eval]: "request_field input name = (case input of None \<Rightarrow> None | Some m \<Rightarrow> map_of m name)"

definition is_null :: "go_string \<Rightarrow> bool" where
  [go_eval]: "is_null raw \<longleftrightarrow> trim_space raw = ''null''"

definition unmarshal_text :: "go_string \<Rightarrow> go_string \<Rightarrow> go_string \<Rightarrow> go_string result" where
  "unmarshal_text name raw cur =
     (case unmarshal_string raw cur of Inl e \<Rightarrow> Inl (Wrap name (json_go_error e)) | Inr v \<Rightarrow> Inr v)"

definition required_string :: "transaction_request \<Rightarrow> go_string \<Rightarrow> go_string result" where
  "required_string input name =
     (case request_field input name of
        None \<Rightarrow> Inl (Errorf (name @ '' is required''))
      | Some raw \<Rightarrow>
          if is_null raw then Inl (Errorf (name @ '' is required'')) else unmarshal_text name raw [])"

definition required_raw_string :: "(go_string \<times> go_string) list \<Rightarrow> go_string \<Rightarrow> go_string result" where
  "required_raw_string members name =
     (case map_of members name of
        None \<Rightarrow> Inl (Errorf (''plate.'' @ name @ '' is required''))
      | Some raw \<Rightarrow>
          if is_null raw then Inl (Errorf (''plate.'' @ name @ '' is required''))
          else unmarshal_text (''plate.'' @ name) raw [])"

text \<open>A field that is absent or null leaves the variable as it is.\<close>

definition optional_string :: "transaction_request \<Rightarrow> go_string \<Rightarrow> go_string \<Rightarrow> go_string result" where
  "optional_string input name cur =
     (case request_field input name of
        None \<Rightarrow> Inr cur
      | Some raw \<Rightarrow> if is_null raw then Inr cur else unmarshal_text name raw cur)"

definition optional_plate :: "transaction_request \<Rightarrow> plate option result" where
  "optional_plate input =
     (case request_field input ''plate'' of
        None \<Rightarrow> Inr None
      | Some raw \<Rightarrow>
          if is_null raw then Inl (Errorf ''plate cannot be null'')
          else (case unmarshal_raw_map raw of
                  Inr (Some members) \<Rightarrow>
                    and_then (required_raw_string members ''number'') (\<lambda>number.
                    and_then (required_raw_string members ''jurisdiction'') (\<lambda>jurisdiction.
                      Inr (Some \<lparr>plate_number = number, plate_jurisdiction = jurisdiction\<rparr>)))
                | _ \<Rightarrow> Inl (Errorf ''plate must be an object'')))"

text \<open>The decoder reads the first value of the field; the raw bytes are copied.\<close>

definition optional_object :: "transaction_request \<Rightarrow> go_string \<Rightarrow> (any_map \<times> raw_message) result" where
  "optional_object input name =
     (case request_field input name of
        None \<Rightarrow> Inr (None, None)
      | Some raw \<Rightarrow>
          if is_null raw then Inl (Errorf (name @ '' cannot be null''))
          else (case decode_any_map EndOfData raw of
                  Inr (Some m, _) \<Rightarrow> Inr (Some m, if raw = [] then None else Some raw)
                | _ \<Rightarrow> Inl (Errorf (name @ '' must be an object''))))"

definition to_domain :: "transaction_request \<Rightarrow> go_string \<Rightarrow> go_string \<Rightarrow> transaction result" where
  "to_domain input partner_id default_currency =
     and_then (required_string input ''source'') (\<lambda>src.
     and_then (required_string input ''source_reference'') (\<lambda>source_reference.
     and_then (required_string input ''transaction_type'') (\<lambda>transaction_type.
     and_then (required_string input ''transaction_time_utc'') (\<lambda>timestamp.
     and_then (required_string input ''base_amount'') (\<lambda>base_amount.
     (case parse_rfc3339 timestamp of
        None \<Rightarrow> Inl (External ''parsing time'')
      | Some occurred_at \<Rightarrow>
          if t_zone occurred_at \<noteq> 0 then Inl (Errorf ''transaction_time_utc must use UTC'')
          else
            and_then (optional_string input ''currency'' default_currency) (\<lambda>currency.
            if 8 < rune_count currency then Inl (Errorf ''currency is too long'')
            else
              and_then (optional_string input ''transponder_number'' []) (\<lambda>transponder.
              and_then (optional_plate input) (\<lambda>plate.
              and_then (optional_object input ''location'') (\<lambda>(location, location_raw).
              and_then (optional_object input ''metadata'') (\<lambda>(metadata, metadata_raw).
                Inr \<lparr>tx_id = [], tx_source = src, tx_source_reference = source_reference,
                     tx_type = transaction_type, tx_time = occurred_at, tx_base_amount = base_amount,
                     tx_currency = currency, tx_plate = plate, tx_transponder = transponder,
                     tx_location = location, tx_metadata = metadata,
                     tx_location_raw = location_raw, tx_metadata_raw = metadata_raw\<rparr>)))))))))))"

subsection \<open>The intake endpoint\<close>

text \<open>
  \<open>http.MaxBytesReader\<close>: the first 64 KiB of the body, and then an error of its own when there is
  more. \<open>too_large\<close> tells that error from one of the transport.
\<close>

definition too_large :: "http_request \<Rightarrow> bool" where
  [go_eval]: "too_large rq \<longleftrightarrow> max_request_body_bytes < length (rq_body rq)"

definition limited_end :: "http_request \<Rightarrow> read_end" where
  [go_eval]: "limited_end rq = (if too_large rq then ReadFailed else rq_body_end rq)"

text \<open>\<open>ensureJSONEnd\<close>: whether the next \<open>Decode\<close> ends with \<open>io.EOF\<close>.\<close>

definition ensure_json_end :: "read_end \<Rightarrow> go_string \<Rightarrow> bool" where
  "ensure_json_end e rest \<longleftrightarrow> read_value e rest = Inl DecodeEOF"

definition accept_response :: "http_header \<Rightarrow> accept_result result \<Rightarrow> http_response" where
  "accept_response h r =
     (case r of
        Inl e \<Rightarrow>
          if errors_is e ErrInvalidTransaction then write_error h 400 ''transaction is invalid''
          else if errors_is e ErrConflict
            then write_error h 400 ''source reference already has different content''
          else write_error h 503 ''transaction service is unavailable''
      | Inr res \<Rightarrow>
          (let replayed = (res_kind res = Replayed);
               h' = (if replayed then h(''Idempotent-Replay'' \<mapsto> ''true'') else h)
           in write_json h' (if replayed then 200 else 201)
                (JObject [(''association_status'', JString ''received''), (''duplicate'', JBool replayed),
                          (''id'', JString (res_id res)), (''settlement_status'', JString ''priced'')])))"

definition submit :: "'s handler \<Rightarrow> http_request \<Rightarrow> http_header \<Rightarrow> go_string \<Rightarrow> go_string \<Rightarrow> 's
    \<Rightarrow> http_response \<times> 's" where
  "submit hl rq h request_id partner_id s =
     (case decode_raw_map (limited_end rq) (take max_request_body_bytes (rq_body rq)) of
        Inl e \<Rightarrow>
          (if e = DecodeRead \<and> too_large rq then write_error h 413 ''request body is too large''
           else write_error h 400 ''request body must be valid JSON'', s)
      | Inr (input, rest) \<Rightarrow>
          if \<not> ensure_json_end (limited_end rq) rest
          then (write_error h 400 ''request body must contain one JSON object'', s)
          else
            (case to_domain input partner_id (h_default_currency hl) of
               Inl e \<Rightarrow> (write_error h 400 ''transaction is invalid'', s)
             | Inr t \<Rightarrow>
                 (let (r, s') = h_intake hl (rq_context rq)
                                  \<lparr>cmd_transaction = t, cmd_correlation_id = request_id\<rparr> s
                  in (accept_response h r, s'))))"

definition request_id :: "'s handler \<Rightarrow> http_request \<Rightarrow> go_string" where
  "request_id hl rq =
     (let given = header_get (rq_header rq) ''X-Request-Id''
      in if request_id_matches given then given else h_new_request_id hl)"

text \<open>\<open>Some\<close> partner, or \<open>None\<close> when an authenticator refuses the key.\<close>

definition check_api_key :: "'s handler \<Rightarrow> http_request \<Rightarrow> go_string option" where
  "check_api_key hl rq =
     (case h_auth hl of None \<Rightarrow> Some [] | Some auth \<Rightarrow> auth (header_get (rq_header rq) ''X-Api-Key''))"

definition transactions :: "'s handler \<Rightarrow> http_header \<Rightarrow> http_request \<Rightarrow> 's \<Rightarrow> http_response \<times> 's" where
  "transactions hl h0 rq s =
     (let rid = request_id hl rq; h = h0(''X-Request-Id'' \<mapsto> rid) in
      if rq_method rq \<noteq> ''POST''
      then (write_error (h(''Allow'' \<mapsto> ''POST'')) 405 ''method not allowed'', s)
      else
        (case check_api_key hl rq of
           None \<Rightarrow> (write_error h 401 ''invalid API key'', s)
         | Some partner_id \<Rightarrow>
             if parse_media_type (header_get (rq_header rq) ''Content-Type'') \<noteq> Some ''application/json''
             then (write_error h 415 ''content type must be application/json'', s)
             else if int max_request_body_bytes < rq_content_length rq
             then (write_error h 413 ''request body is too large'', s)
             else submit hl rq h rid partner_id s))"

subsection \<open>Probes and routing\<close>

definition health :: "http_header \<Rightarrow> http_request \<Rightarrow> http_response" where
  "health h rq =
     (if rq_method rq \<noteq> ''GET'' then write_status h 405
      else write_json h 200 (JObject [(''status'', JString ''ok'')]))"

definition readiness :: "'s handler \<Rightarrow> http_header \<Rightarrow> http_request \<Rightarrow> http_response" where
  "readiness hl h rq =
     (if rq_method rq \<noteq> ''GET'' then write_status h 405
      else if \<not> h_ready hl then write_json h 503 (JObject [(''status'', JString ''not_ready'')])
      else write_json h 200 (JObject [(''status'', JString ''ready'')]))"

definition metrics :: "http_header \<Rightarrow> http_request \<Rightarrow> http_response" where
  "metrics h rq =
     (if rq_method rq \<noteq> ''GET'' then write_status h 405
      else \<lparr>rs_status = 200, rs_header = h(''Content-Type'' \<mapsto> ''text/plain; version=0.0.4''),
            rs_body = ''transaction_service_up 1'' @ [CHR 0x0A]\<rparr>)"

definition security_headers :: http_header where
  "security_headers =
     Map.empty(''X-Content-Type-Options'' \<mapsto> ''nosniff'', ''X-Frame-Options'' \<mapsto> ''DENY'',
               ''Referrer-Policy'' \<mapsto> ''no-referrer'')"

definition new_handler ::
  "'s accept_op \<Rightarrow> authenticator option \<Rightarrow> go_string \<Rightarrow> bool \<Rightarrow> go_string list \<Rightarrow> 's handler" where
  "new_handler intake auth new_request_id ready currencies =
     \<lparr>h_intake = intake, h_auth = auth, h_new_request_id = new_request_id, h_ready = ready,
      h_default_currency =
        (case currencies of c # _ \<Rightarrow> if c \<noteq> [] then c else ''USD'' | [] \<Rightarrow> ''USD'')\<rparr>"

text \<open>
  The handler the mux picks for the request; \<open>None\<close> when no pattern matches and the mux answers
  by itself (404 or a redirect), without calling the program.
\<close>

definition serve_http :: "'s handler \<Rightarrow> http_request \<Rightarrow> 's \<Rightarrow> (http_response \<times> 's) option" where
  "serve_http hl rq s =
     (if rq_path rq = ''/ingest/v1/transactions'' then Some (transactions hl security_headers rq s)
      else if rq_path rq = ''/healthz'' then Some (health security_headers rq, s)
      else if rq_path rq = ''/readyz'' then Some (readiness hl security_headers rq, s)
      else if rq_path rq = ''/metrics'' then Some (metrics security_headers rq, s)
      else None)"

end
