(* ===== verification/StoreContract.thy ===== *)
theory StoreContract
  imports Outbox
begin

text \<open>
  What the application layer relies on in a store, whichever adapter provides it: the two ports
  \<open>IntakeStore\<close> and \<open>OutboxStore\<close> of \<open>internal/transaction/app\<close>, stated on an abstract view.

  The outbox of a store is a map from event identifiers to \<open>ev_state\<close>s; its identities are a map
  from identity keys to what a replay is answered from. The locales fix the operations and
  assume the laws; the dispatcher's and the intake service's facts are proved inside them.
\<close>

subsection \<open>The abstract outbox\<close>

datatype ev_status = Pending | Published | Failed

record ev_state =
  es_event :: outbox_event
  es_attempts :: int
  es_retry_at :: gotime
  es_lease_until :: gotime
  es_token :: go_string
  es_status :: ev_status

type_synonym outbox = "go_string \<Rightarrow> ev_state option"

definition new_ev_state :: "outbox_event \<Rightarrow> ev_state" where
  "new_ev_state ev =
     \<lparr>es_event = ev, es_attempts = 0, es_retry_at = zero_time, es_lease_until = zero_time,
      es_token = [], es_status = Pending\<rparr>"

definition es_claimable :: "gotime \<Rightarrow> ev_state \<Rightarrow> bool" where
  "es_claimable now e \<longleftrightarrow>
     es_status e = Pending \<and> \<not> time_after (es_retry_at e) now \<and> \<not> time_after (es_lease_until e) now"

text \<open>The caller's claim on an event is current: its token is the one the store holds.\<close>

definition held :: "outbox \<Rightarrow> go_string \<Rightarrow> go_string \<Rightarrow> bool" where
  "held ob eid tok \<longleftrightarrow> tok \<noteq> [] \<and> (\<exists>e. ob eid = Some e \<and> es_token e = tok)"

definition ob_update :: "go_string \<Rightarrow> (ev_state \<Rightarrow> ev_state) \<Rightarrow> outbox \<Rightarrow> outbox" where
  "ob_update eid f ob = ob(eid := map_option f (ob eid))"

definition mark_state :: "ev_state \<Rightarrow> ev_state" where
  "mark_state e = e\<lparr>es_status := Published, es_lease_until := zero_time, es_token := []\<rparr>"

definition fail_state :: "publish_failure \<Rightarrow> ev_state \<Rightarrow> ev_state" where
  "fail_state f e =
     e\<lparr>es_attempts := pf_attempts f, es_retry_at := pf_retry_at f,
       es_status := (if pf_terminal f then Failed else Pending),
       es_lease_until := zero_time, es_token := []\<rparr>"

definition lease_state :: "gotime \<Rightarrow> go_string \<Rightarrow> ev_state \<Rightarrow> ev_state" where
  "lease_state until tok e = e\<lparr>es_lease_until := until, es_token := tok\<rparr>"

definition pe_id :: "pending_event \<Rightarrow> go_string" where
  "pe_id p = ev_id (pe_event p)"

text \<open>
  What a claim may do: lease pending events, hand out each one once and as it is stored. A claim
  is timely when it picks events that no retry delay or lease holds back, and leases them for
  the given duration.
\<close>

definition claim_effect ::
  "(nat \<Rightarrow> go_string) \<Rightarrow> int \<Rightarrow> outbox \<Rightarrow> pending_event list \<Rightarrow> outbox \<Rightarrow> bool" where
  "claim_effect tokens limit ob ps ob' \<longleftrightarrow>
     distinct (map pe_id ps) \<and> int (length ps) \<le> limit
     \<and> (\<forall>p \<in> set ps. \<exists>e u. ob (pe_id p) = Some e \<and> es_status e = Pending
          \<and> pe_event p = es_event e \<and> pe_attempts p = es_attempts e
          \<and> pe_claim_token p \<in> range tokens
          \<and> ob' (pe_id p) = Some (lease_state u (pe_claim_token p) e))
     \<and> (\<forall>eid. eid \<notin> pe_id ` set ps \<longrightarrow> ob' eid = ob eid)"

definition claim_timely :: "gotime \<Rightarrow> duration \<Rightarrow> outbox \<Rightarrow> pending_event list \<Rightarrow> outbox \<Rightarrow> bool" where
  "claim_timely now lease ob ps ob' \<longleftrightarrow>
     (\<forall>p \<in> set ps. \<exists>e. ob (pe_id p) = Some e \<and> es_claimable now e
        \<and> ob' (pe_id p) = Some (lease_state (time_add now lease) (pe_claim_token p) e))"

text \<open>The identifiers of the stored events are their keys, and only pending events are leased.\<close>

definition ob_wf :: "outbox \<Rightarrow> bool" where
  "ob_wf ob \<longleftrightarrow>
     (\<forall>eid e. ob eid = Some e \<longrightarrow> ev_id (es_event e) = eid \<and> (es_token e \<noteq> [] \<longrightarrow> es_status e = Pending))"

lemma ob_update_same [simp]: "ob_update eid f ob eid = map_option f (ob eid)"
  by (simp add: ob_update_def)

lemma ob_update_other [simp]: "eid' \<noteq> eid \<Longrightarrow> ob_update eid f ob eid' = ob eid'"
  by (simp add: ob_update_def)

lemma mark_state_simps [simp]:
  "es_event (mark_state e) = es_event e" "es_attempts (mark_state e) = es_attempts e"
  "es_status (mark_state e) = Published" "es_token (mark_state e) = []"
  by (simp_all add: mark_state_def)

lemma fail_state_simps [simp]:
  "es_event (fail_state f e) = es_event e" "es_attempts (fail_state f e) = pf_attempts f"
  "es_token (fail_state f e) = []" "es_retry_at (fail_state f e) = pf_retry_at f"
  "es_status (fail_state f e) = (if pf_terminal f then Failed else Pending)"
  by (simp_all add: fail_state_def)

lemma lease_state_simps [simp]:
  "es_event (lease_state u tok e) = es_event e" "es_attempts (lease_state u tok e) = es_attempts e"
  "es_token (lease_state u tok e) = tok" "es_status (lease_state u tok e) = es_status e"
  by (simp_all add: lease_state_def)

lemma new_ev_state_simps [simp]:
  "es_event (new_ev_state ev) = ev" "es_attempts (new_ev_state ev) = 0"
  "es_token (new_ev_state ev) = []" "es_status (new_ev_state ev) = Pending"
  by (simp_all add: new_ev_state_def)

lemma ob_wf_update:
  "ob_wf ob \<Longrightarrow> (\<And>e. ob eid = Some e \<Longrightarrow> es_event (f e) = es_event e) \<Longrightarrow>
   (\<And>e. ob eid = Some e \<Longrightarrow> es_token (f e) \<noteq> [] \<Longrightarrow> es_status (f e) = Pending) \<Longrightarrow>
   ob_wf (ob_update eid f ob)"
  by (auto simp: ob_wf_def ob_update_def)

subsection \<open>The outbox port\<close>

text \<open>
  The laws of \<open>OutboxStore\<close>. An operation that reports success has had exactly its effect;
  \<open>mark\<close> and \<open>record_failure\<close> succeed only for the current claim. An operation that reports an
  error has had its effect or none: a remote store may lose its answer.
\<close>

locale outbox_store =
  fixes abs :: "'s \<Rightarrow> outbox"
    and inv :: "'s \<Rightarrow> bool"
    and claim :: "'s claim_fn"
    and mark :: "'s mark_fn"
    and record_failure :: "'s fail_fn"
  assumes abs_wf: "inv s \<Longrightarrow> ob_wf (abs s)"
    and claim_ok: "inv s \<Longrightarrow> 0 < limit \<Longrightarrow> claim ctx tokens now lease limit s = (Inr ps, s') \<Longrightarrow>
          inv s' \<and> claim_effect tokens limit (abs s) ps (abs s')"
    and claim_err: "inv s \<Longrightarrow> 0 < limit \<Longrightarrow> claim ctx tokens now lease limit s = (Inl e, s') \<Longrightarrow>
          inv s' \<and> (\<exists>ps. claim_effect tokens limit (abs s) ps (abs s'))"
    and mark_ok: "inv s \<Longrightarrow> mark ctx eid tok at s = (None, s') \<Longrightarrow>
          inv s' \<and> held (abs s) eid tok \<and> abs s' = ob_update eid mark_state (abs s)"
    and mark_err: "inv s \<Longrightarrow> mark ctx eid tok at s = (Some e, s') \<Longrightarrow>
          inv s' \<and> (abs s' = abs s
            \<or> held (abs s) eid tok \<and> abs s' = ob_update eid mark_state (abs s))"
    and fail_ok: "inv s \<Longrightarrow> record_failure ctx f s = (None, s') \<Longrightarrow>
          inv s' \<and> held (abs s) (pf_event_id f) (pf_claim_token f)
          \<and> abs s' = ob_update (pf_event_id f) (fail_state f) (abs s)"
    and fail_err: "inv s \<Longrightarrow> record_failure ctx f s = (Some e, s') \<Longrightarrow>
          inv s' \<and> (abs s' = abs s
            \<or> held (abs s) (pf_event_id f) (pf_claim_token f)
              \<and> abs s' = ob_update (pf_event_id f) (fail_state f) (abs s))"

text \<open>A store whose claims are timely.\<close>

locale timed_outbox_store = outbox_store +
  assumes claim_timed: "inv s \<Longrightarrow> 0 < limit \<Longrightarrow> claim ctx tokens now lease limit s = (Inr ps, s') \<Longrightarrow>
          claim_timely now lease (abs s) ps (abs s')"

text \<open>A store whose errors are final: an operation that reports one has changed nothing.\<close>

locale strict_outbox_store = outbox_store +
  assumes claim_strict: "inv s \<Longrightarrow> claim ctx tokens now lease limit s = (Inl e, s') \<Longrightarrow> abs s' = abs s"
    and mark_strict: "inv s \<Longrightarrow> mark ctx eid tok at s = (Some e, s') \<Longrightarrow> abs s' = abs s"
    and fail_strict: "inv s \<Longrightarrow> record_failure ctx f s = (Some e, s') \<Longrightarrow> abs s' = abs s"

text \<open>A store that serves every current claim when the context is live.\<close>

locale live_outbox_store = outbox_store +
  assumes claim_live: "inv s \<Longrightarrow> \<exists>ps s'. claim None tokens now lease limit s = (Inr ps, s')"
    and mark_live: "inv s \<Longrightarrow> held (abs s) eid tok \<Longrightarrow> \<exists>s'. mark None eid tok at s = (None, s')"
    and fail_live: "inv s \<Longrightarrow> held (abs s) (pf_event_id f) (pf_claim_token f) \<Longrightarrow>
          \<exists>s'. record_failure None f s = (None, s')"

subsection \<open>The dispatcher against the port\<close>

text \<open>
  The dispatcher's world is a store and a publisher; its store operations leave the publisher
  alone and its publications leave the store alone.
\<close>

definition on_store_claim :: "'s claim_fn \<Rightarrow> ('s \<times> 'q) claim_fn" where
  "on_store_claim claim ctx tokens now lease limit w =
     (let (r, s') = claim ctx tokens now lease limit (fst w) in (r, (s', snd w)))"

definition on_store_mark :: "'s mark_fn \<Rightarrow> ('s \<times> 'q) mark_fn" where
  "on_store_mark mark ctx eid tok at w = (let (r, s') = mark ctx eid tok at (fst w) in (r, (s', snd w)))"

definition on_store_fail :: "'s fail_fn \<Rightarrow> ('s \<times> 'q) fail_fn" where
  "on_store_fail rf ctx f w = (let (r, s') = rf ctx f (fst w) in (r, (s', snd w)))"

definition on_publisher :: "'q publish_fn \<Rightarrow> ('s \<times> 'q) publish_fn" where
  "on_publisher publish ctx ev w = (let (r, q') = publish ctx ev (snd w) in (r, (fst w, q')))"

text \<open>The answers of the publisher to the events of a batch, in order.\<close>

fun publish_outcomes ::
  "'q publish_fn \<Rightarrow> (nat \<Rightarrow> go_context) \<Rightarrow> nat \<Rightarrow> pending_event list \<Rightarrow> 'q \<Rightarrow> go_error option list" where
  "publish_outcomes publish ctxs i [] q = []"
| "publish_outcomes publish ctxs i (p # ps) q =
     (let (r, q') = publish (ctxs i) (pe_event p) q
      in r # publish_outcomes publish ctxs (i + 2) ps q')"

text \<open>The effect of one handled event, and of a batch, on the outbox.\<close>

definition spec_handle :: "dispatcher_config \<Rightarrow> gotime \<Rightarrow> pending_event \<times> go_error option \<Rightarrow> outbox \<Rightarrow> outbox" where
  "spec_handle cfg now = (\<lambda>(p, r) ob.
     case r of
       None \<Rightarrow> ob_update (pe_id p) mark_state ob
     | Some _ \<Rightarrow> ob_update (pe_id p) (fail_state (make_failure cfg now p)) ob)"

definition spec_batch ::
  "dispatcher_config \<Rightarrow> gotime \<Rightarrow> (pending_event \<times> go_error option) list \<Rightarrow> outbox \<Rightarrow> outbox" where
  "spec_batch cfg now prs ob = fold (spec_handle cfg now) prs ob"

lemma make_failure_ids [simp]:
  "pf_event_id (make_failure cfg now p) = pe_id p"
  "pf_claim_token (make_failure cfg now p) = pe_claim_token p"
  by (simp_all add: make_failure_def pe_id_def Let_def)

lemma length_publish_outcomes [simp]: "length (publish_outcomes publish ctxs i ps q) = length ps"
  by (induction ps arbitrary: i q) (simp_all split: prod.split)

lemma spec_handle_other: "eid \<noteq> pe_id (fst pr) \<Longrightarrow> spec_handle cfg now pr ob eid = ob eid"
  by (auto simp: spec_handle_def split: prod.split option.split)

lemma spec_batch_other: "eid \<notin> pe_id ` fst ` set prs \<Longrightarrow> spec_batch cfg now prs ob eid = ob eid"
  by (induction prs arbitrary: ob) (auto simp: spec_batch_def spec_handle_other)

lemma spec_batch_Cons: "spec_batch cfg now (pr # prs) ob = spec_batch cfg now prs (spec_handle cfg now pr ob)"
  by (simp add: spec_batch_def)

text \<open>What a batch does to the event of one of its entries.\<close>

lemma spec_batch_at:
  assumes "distinct (map (pe_id \<circ> fst) prs)" "(p, r) \<in> set prs" "ob (pe_id p) = Some e"
  shows "spec_batch cfg now prs ob (pe_id p) =
     Some (case r of None \<Rightarrow> mark_state e | Some _ \<Rightarrow> fail_state (make_failure cfg now p) e)"
  using assms
proof (induction prs arbitrary: ob)
  case (Cons pr prs)
  show ?case
  proof (cases "pr = (p, r)")
    case True
    with Cons.prems have "pe_id p \<notin> pe_id ` fst ` set prs" by (auto simp: image_image)
    with True Cons.prems(3) show ?thesis
      by (auto simp: spec_batch_Cons spec_batch_other spec_handle_def split: option.split)
  next
    case False
    with Cons.prems have mem: "(p, r) \<in> set prs" by simp
    then have "pe_id p \<in> set (map (pe_id \<circ> fst) prs)" by force
    moreover have "pe_id (fst pr) \<notin> set (map (pe_id \<circ> fst) prs)" using Cons.prems(1) by simp
    ultimately have "pe_id p \<noteq> pe_id (fst pr)" by metis
    with mem Cons show ?thesis by (simp add: spec_batch_Cons spec_handle_other)
  qed
qed simp

definition count_published :: "go_error option list \<Rightarrow> nat" where
  "count_published rs = length (filter (\<lambda>r. r = None) rs)"

definition count_failed :: "go_error option list \<Rightarrow> nat" where
  "count_failed rs = length (filter (\<lambda>r. r \<noteq> None) rs)"

lemma count_sum: "count_published rs + count_failed rs = length rs"
  unfolding count_published_def count_failed_def by (rule sum_length_filter_compl)

context outbox_store begin

text \<open>
  The loop refines the abstract batch: it handles a prefix of its events, the whole list when it
  reports no error, and does to each exactly what the publisher's answer asks for. When it stops
  with an error, the event it stopped at may have been handled without being counted.
\<close>

lemma dispatch_all_refines:
  assumes "inv (fst w)"
    and "dispatch_all (on_store_mark mark) (on_store_fail record_failure) (on_publisher publish)
           cfg ctxs i now ps r w = ((err, r'), w')"
  defines "rs \<equiv> publish_outcomes publish ctxs i ps (snd w)"
  shows "\<exists>n m. n \<le> m \<and> m \<le> length ps \<and> m \<le> Suc n \<and> inv (fst w')
           \<and> abs (fst w') = spec_batch cfg now (take m (zip ps rs)) (abs (fst w))
           \<and> (err = None \<longrightarrow> n = length ps)
           \<and> r' = \<lparr>dr_claimed = dr_claimed r,
                   dr_published = dr_published r + count_published (take n rs),
                   dr_failed = dr_failed r + count_failed (take n rs)\<rparr>"
  using assms(1,2) unfolding rs_def
proof (induction ps arbitrary: i r w)
  case Nil
  then show ?case by (auto simp: spec_batch_def count_published_def count_failed_def)
next
  case (Cons p ps)
  obtain s q where w: "w = (s, q)" by (cases w)
  obtain o1 q1 where pub: "publish (ctxs i) (pe_event p) q = (o1, q1)" by fastforce
  define step where "step = (if o1 = None then mark (ctxs (i + 1)) (pe_id p) (pe_claim_token p) now s
                             else record_failure (ctxs (i + 1)) (make_failure cfg now p) s)"
  obtain o2 s2 where step: "step = (o2, s2)" by fastforce
  define r1 where "r1 = (if o1 = None then r\<lparr>dr_published := dr_published r + 1\<rparr>
                         else r\<lparr>dr_failed := dr_failed r + 1\<rparr>)"
  have one: "dispatch_one (on_store_mark mark) (on_store_fail record_failure) (on_publisher publish)
      cfg ctxs i now p r w =
      (case o2 of
         None \<Rightarrow> ((None, r1), (s2, q1))
       | Some e \<Rightarrow> ((Some (Wrap (if o1 = None then ''mark event '' @ pe_id p @ '' published''
                              else ''record event '' @ pe_id p @ '' failure'') e), r),
                   (s2, q1)))"
    using pub step unfolding step_def r1_def
    by (auto simp: dispatch_one_def on_store_mark_def on_store_fail_def on_publisher_def w pe_id_def
        split: option.splits if_splits)
  have s: "inv s" using Cons.prems(1) w by simp
  show ?case
  proof (cases o2)
    case (Some e)
    have "inv s2 \<and> (abs s2 = abs s \<or> abs s2 = spec_handle cfg now (p, o1) (abs s))"
      using step Some mark_err [OF s] fail_err [OF s] unfolding step_def spec_handle_def
      by (fastforce split: if_splits option.splits)
    moreover from one Some Cons.prems(2) have "w' = (s2, q1)" "r' = r" "err \<noteq> None" by auto
    ultimately consider "inv (fst w')" "abs (fst w') = abs s" "r' = r" "err \<noteq> None"
      | "inv (fst w')" "abs (fst w') = spec_handle cfg now (p, o1) (abs s)" "r' = r" "err \<noteq> None" by auto
    then show ?thesis
    proof cases
      case 1
      then show ?thesis
        using w by (intro exI [of _ 0] conjI) (auto simp: spec_batch_def count_published_def count_failed_def)
    next
      case 2
      then show ?thesis
        using w pub by (intro exI [of _ 0] exI [of _ 1])
          (auto simp: spec_batch_def count_published_def count_failed_def)
    qed
  next
    case None
    have s2: "inv s2" "abs s2 = spec_handle cfg now (p, o1) (abs s)"
      using step None mark_ok [OF s] fail_ok [OF s] unfolding step_def spec_handle_def
      by (auto split: if_splits option.splits)
    let ?rs = "publish_outcomes publish ctxs (i + 2) ps q1"
    from one None Cons.prems(2)
    have "dispatch_all (on_store_mark mark) (on_store_fail record_failure) (on_publisher publish)
           cfg ctxs (i + 2) now ps r1 (s2, q1) = ((err, r'), w')" by simp
    from Cons.IH [OF _ this] s2(1) obtain n m where n: "n \<le> m" "m \<le> length ps" "m \<le> Suc n" "inv (fst w')"
      "abs (fst w') = spec_batch cfg now (take m (zip ps ?rs)) (abs s2)"
      "err = None \<longrightarrow> n = length ps"
      "r' = \<lparr>dr_claimed = dr_claimed r1, dr_published = dr_published r1 + count_published (take n ?rs),
             dr_failed = dr_failed r1 + count_failed (take n ?rs)\<rparr>"
      by auto
    show ?thesis
      using n s2(2) pub w
      by (intro exI [of _ "Suc n"] exI [of _ "Suc m"])
         (auto simp: spec_batch_Cons r1_def count_published_def count_failed_def)
  qed
qed

end

context live_outbox_store begin

text \<open>With live contexts and current claims the loop never reports an error.\<close>

lemma dispatch_all_live:
  assumes "inv (fst w)" "\<forall>j. ctxs j = None" "distinct (map pe_id ps)"
    and "\<forall>p \<in> set ps. held (abs (fst w)) (pe_id p) (pe_claim_token p)"
  shows "\<exists>r' w'. dispatch_all (on_store_mark mark) (on_store_fail record_failure) (on_publisher publish)
           cfg ctxs i now ps r w = ((None, r'), w')"
  using assms
proof (induction ps arbitrary: i r w)
  case (Cons p ps)
  obtain s q where w: "w = (s, q)" by (cases w)
  obtain o1 q1 where pub: "publish None (pe_event p) q = (o1, q1)" by fastforce
  have s: "inv s" "held (abs s) (pe_id p) (pe_claim_token p)" using Cons.prems w by auto
  have "\<exists>r1 s2. inv s2 \<and> abs s2 = spec_handle cfg now (p, o1) (abs s) \<and>
    dispatch_one (on_store_mark mark) (on_store_fail record_failure) (on_publisher publish)
      cfg ctxs i now p r w = ((None, r1), (s2, q1))"
  proof (cases o1)
    case None
    obtain s2 where m: "mark None (pe_id p) (pe_claim_token p) now s = (None, s2)"
      using mark_live [OF s] by blast
    with mark_ok [OF s(1) m] pub None w Cons.prems(2) show ?thesis
      by (auto simp: dispatch_one_def on_publisher_def on_store_mark_def spec_handle_def pe_id_def)
  next
    case (Some e)
    obtain s2 where m: "record_failure None (make_failure cfg now p) s = (None, s2)"
      using fail_live [of s "make_failure cfg now p"] s by auto
    with fail_ok [OF s(1) m] pub Some w Cons.prems(2) show ?thesis
      by (auto simp: dispatch_one_def on_publisher_def on_store_fail_def spec_handle_def)
  qed
  then obtain r1 s2 where one: "inv s2" "abs s2 = spec_handle cfg now (p, o1) (abs s)"
    "dispatch_one (on_store_mark mark) (on_store_fail record_failure) (on_publisher publish)
      cfg ctxs i now p r w = ((None, r1), (s2, q1))" by blast
  have "held (abs s2) (pe_id p') (pe_claim_token p')" if "p' \<in> set ps" for p'
  proof -
    have "pe_id p \<notin> pe_id ` set ps" using Cons.prems(3) by simp
    with that have "pe_id p' \<noteq> pe_id p" by (metis imageI)
    then have "abs s2 (pe_id p') = abs s (pe_id p')" by (simp add: one(2) spec_handle_other)
    with that Cons.prems(4) w show ?thesis by (simp add: held_def)
  qed
  then have "\<exists>r' w'. dispatch_all (on_store_mark mark) (on_store_fail record_failure)
      (on_publisher publish) cfg ctxs (i + 2) now ps r1 (s2, q1) = ((None, r'), w')"
    using one(1) Cons.prems(2,3) by (intro Cons.IH) auto
  then show ?case by (simp only: dispatch_all.simps one(3) prod.case option.case)
qed simp

end

subsection \<open>The intake port\<close>

record identity =
  idn_fingerprint :: go_string
  idn_transaction_id :: go_string
  idn_event_id :: go_string

definition replay_outcome :: "identity \<Rightarrow> go_string \<Rightarrow> store_outcome" where
  "replay_outcome i fp =
     (if idn_fingerprint i = fp
      then \<lparr>so_kind = StoreReplay, so_transaction_id = idn_transaction_id i, so_event_id = idn_event_id i\<rparr>
      else \<lparr>so_kind = StoreConflict, so_transaction_id = [], so_event_id = []\<rparr>)"

definition accepted_outcome :: "acceptance \<Rightarrow> store_outcome" where
  "accepted_outcome a =
     \<lparr>so_kind = StoreAccepted, so_transaction_id = tx_id (acc_transaction a),
      so_event_id = ev_id (acc_event a)\<rparr>"

definition identity_of :: "acceptance \<Rightarrow> identity" where
  "identity_of a =
     \<lparr>idn_fingerprint = acc_fingerprint a, idn_transaction_id = tx_id (acc_transaction a),
      idn_event_id = ev_id (acc_event a)\<rparr>"

text \<open>
  Transactions and events in step: every identity has its event, which names the same
  transaction, and every event belongs to exactly one identity.
\<close>

definition linked :: "('k \<Rightarrow> identity option) \<Rightarrow> outbox \<Rightarrow> bool" where
  "linked idn ob \<longleftrightarrow>
     (\<forall>k i. idn k = Some i \<longrightarrow>
        (\<exists>e. ob (idn_event_id i) = Some e \<and> ev_transaction_id (es_event e) = idn_transaction_id i))
     \<and> (\<forall>eid e. ob eid = Some e \<longrightarrow> (\<exists>!k. \<exists>i. idn k = Some i \<and> idn_event_id i = eid))"

text \<open>The acceptances the service builds carry the transaction as the payload of their event.\<close>

definition acc_coherent :: "acceptance \<Rightarrow> bool" where
  "acc_coherent a \<longleftrightarrow> ev_payload (acc_event a) = acc_transaction a"

lemma acc_coherent_build: "acc_coherent (build_acceptance new_id now cmd fp)"
  by (simp add: acc_coherent_def)

text \<open>
  The laws of \<open>IntakeStore\<close>: \<open>key_of\<close> is the store's identity key, \<open>stored\<close> the event as the
  store keeps it. An acceptance looks its identity up first; only a new identity changes the
  store, and then both tables at once. An error leaves open whether that has happened.
\<close>

definition accept_insert ::
  "'k \<Rightarrow> outbox_event \<Rightarrow> acceptance \<Rightarrow> ('k \<Rightarrow> identity option) \<Rightarrow> outbox
     \<Rightarrow> ('k \<Rightarrow> identity option) \<Rightarrow> outbox \<Rightarrow> bool" where
  "accept_insert k ev a idn ob idn' ob' \<longleftrightarrow>
     idn k = None \<and> idn' = idn(k \<mapsto> identity_of a) \<and> ob' = ob(ev_id (acc_event a) \<mapsto> new_ev_state ev)"

locale intake_store =
  fixes key_of :: "transaction \<Rightarrow> 'k"
    and stored :: "outbox_event \<Rightarrow> outbox_event"
    and idents :: "'s \<Rightarrow> 'k \<Rightarrow> identity option"
    and abs :: "'s \<Rightarrow> outbox"
    and inv :: "'s \<Rightarrow> bool"
    and accept :: "'s accept_fn"
  assumes stored_id: "ev_id (stored ev) = ev_id ev"
    and stored_transaction_id: "ev_transaction_id (stored ev) = ev_transaction_id ev"
    and key_of_id: "key_of (t\<lparr>tx_id := x\<rparr>) = key_of t"
    and accept_err: "inv s \<Longrightarrow> acc_coherent a \<Longrightarrow> accept ctx a s = (Inl e, s') \<Longrightarrow> abs s (ev_id (acc_event a)) = None \<Longrightarrow>
          inv s' \<and> (idents s' = idents s \<and> abs s' = abs s
            \<or> accept_insert (key_of (acc_transaction a)) (stored (acc_event a)) a
                 (idents s) (abs s) (idents s') (abs s'))"
    and accept_known: "inv s \<Longrightarrow> accept ctx a s = (Inr out, s') \<Longrightarrow>
          idents s (key_of (acc_transaction a)) = Some i \<Longrightarrow>
          inv s' \<and> idents s' = idents s \<and> abs s' = abs s
          \<and> out = replay_outcome i (acc_fingerprint a)"
    and accept_new: "inv s \<Longrightarrow> acc_coherent a \<Longrightarrow> accept ctx a s = (Inr out, s') \<Longrightarrow>
          idents s (key_of (acc_transaction a)) = None \<Longrightarrow> abs s (ev_id (acc_event a)) = None \<Longrightarrow>
          inv s' \<and> out = accepted_outcome a
          \<and> accept_insert (key_of (acc_transaction a)) (stored (acc_event a)) a
              (idents s) (abs s) (idents s') (abs s')"

text \<open>A store whose errors are final.\<close>

locale strict_intake_store = intake_store +
  assumes accept_strict: "inv s \<Longrightarrow> accept ctx a s = (Inl e, s') \<Longrightarrow>
          inv s' \<and> idents s' = idents s \<and> abs s' = abs s"

text \<open>A freshly inserted identity and event keep the tables in step.\<close>

lemma linked_insert:
  assumes "linked idn ob" "accept_insert k ev a idn ob idn' ob'" "ob (ev_id (acc_event a)) = None"
    and "ev_transaction_id ev = tx_id (acc_transaction a)"
  shows "linked idn' ob'"
proof -
  let ?eid = "ev_id (acc_event a)"
  from assms(2) have new: "idn k = None" "idn' = idn(k \<mapsto> identity_of a)" "ob' = ob(?eid \<mapsto> new_ev_state ev)"
    by (simp_all add: accept_insert_def)
  have old: "idn_event_id i \<noteq> ?eid" if "idn k' = Some i" for k' i
    using that assms(1,3) unfolding linked_def by (metis option.distinct(1))
  show ?thesis
    unfolding linked_def
  proof (intro conjI allI impI)
    fix k' i
    assume "idn' k' = Some i"
    then show "\<exists>e. ob' (idn_event_id i) = Some e \<and> ev_transaction_id (es_event e) = idn_transaction_id i"
      using assms(1,4) old by (auto simp: new linked_def identity_of_def split: if_splits)
  next
    fix eid e
    assume e: "ob' eid = Some e"
    show "\<exists>!k'. \<exists>i. idn' k' = Some i \<and> idn_event_id i = eid"
    proof (cases "eid = ?eid")
      case True
      then show ?thesis
        using old by (intro ex1I [of _ k]) (auto simp: new identity_of_def split: if_splits)
    next
      case False
      with e have "ob eid = Some e" by (simp add: new)
      with assms(1) have "\<exists>!k'. \<exists>i. idn k' = Some i \<and> idn_event_id i = eid"
        unfolding linked_def by blast
      moreover have "(\<exists>i. idn' k' = Some i \<and> idn_event_id i = eid)
          \<longleftrightarrow> (\<exists>i. idn k' = Some i \<and> idn_event_id i = eid)" for k'
        using False new(1) by (simp add: new identity_of_def)
      ultimately show ?thesis by (simp only:)
    qed
  qed
qed

text \<open>The tables stay in step when only the outbox changes and keeps its events.\<close>

lemma linked_same_events:
  assumes "linked idn ob" "\<And>eid. map_option es_event (ob' eid) = map_option es_event (ob eid)"
  shows "linked idn ob'"
proof -
  have some: "(\<exists>e. ob' eid = Some e \<and> P (es_event e)) \<longleftrightarrow> (\<exists>e. ob eid = Some e \<and> P (es_event e))" for eid P
    using assms(2) [of eid] by (cases "ob eid"; cases "ob' eid") auto
  show ?thesis
    unfolding linked_def
  proof (intro conjI allI impI)
    fix k i
    assume "idn k = Some i"
    with assms(1) show "\<exists>e. ob' (idn_event_id i) = Some e \<and> ev_transaction_id (es_event e) = idn_transaction_id i"
      unfolding some [of _ "\<lambda>v. ev_transaction_id v = idn_transaction_id i"] by (simp add: linked_def)
  next
    fix eid e
    assume "ob' eid = Some e"
    with some [of eid "\<lambda>_. True"] have "\<exists>e. ob eid = Some e" by auto
    with assms(1) show "\<exists>!k. \<exists>i. idn k = Some i \<and> idn_event_id i = eid"
      unfolding linked_def by blast
  qed
qed

context intake_store begin

lemma key_of_acceptance [simp]:
  "key_of (acc_transaction (build_acceptance new_id now cmd fp)) = key_of (cmd_transaction cmd)"
  by (simp add: build_acceptance_def Let_def key_of_id)

text \<open>What the intake service answers, from the store's identities alone.\<close>

lemma intake_known:
  assumes "inv s" "fingerprint (cmd_transaction cmd) [Some (svc_allowed_types svc)] = Inr fp"
    and "idents s (key_of (cmd_transaction cmd)) = Some i"
    and "intake_accept svc accept new_id now ctx cmd s = (Inr res, s')"
  shows "inv s' \<and> idents s' = idents s \<and> abs s' = abs s \<and> idn_fingerprint i = fp
         \<and> res = \<lparr>res_kind = Replayed, res_id = idn_transaction_id i, res_event_id = idn_event_id i\<rparr>"
proof -
  let ?a = "build_acceptance new_id now cmd fp"
  obtain r s1 where acc: "accept ctx ?a s = (r, s1)" by fastforce
  with assms(2,4) obtain out where out: "r = Inr out" "interpret_outcome ?a out = Inr res" "s' = s1"
    by (auto simp: intake_accept_valid Let_def split: sum.splits)
  from accept_known [OF assms(1) acc [unfolded out(1)]] assms(3)
  have "inv s1 \<and> idents s1 = idents s \<and> abs s1 = abs s \<and> out = replay_outcome i fp" by simp
  with out show ?thesis
    by (auto simp: interpret_outcome_def replay_outcome_def split: if_splits)
qed

lemma intake_new:
  assumes "inv s" "fingerprint (cmd_transaction cmd) [Some (svc_allowed_types svc)] = Inr fp"
    and "idents s (key_of (cmd_transaction cmd)) = None" "abs s (new_id 0) = None"
    and "intake_accept svc accept new_id now ctx cmd s = (Inr res, s')"
  shows "inv s' \<and> idents s' = (idents s)(key_of (cmd_transaction cmd) \<mapsto>
             \<lparr>idn_fingerprint = fp, idn_transaction_id = res_id res, idn_event_id = res_event_id res\<rparr>)
         \<and> abs s' = (abs s)(res_event_id res \<mapsto>
             new_ev_state (stored (acc_event (build_acceptance new_id now cmd fp))))
         \<and> res = \<lparr>res_kind = Accepted,
                  res_id = (if tx_id (cmd_transaction cmd) = [] then new_id 1 else tx_id (cmd_transaction cmd)),
                  res_event_id = new_id 0\<rparr>"
proof -
  let ?a = "build_acceptance new_id now cmd fp"
  obtain r s1 where acc: "accept ctx ?a s = (r, s1)" by fastforce
  with assms(2,5) obtain out where out: "r = Inr out" "interpret_outcome ?a out = Inr res" "s' = s1"
    by (auto simp: intake_accept_valid Let_def split: sum.splits)
  from accept_new [OF assms(1) acc_coherent_build acc [unfolded out(1)]] assms(3,4)
  have "inv s1 \<and> idents s1 = (idents s)(key_of (cmd_transaction cmd) \<mapsto> identity_of ?a)
      \<and> abs s1 = (abs s)(new_id 0 \<mapsto> new_ev_state (stored (acc_event ?a))) \<and> out = accepted_outcome ?a"
    by (simp add: accept_insert_def)
  with out show ?thesis
    by (auto simp: interpret_outcome_def accepted_outcome_def identity_of_def)
qed

text \<open>
  An error leaves the store alone, or the acceptance of a new identity has been stored whole
  and only its answer was lost.
\<close>

lemma intake_error:
  assumes "inv s" "abs s (new_id 0) = None"
    and "intake_accept svc accept new_id now ctx cmd s = (Inl e, s')"
  shows "inv s' \<and> (idents s' = idents s \<and> abs s' = abs s
     \<or> (\<exists>fp. fingerprint (cmd_transaction cmd) [Some (svc_allowed_types svc)] = Inr fp
          \<and> accept_insert (key_of (cmd_transaction cmd)) (stored (acc_event (build_acceptance new_id now cmd fp)))
              (build_acceptance new_id now cmd fp) (idents s) (abs s) (idents s') (abs s')))"
proof (cases "fingerprint (cmd_transaction cmd) [Some (svc_allowed_types svc)]")
  case (Inl e')
  with assms show ?thesis by (auto simp: intake_accept_def split: option.splits)
next
  case (Inr fp)
  let ?a = "build_acceptance new_id now cmd fp"
  obtain r s1 where acc: "accept ctx ?a s = (r, s1)" by fastforce
  show ?thesis
  proof (cases r)
    case (Inl e')
    with acc Inr assms(3) have "s' = s1" by (auto simp: intake_accept_valid Let_def)
    with accept_err [OF assms(1) acc_coherent_build acc [unfolded Inl]] assms(2) Inr show ?thesis by auto
  next
    case res: (Inr out)
    with acc Inr assms(3) have out: "interpret_outcome ?a out = Inl e" "s' = s1"
      by (auto simp: intake_accept_valid Let_def)
    show ?thesis
    proof (cases "idents s (key_of (cmd_transaction cmd))")
      case None
      with accept_new [OF assms(1) acc_coherent_build acc [unfolded res]] assms(2)
      have "out = accepted_outcome ?a" by simp
      with out show ?thesis by (simp add: interpret_outcome_def accepted_outcome_def)
    next
      case (Some i)
      with accept_known [OF assms(1) acc [unfolded res]] out(2) show ?thesis by simp
    qed
  qed
qed

text \<open>Every run of the service leaves the store as it was, or stores one new acceptance whole.\<close>

lemma intake_effect:
  assumes "inv s" "abs s (new_id 0) = None"
    and "intake_accept svc accept new_id now ctx cmd s = (r, s')"
  shows "inv s' \<and> (idents s' = idents s \<and> abs s' = abs s
     \<or> (\<exists>fp. accept_insert (key_of (cmd_transaction cmd))
              (stored (acc_event (build_acceptance new_id now cmd fp)))
              (build_acceptance new_id now cmd fp) (idents s) (abs s) (idents s') (abs s')))"
proof (cases r)
  case (Inl e)
  from intake_error [OF assms(1,2) assms(3) [unfolded Inl]] show ?thesis by blast
next
  case (Inr res)
  then obtain fp where fp: "fingerprint (cmd_transaction cmd) [Some (svc_allowed_types svc)] = Inr fp"
    using assms(3) by (auto simp: intake_accept_def split: option.splits sum.splits)
  note run = assms(3) [unfolded Inr]
  let ?k = "key_of (cmd_transaction cmd)" and ?a = "build_acceptance new_id now cmd fp"
  show ?thesis
  proof (cases "idents s ?k")
    case (Some i)
    from intake_known [OF assms(1) fp Some run] show ?thesis by auto
  next
    case None
    from intake_new [OF assms(1) fp None assms(2) run]
    have "inv s'" "idents s' = (idents s)(?k \<mapsto> identity_of ?a)"
      "abs s' = (abs s)(ev_id (acc_event ?a) \<mapsto> new_ev_state (stored (acc_event ?a)))"
      by (simp_all add: identity_of_def)
    with None show ?thesis by (auto simp: accept_insert_def)
  qed
qed

lemma intake_linked:
  assumes "inv s" "abs s (new_id 0) = None" "linked (idents s) (abs s)"
    and "intake_accept svc accept new_id now ctx cmd s = (r, s')"
  shows "linked (idents s') (abs s')"
  using intake_effect [OF assms(1,2,4)] linked_insert [OF assms(3)] assms(2,3)
  by (fastforce simp: stored_transaction_id)

end

text \<open>Both ports on one state, as \<open>app.TransactionStore\<close> joins them.\<close>

locale transaction_store =
  intake_store key_of stored idents abs inv accept + outbox_store abs inv claim mark record_failure
  for key_of :: "transaction \<Rightarrow> 'k"
    and stored :: "outbox_event \<Rightarrow> outbox_event"
    and idents :: "'s \<Rightarrow> 'k \<Rightarrow> identity option"
    and abs :: "'s \<Rightarrow> outbox"
    and inv :: "'s \<Rightarrow> bool"
    and accept :: "'s accept_fn"
    and claim :: "'s claim_fn"
    and mark :: "'s mark_fn"
    and record_failure :: "'s fail_fn" +
  assumes claim_idents: "inv s \<Longrightarrow> claim ctx tokens now lease limit s = (cr, s') \<Longrightarrow> idents s' = idents s"
    and mark_idents: "inv s \<Longrightarrow> mark ctx eid tok at s = (mr, s') \<Longrightarrow> idents s' = idents s"
    and fail_idents: "inv s \<Longrightarrow> record_failure ctx f s = (fr, s') \<Longrightarrow> idents s' = idents s"

end
