(* ===== verification/MemoryStore.thy ===== *)
theory MemoryStore
  imports StoreContract
begin

text \<open>
  \<open>internal/transaction/adapters/memory/store.go\<close>: the in-memory store, two maps behind one
  mutex. Every operation holds the mutex from its first access to its return, so an operation is
  one step on the state. \<open>rand.Text\<close> is the stream \<open>tokens\<close>: its \<open>n\<close>-th value is the token of
  the \<open>n\<close>-th event of a claim.
\<close>

subsection \<open>State\<close>

record stored_transaction =
  st_fingerprint :: go_string
  st_transaction_id :: go_string
  st_event_id :: go_string

record stored_event =
  se_event :: outbox_event
  se_attempts :: int
  se_retry_at :: gotime
  se_lease_until :: gotime
  se_claim_token :: go_string
  se_published :: bool
  se_terminal :: bool

type_synonym stored_events = "(go_string, stored_event) fmap"

record mem_store =
  ms_transactions :: "(go_string, stored_transaction) fmap"
  ms_events :: stored_events

definition mem_new_store :: mem_store where
  "mem_new_store = \<lparr>ms_transactions = fmempty, ms_events = fmempty\<rparr>"

definition mem_ready :: "go_context \<Rightarrow> go_error option" where
  "mem_ready ctx = ctx"

subsection \<open>Acceptance\<close>

text \<open>\<open>append([]byte(nil), b...)\<close>: a copy, nil when there is nothing to copy.\<close>

definition clone_raw :: "raw_message \<Rightarrow> raw_message" where
  "clone_raw r = (if raw_bytes r = [] then None else Some (raw_bytes r))"

definition clone_event :: "outbox_event \<Rightarrow> outbox_event" where
  "clone_event ev =
     ev\<lparr>ev_payload := (ev_payload ev)\<lparr>tx_location_raw := clone_raw (tx_location_raw (ev_payload ev)),
                                       tx_metadata_raw := clone_raw (tx_metadata_raw (ev_payload ev))\<rparr>\<rparr>"

definition fresh_stored_event :: "outbox_event \<Rightarrow> stored_event" where
  "fresh_stored_event ev =
     \<lparr>se_event = ev, se_attempts = 0, se_retry_at = zero_time, se_lease_until = zero_time,
      se_claim_token = [], se_published = False, se_terminal = False\<rparr>"

definition mem_key :: "transaction \<Rightarrow> go_string" where
  "mem_key t = tx_source t @ '':'' @ tx_source_reference t"

definition mem_accept :: "mem_store accept_fn" where
  "mem_accept ctx a s =
     (case ctx of
        Some e \<Rightarrow> (Inl e, s)
      | None \<Rightarrow>
          (let key = mem_key (acc_transaction a) in
           case fmlookup (ms_transactions s) key of
             Some existing \<Rightarrow>
               (if st_fingerprint existing = acc_fingerprint a
                then (Inr \<lparr>so_kind = StoreReplay, so_transaction_id = st_transaction_id existing,
                           so_event_id = st_event_id existing\<rparr>, s)
                else (Inr \<lparr>so_kind = StoreConflict, so_transaction_id = [], so_event_id = []\<rparr>, s))
           | None \<Rightarrow>
               (Inr \<lparr>so_kind = StoreAccepted, so_transaction_id = tx_id (acc_transaction a),
                     so_event_id = ev_id (acc_event a)\<rparr>,
                s\<lparr>ms_transactions := fmupd key
                     \<lparr>st_fingerprint = acc_fingerprint a, st_transaction_id = tx_id (acc_transaction a),
                      st_event_id = ev_id (acc_event a)\<rparr> (ms_transactions s),
                  ms_events := fmupd (ev_id (acc_event a)) (fresh_stored_event (clone_event (acc_event a)))
                     (ms_events s)\<rparr>)))"

subsection \<open>The outbox\<close>

definition mem_skip :: "gotime \<Rightarrow> stored_event \<Rightarrow> bool" where
  "mem_skip now r \<longleftrightarrow>
     se_published r \<or> se_terminal r \<or> time_after (se_retry_at r) now \<or> time_after (se_lease_until r) now"

definition mem_lease :: "gotime \<Rightarrow> duration \<Rightarrow> go_string \<Rightarrow> stored_event \<Rightarrow> stored_event" where
  "mem_lease now lease tok r = r\<lparr>se_lease_until := time_add now lease, se_claim_token := tok\<rparr>"

definition mem_pending :: "stored_event \<Rightarrow> pending_event" where
  "mem_pending r =
     \<lparr>pe_event = se_event r, pe_attempts = se_attempts r, pe_claim_token = se_claim_token r\<rparr>"

fun mem_claim_loop ::
  "(nat \<Rightarrow> go_string) \<Rightarrow> gotime \<Rightarrow> duration \<Rightarrow> int \<Rightarrow> go_string list \<Rightarrow> pending_event list \<Rightarrow> stored_events
     \<Rightarrow> pending_event list \<times> stored_events" where
  "mem_claim_loop tokens now lease limit [] claimed evs = (claimed, evs)"
| "mem_claim_loop tokens now lease limit (eid # ids) claimed evs =
     (case fmlookup evs eid of
        None \<Rightarrow> mem_claim_loop tokens now lease limit ids claimed evs
      | Some r \<Rightarrow>
          (if mem_skip now r then mem_claim_loop tokens now lease limit ids claimed evs
           else
             (let r' = mem_lease now lease (tokens (length claimed)) r;
                  claimed' = claimed @ [mem_pending r'];
                  evs' = fmupd eid r' evs
              in if int (length claimed') = limit then (claimed', evs')
                 else mem_claim_loop tokens now lease limit ids claimed' evs')))"

definition mem_claim :: "mem_store claim_fn" where
  "mem_claim ctx tokens now lease limit s =
     (case ctx of
        Some e \<Rightarrow> (Inl e, s)
      | None \<Rightarrow>
          (if limit \<le> 0 then (Inr [], s)
           else
             (let (ps, evs) = mem_claim_loop tokens now lease limit
                    (sorted_list_of_fset (fmdom (ms_events s))) [] (ms_events s)
              in (Inr ps, s\<lparr>ms_events := evs\<rparr>))))"

definition mem_mark :: "mem_store mark_fn" where
  "mem_mark ctx eid tok at s =
     (case ctx of
        Some e \<Rightarrow> (Some e, s)
      | None \<Rightarrow>
          (case fmlookup (ms_events s) eid of
             None \<Rightarrow> (Some (Errorq ''outbox event %q not found'' eid), s)
           | Some r \<Rightarrow>
               (if se_claim_token r = [] \<or> se_claim_token r \<noteq> tok then (Some ErrLeaseLost, s)
                else (None, s\<lparr>ms_events := fmupd eid
                       (r\<lparr>se_published := True, se_lease_until := zero_time, se_claim_token := []\<rparr>)
                       (ms_events s)\<rparr>))))"

definition mem_record_failure :: "mem_store fail_fn" where
  "mem_record_failure ctx f s =
     (case ctx of
        Some e \<Rightarrow> (Some e, s)
      | None \<Rightarrow>
          (case fmlookup (ms_events s) (pf_event_id f) of
             None \<Rightarrow> (Some (Errorq ''outbox event %q not found'' (pf_event_id f)), s)
           | Some r \<Rightarrow>
               (if se_claim_token r = [] \<or> se_claim_token r \<noteq> pf_claim_token f then (Some ErrLeaseLost, s)
                else (None, s\<lparr>ms_events := fmupd (pf_event_id f)
                       (r\<lparr>se_attempts := pf_attempts f, se_retry_at := pf_retry_at f,
                          se_terminal := pf_terminal f, se_lease_until := zero_time,
                          se_claim_token := []\<rparr>)
                       (ms_events s)\<rparr>))))"

subsection \<open>The abstract view and the invariant\<close>

definition mem_ev_state :: "stored_event \<Rightarrow> ev_state" where
  "mem_ev_state r =
     \<lparr>es_event = se_event r, es_attempts = se_attempts r, es_retry_at = se_retry_at r,
      es_lease_until = se_lease_until r, es_token = se_claim_token r,
      es_status = (if se_published r then Published else if se_terminal r then Failed else Pending)\<rparr>"

definition events_abs :: "stored_events \<Rightarrow> outbox" where
  "events_abs evs = (\<lambda>eid. map_option mem_ev_state (fmlookup evs eid))"

definition mem_abs :: "mem_store \<Rightarrow> outbox" where
  "mem_abs s = events_abs (ms_events s)"

definition mem_identity :: "stored_transaction \<Rightarrow> identity" where
  "mem_identity r =
     \<lparr>idn_fingerprint = st_fingerprint r, idn_transaction_id = st_transaction_id r,
      idn_event_id = st_event_id r\<rparr>"

definition mem_idents :: "mem_store \<Rightarrow> go_string \<Rightarrow> identity option" where
  "mem_idents s = (\<lambda>k. map_option mem_identity (fmlookup (ms_transactions s) k))"

text \<open>Events are stored under their identifier, and a leased event is neither published nor terminal.\<close>

definition events_inv :: "stored_events \<Rightarrow> bool" where
  "events_inv evs \<longleftrightarrow>
     (\<forall>eid r. fmlookup evs eid = Some r \<longrightarrow>
        ev_id (se_event r) = eid \<and> (se_claim_token r \<noteq> [] \<longrightarrow> \<not> se_published r \<and> \<not> se_terminal r))"

definition mem_inv :: "mem_store \<Rightarrow> bool" where
  "mem_inv s \<longleftrightarrow> events_inv (ms_events s)"

lemma clone_event_simps [simp]:
  "ev_id (clone_event ev) = ev_id ev" "ev_transaction_id (clone_event ev) = ev_transaction_id ev"
  by (simp_all add: clone_event_def)

lemma mem_ev_state_simps [simp]:
  "es_event (mem_ev_state r) = se_event r" "es_token (mem_ev_state r) = se_claim_token r"
  "es_attempts (mem_ev_state r) = se_attempts r"
  by (simp_all add: mem_ev_state_def)

lemma mem_skip_claimable: "\<not> mem_skip now r \<longleftrightarrow> es_claimable now (mem_ev_state r)"
  by (auto simp: mem_skip_def es_claimable_def mem_ev_state_def)

lemma mem_lease_state: "mem_ev_state (mem_lease now lease tok r) = lease_state (time_add now lease) tok (mem_ev_state r)"
  by (simp add: mem_lease_def mem_ev_state_def lease_state_def)

lemma mem_pending_simps [simp]:
  "pe_event (mem_pending r) = se_event r" "pe_attempts (mem_pending r) = se_attempts r"
  "pe_claim_token (mem_pending r) = se_claim_token r" "pe_id (mem_pending r) = ev_id (se_event r)"
  by (simp_all add: mem_pending_def pe_id_def)

lemma mem_lease_simps [simp]:
  "se_event (mem_lease now lease tok r) = se_event r" "se_attempts (mem_lease now lease tok r) = se_attempts r"
  "se_claim_token (mem_lease now lease tok r) = tok"
  "se_published (mem_lease now lease tok r) = se_published r"
  "se_terminal (mem_lease now lease tok r) = se_terminal r"
  by (simp_all add: mem_lease_def)

lemma events_abs_update: "events_abs (fmupd eid r evs) = (events_abs evs)(eid \<mapsto> mem_ev_state r)"
  by (auto simp: events_abs_def)

lemma events_inv_update [inv_intros]:
  "events_inv evs \<Longrightarrow> ev_id (se_event r) = eid \<Longrightarrow>
   (se_claim_token r \<noteq> [] \<Longrightarrow> \<not> se_published r \<and> \<not> se_terminal r) \<Longrightarrow> events_inv (fmupd eid r evs)"
  by (auto simp: events_inv_def)

lemma events_inv_id: "events_inv evs \<Longrightarrow> fmlookup evs eid = Some r \<Longrightarrow> ev_id (se_event r) = eid"
  by (simp add: events_inv_def)

lemma events_wf: "events_inv evs \<Longrightarrow> ob_wf (events_abs evs)"
  by (auto simp: ob_wf_def events_abs_def events_inv_def mem_ev_state_def)

subsection \<open>The claim loop\<close>

text \<open>
  From \<open>claimed\<close> on, the loop hands out the claimable events among the remaining identifiers in
  their order, as many as the limit leaves room for, each with its own token, and leases exactly
  those.
\<close>

definition claimable_ids :: "gotime \<Rightarrow> stored_events \<Rightarrow> go_string list \<Rightarrow> go_string list" where
  "claimable_ids now evs ids =
     filter (\<lambda>eid. case fmlookup evs eid of None \<Rightarrow> False | Some r \<Rightarrow> \<not> mem_skip now r) ids"

definition leased_pending :: "(nat \<Rightarrow> go_string) \<Rightarrow> stored_events \<Rightarrow> nat \<Rightarrow> go_string \<Rightarrow> pending_event" where
  "leased_pending tokens evs n eid =
     (mem_pending (the (fmlookup evs eid)))\<lparr>pe_claim_token := tokens n\<rparr>"

lemma claimable_ids_Cons:
  "claimable_ids now evs (eid # ids) =
     (case fmlookup evs eid of
        None \<Rightarrow> claimable_ids now evs ids
      | Some r \<Rightarrow> if mem_skip now r then claimable_ids now evs ids else eid # claimable_ids now evs ids)"
  by (simp add: claimable_ids_def split: option.split)

lemma claimable_ids_cong:
  "\<forall>eid \<in> set ids. fmlookup evs' eid = fmlookup evs eid \<Longrightarrow> claimable_ids now evs' ids = claimable_ids now evs ids"
  unfolding claimable_ids_def by (intro filter_cong) auto

definition claimed_list ::
  "(nat \<Rightarrow> go_string) \<Rightarrow> stored_events \<Rightarrow> nat \<Rightarrow> go_string list \<Rightarrow> pending_event list" where
  "claimed_list tokens evs n sel = map (\<lambda>(j, eid). leased_pending tokens evs j eid) (zip [n..<n + length sel] sel)"

lemma claimed_list_Cons:
  "claimed_list tokens evs n (eid # sel) = leased_pending tokens evs n eid # claimed_list tokens evs (Suc n) sel"
  unfolding claimed_list_def by (simp add: upt_conv_Cons del: upt_Suc)

lemma claimed_list_cong:
  "\<forall>eid \<in> set sel. fmlookup evs' eid = fmlookup evs eid \<Longrightarrow>
     claimed_list tokens evs' n sel = claimed_list tokens evs n sel"
  unfolding claimed_list_def by (auto simp: leased_pending_def dest!: set_zip_rightD)

lemma set_take_claimable: "set (take n (claimable_ids now evs ids)) \<subseteq> set ids"
  using set_take_subset [of n "claimable_ids now evs ids"] by (auto simp: claimable_ids_def)

lemma mem_claim_loop_result:
  assumes "distinct ids" "int (length claimed) < limit"
  shows "fst (mem_claim_loop tokens now lease limit ids claimed evs) =
     claimed @ claimed_list tokens evs (length claimed)
                 (take (nat limit - length claimed) (claimable_ids now evs ids))"
  using assms
proof (induction ids arbitrary: claimed evs)
  case Nil
  then show ?case by (simp add: claimable_ids_def claimed_list_def)
next
  case (Cons eid ids)
  show ?case
  proof (cases "case fmlookup evs eid of None \<Rightarrow> True | Some r \<Rightarrow> mem_skip now r")
    case True
    with Cons show ?thesis by (auto simp: claimable_ids_Cons split: option.splits)
  next
    case False
    then obtain r where r: "fmlookup evs eid = Some r" "\<not> mem_skip now r" by (auto split: option.splits)
    define r' where "r' = mem_lease now lease (tokens (length claimed)) r"
    define claimed' where "claimed' = claimed @ [mem_pending r']"
    have head: "mem_pending r' = leased_pending tokens evs (length claimed) eid"
      by (simp add: r'_def mem_pending_def leased_pending_def r(1))
    have n: "nat limit - length claimed = Suc (nat limit - Suc (length claimed))"
      using Cons.prems(2) by simp
    show ?thesis
    proof (cases "int (length claimed') = limit")
      case True
      then have "nat limit - Suc (length claimed) = 0" by (simp add: claimed'_def)
      with True r n show ?thesis
        by (simp add: claimable_ids_Cons claimed_list_Cons head [symmetric] Let_def claimed_list_def
              flip: r'_def claimed'_def) (simp add: claimed'_def)
    next
      case more: False
      let ?evs = "fmupd eid r' evs"
      have same: "\<forall>i \<in> set ids. fmlookup ?evs i = fmlookup evs i" using Cons.prems(1) by auto
      have "fst (mem_claim_loop tokens now lease limit ids claimed' ?evs) =
         claimed' @ claimed_list tokens ?evs (length claimed')
                      (take (nat limit - length claimed') (claimable_ids now ?evs ids))"
        using Cons.prems more by (intro Cons.IH) (auto simp: claimed'_def)
      also have "claimable_ids now ?evs ids = claimable_ids now evs ids"
        by (rule claimable_ids_cong [OF same])
      also have "claimed_list tokens ?evs (length claimed')
            (take (nat limit - length claimed') (claimable_ids now evs ids)) =
          claimed_list tokens evs (length claimed') (take (nat limit - length claimed') (claimable_ids now evs ids))"
        using same set_take_claimable by (intro claimed_list_cong) blast
      finally show ?thesis
        using more r n
        by (simp add: claimable_ids_Cons claimed_list_Cons head [symmetric] Let_def flip: r'_def claimed'_def)
           (simp add: claimed'_def)
    qed
  qed
qed

text \<open>What the loop does to the events: the handed out ones are leased, the others untouched.\<close>

definition leased_from :: "gotime \<Rightarrow> duration \<Rightarrow> stored_events \<Rightarrow> stored_events \<Rightarrow> pending_event \<Rightarrow> bool" where
  "leased_from now lease evs evs' p \<longleftrightarrow>
     (\<exists>r. fmlookup evs (pe_id p) = Some r \<and> \<not> mem_skip now r
        \<and> pe_event p = se_event r \<and> pe_attempts p = se_attempts r
        \<and> fmlookup evs' (pe_id p) = Some (mem_lease now lease (pe_claim_token p) r))"

lemma mem_claim_loop_events:
  assumes "distinct ids" "int (length claimed) < limit" "events_inv evs"
    and "mem_claim_loop tokens now lease limit ids claimed evs = (claimed @ new, evs')"
  shows "events_inv evs' \<and> pe_id ` set new \<subseteq> set ids
     \<and> (\<forall>eid. eid \<notin> pe_id ` set new \<longrightarrow> fmlookup evs' eid = fmlookup evs eid)
     \<and> (\<forall>p \<in> set new. leased_from now lease evs evs' p)"
  using assms
proof (induction ids arbitrary: claimed new evs)
  case (Cons eid ids)
  show ?case
  proof (cases "case fmlookup evs eid of None \<Rightarrow> True | Some r \<Rightarrow> mem_skip now r")
    case True
    with Cons.prems(4) have "mem_claim_loop tokens now lease limit ids claimed evs = (claimed @ new, evs')"
      by (auto split: option.splits)
    with Cons.IH [OF _ Cons.prems(2,3)] Cons.prems(1) show ?thesis by auto
  next
    case False
    then obtain r where r: "fmlookup evs eid = Some r" "\<not> mem_skip now r" by (auto split: option.splits)
    define r' where "r' = mem_lease now lease (tokens (length claimed)) r"
    let ?p = "mem_pending r'" and ?evs = "fmupd eid r' evs"
    have id: "ev_id (se_event r) = eid" by (rule events_inv_id [OF Cons.prems(3) r(1)])
    then have p: "pe_id ?p = eid" by (simp add: r'_def)
    have ok: "\<not> se_published r \<and> \<not> se_terminal r" using r(2) by (auto simp: mem_skip_def)
    have inv: "events_inv ?evs"
      using ok id by (intro events_inv_update [OF Cons.prems(3)]) (auto simp: r'_def)
    show ?thesis
    proof (cases "int (length (claimed @ [?p])) = limit")
      case True
      with Cons.prems(4) r have "new = [?p]" "evs' = ?evs" by (auto simp: Let_def r'_def)
      with inv p r show ?thesis by (auto simp: leased_from_def r'_def)
    next
      case more: False
      let ?loop = "mem_claim_loop tokens now lease limit ids (claimed @ [?p]) ?evs"
      from Cons.prems(4) r more have run: "?loop = (claimed @ new, evs')" by (simp add: Let_def r'_def)
      have lim: "int (length (claimed @ [?p])) < limit" using Cons.prems(2) more by simp
      have dist: "distinct ids" "eid \<notin> set ids" using Cons.prems(1) by auto
      from mem_claim_loop_result [OF dist(1) lim, of tokens now lease ?evs] run
      obtain new' where new: "new = ?p # new'" by auto
      from run new have run': "?loop = ((claimed @ [?p]) @ new', evs')" by simp
      from Cons.IH [OF dist(1) lim inv run'] have ih: "events_inv evs'" "pe_id ` set new' \<subseteq> set ids"
        "\<And>i. i \<notin> pe_id ` set new' \<Longrightarrow> fmlookup evs' i = fmlookup ?evs i"
        "\<And>q. q \<in> set new' \<Longrightarrow> leased_from now lease ?evs evs' q" by auto
      have out: "eid \<notin> pe_id ` set new'" using ih(2) dist(2) by blast
      then have "fmlookup evs' eid = Some r'" by (simp add: ih(3))
      then have "leased_from now lease evs evs' ?p"
        using p r by (simp add: leased_from_def r'_def)
      moreover have "leased_from now lease evs evs' q" if "q \<in> set new'" for q
      proof -
        have "pe_id q \<noteq> eid" using that out by blast
        with ih(4) [OF that] show ?thesis by (simp add: leased_from_def)
      qed
      moreover have "fmlookup evs' i = fmlookup evs i" if "i \<notin> pe_id ` set new" for i
        using that ih(3) [of i] p by (auto simp: new)
      ultimately show ?thesis using ih(1,2) p by (auto simp: new)
    qed
  qed
qed auto

subsection \<open>The claim\<close>

lemma map_pe_id_claimed_list:
  assumes "events_inv evs" "\<forall>eid \<in> set sel. fmlookup evs eid \<noteq> None"
  shows "map pe_id (claimed_list tokens evs n sel) = sel"
  using assms(2)
proof (induction sel arbitrary: n)
  case (Cons eid sel)
  then obtain r where "fmlookup evs eid = Some r" by auto
  with Cons assms(1) show ?case
    by (auto simp: claimed_list_Cons leased_pending_def pe_id_def mem_pending_def dest: events_inv_id)
qed (simp add: claimed_list_def)

lemma claimed_list_tokens: "p \<in> set (claimed_list tokens evs n sel) \<Longrightarrow> pe_claim_token p \<in> range tokens"
  by (auto simp: claimed_list_def leased_pending_def)

lemma claimable_ids_known: "\<forall>eid \<in> set (claimable_ids now evs ids). fmlookup evs eid \<noteq> None"
  by (auto simp: claimable_ids_def split: option.splits)

lemma mem_claim_live: "mem_claim None tokens now lease limit s = (Inr ps, s') \<Longrightarrow> 0 < limit \<Longrightarrow>
   mem_claim_loop tokens now lease limit (sorted_list_of_fset (fmdom (ms_events s))) [] (ms_events s)
     = (ps, ms_events s') \<and> ms_transactions s' = ms_transactions s"
  by (auto simp: mem_claim_def split: prod.splits)

lemma mem_claim_list:
  assumes "mem_claim None tokens now lease limit s = (Inr ps, s')" "0 < limit"
  shows "ps = claimed_list tokens (ms_events s) 0
           (take (nat limit) (claimable_ids now (ms_events s) (sorted_list_of_fset (fmdom (ms_events s)))))"
proof -
  have "distinct (sorted_list_of_fset (fmdom (ms_events s)))" by simp
  from mem_claim_loop_result [OF this, of "[]" limit tokens now lease "ms_events s"]
    mem_claim_live [OF assms] assms(2)
  show ?thesis by simp
qed

lemma mem_claim_ids:
  assumes "mem_inv s" "mem_claim None tokens now lease limit s = (Inr ps, s')" "0 < limit"
  shows "map pe_id ps =
     take (nat limit) (claimable_ids now (ms_events s) (sorted_list_of_fset (fmdom (ms_events s))))"
  unfolding mem_claim_list [OF assms(2,3)]
proof (rule map_pe_id_claimed_list)
  show "events_inv (ms_events s)" using assms(1) by (simp add: mem_inv_def)
  show "\<forall>eid \<in> set (take (nat limit) (claimable_ids now (ms_events s)
          (sorted_list_of_fset (fmdom (ms_events s))))). fmlookup (ms_events s) eid \<noteq> None"
    using claimable_ids_known by (blast dest: in_set_takeD)
qed

lemma mem_claim_effect:
  assumes "mem_inv s" "0 < limit" "mem_claim ctx tokens now lease limit s = (Inr ps, s')"
  shows "mem_inv s'" "claim_effect tokens limit (mem_abs s) ps (mem_abs s')"
    and "claim_timely now lease (mem_abs s) ps (mem_abs s')"
proof -
  from assms(3) have live: "mem_claim None tokens now lease limit s = (Inr ps, s')"
    by (auto simp: mem_claim_def split: option.splits)
  let ?ids = "sorted_list_of_fset (fmdom (ms_events s))" and ?evs = "ms_events s"
  have loop: "mem_claim_loop tokens now lease limit ?ids [] ?evs = ([] @ ps, ms_events s')"
    using mem_claim_live [OF live assms(2)] by simp
  have d: "distinct ?ids" by simp
  from mem_claim_loop_events [OF d _ _ loop] assms(1,2)
  have ev: "events_inv (ms_events s')"
    "\<And>eid. eid \<notin> pe_id ` set ps \<Longrightarrow> fmlookup (ms_events s') eid = fmlookup ?evs eid"
    "\<And>p. p \<in> set ps \<Longrightarrow> leased_from now lease ?evs (ms_events s') p"
    by (auto simp: mem_inv_def)
  note ids = mem_claim_ids [OF assms(1) live assms(2)]
  have "distinct (map pe_id ps)" unfolding ids by (simp add: claimable_ids_def)
  moreover have "int (length ps) \<le> limit"
  proof -
    have "length ps \<le> nat limit" using arg_cong [OF ids, of length] by simp
    then show ?thesis using assms(2) by simp
  qed
  moreover have leased: "\<exists>e. mem_abs s (pe_id p) = Some e \<and> es_claimable now e \<and> pe_event p = es_event e
      \<and> pe_attempts p = es_attempts e \<and> pe_claim_token p \<in> range tokens
      \<and> mem_abs s' (pe_id p) = Some (lease_state (time_add now lease) (pe_claim_token p) e)"
    if p: "p \<in> set ps" for p
  proof -
    have "pe_claim_token p \<in> range tokens"
      using p claimed_list_tokens by (simp add: mem_claim_list [OF live assms(2)])
    with ev(3) [OF p] show ?thesis
      by (auto simp: leased_from_def mem_abs_def events_abs_def mem_skip_claimable mem_lease_state)
  qed
  moreover have "mem_abs s' eid = mem_abs s eid" if "eid \<notin> pe_id ` set ps" for eid
    using ev(2) [OF that] by (simp add: mem_abs_def events_abs_def)
  ultimately show "claim_effect tokens limit (mem_abs s) ps (mem_abs s')"
    unfolding claim_effect_def by (metis es_claimable_def)
  from leased show "claim_timely now lease (mem_abs s) ps (mem_abs s')"
    unfolding claim_timely_def by blast
  from ev(1) show "mem_inv s'" by (simp add: mem_inv_def)
qed

subsection \<open>The ports\<close>

lemma mem_accept_cases:
  assumes "mem_accept ctx a s = (r, s')"
  obtains e where "ctx = Some e" "r = Inl e" "s' = s"
  | i where "ctx = None" "mem_idents s (mem_key (acc_transaction a)) = Some i" "s' = s"
      "r = Inr (replay_outcome i (acc_fingerprint a))"
  | "ctx = None" "mem_idents s (mem_key (acc_transaction a)) = None" "r = Inr (accepted_outcome a)"
      "mem_idents s' = (mem_idents s)(mem_key (acc_transaction a) \<mapsto> identity_of a)"
      "ms_events s' = fmupd (ev_id (acc_event a)) (fresh_stored_event (clone_event (acc_event a))) (ms_events s)"
  using assms
  by (auto simp: mem_accept_def Let_def mem_idents_def mem_identity_def replay_outcome_def fun_eq_iff
        accepted_outcome_def identity_of_def split: option.splits if_splits)

lemma fresh_stored_event_simps [simp]:
  "mem_ev_state (fresh_stored_event ev) = new_ev_state ev"
  "se_event (fresh_stored_event ev) = ev" "se_claim_token (fresh_stored_event ev) = []"
  by (simp_all add: fresh_stored_event_def mem_ev_state_def new_ev_state_def)

lemma mem_accept_inv: "mem_inv s \<Longrightarrow> mem_accept ctx a s = (r, s') \<Longrightarrow> mem_inv s'"
  by (elim mem_accept_cases) (auto simp: mem_inv_def intro!: inv_intros)

lemma mem_mark_cases:
  assumes "mem_mark ctx eid tok at s = (r, s')"
  obtains e where "r = Some e" "s' = s"
  | r0 where "r = None" "ctx = None" "fmlookup (ms_events s) eid = Some r0" "se_claim_token r0 = tok" "tok \<noteq> []"
      "s' = s\<lparr>ms_events := fmupd eid
              (r0\<lparr>se_published := True, se_lease_until := zero_time, se_claim_token := []\<rparr>) (ms_events s)\<rparr>"
  using assms by (auto simp: mem_mark_def split: option.splits if_splits)

lemma mem_fail_cases:
  assumes "mem_record_failure ctx f s = (r, s')"
  obtains e where "r = Some e" "s' = s"
  | r0 where "r = None" "ctx = None" "fmlookup (ms_events s) (pf_event_id f) = Some r0"
      "se_claim_token r0 = pf_claim_token f" "pf_claim_token f \<noteq> []"
      "s' = s\<lparr>ms_events := fmupd (pf_event_id f)
              (r0\<lparr>se_attempts := pf_attempts f, se_retry_at := pf_retry_at f, se_terminal := pf_terminal f,
                  se_lease_until := zero_time, se_claim_token := []\<rparr>) (ms_events s)\<rparr>"
  using assms by (auto simp: mem_record_failure_def split: option.splits if_splits)

lemma mem_held_iff:
  "held (mem_abs s) eid tok \<longleftrightarrow>
     tok \<noteq> [] \<and> (\<exists>r. fmlookup (ms_events s) eid = Some r \<and> se_claim_token r = tok)"
  by (auto simp: held_def mem_abs_def events_abs_def)

lemma mem_mark_effect:
  assumes "mem_inv s" "mem_mark ctx eid tok at s = (None, s')"
  shows "mem_inv s' \<and> held (mem_abs s) eid tok \<and> mem_abs s' = ob_update eid mark_state (mem_abs s)"
  using assms(2)
proof (cases rule: mem_mark_cases)
  case (2 r0)
  let ?r = "r0\<lparr>se_published := True, se_lease_until := zero_time, se_claim_token := []\<rparr>"
  have "mem_ev_state ?r = mark_state (mem_ev_state r0)" by (simp add: mem_ev_state_def mark_state_def)
  moreover have "events_inv (fmupd eid ?r (ms_events s))"
    using 2(3) assms(1) by (intro inv_intros) (auto simp: mem_inv_def events_inv_id)
  moreover have "held (mem_abs s) eid tok" using 2 by (auto simp: mem_held_iff)
  ultimately show ?thesis
    using 2 by (auto simp: mem_inv_def mem_abs_def events_abs_def ob_update_def)
qed simp

lemma mem_fail_effect:
  assumes "mem_inv s" "mem_record_failure ctx f s = (None, s')"
  shows "mem_inv s' \<and> held (mem_abs s) (pf_event_id f) (pf_claim_token f)
     \<and> mem_abs s' = ob_update (pf_event_id f) (fail_state f) (mem_abs s)"
  using assms(2)
proof (cases rule: mem_fail_cases)
  case (2 r0)
  let ?r = "r0\<lparr>se_attempts := pf_attempts f, se_retry_at := pf_retry_at f, se_terminal := pf_terminal f,
               se_lease_until := zero_time, se_claim_token := []\<rparr>"
  have "\<not> se_published r0" using 2(3-5) assms(1) by (auto simp: mem_inv_def events_inv_def)
  then have "mem_ev_state ?r = fail_state f (mem_ev_state r0)" by (simp add: mem_ev_state_def fail_state_def)
  moreover have "events_inv (fmupd (pf_event_id f) ?r (ms_events s))"
    using 2(3) assms(1) by (intro inv_intros) (auto simp: mem_inv_def events_inv_id)
  moreover have "held (mem_abs s) (pf_event_id f) (pf_claim_token f)" using 2 by (auto simp: mem_held_iff)
  ultimately show ?thesis
    using 2 by (auto simp: mem_inv_def mem_abs_def events_abs_def ob_update_def)
qed simp

lemma mem_abs_new: "mem_abs s eid = None \<longleftrightarrow> fmlookup (ms_events s) eid = None"
  by (simp add: mem_abs_def events_abs_def)

lemma claim_effect_none: "0 < limit \<Longrightarrow> claim_effect tokens limit ob [] ob"
  by (simp add: claim_effect_def)

lemma mem_claim_error: "mem_claim ctx tokens now lease limit s = (Inl e, s') \<Longrightarrow> s' = s"
  by (auto simp: mem_claim_def split: option.splits if_splits prod.splits)

interpretation mem_outbox: outbox_store mem_abs mem_inv mem_claim mem_mark mem_record_failure
proof (unfold_locales, goal_cases)
  case (1 s)
  then show ?case by (simp add: mem_abs_def mem_inv_def events_wf)
next
  case (2 s limit ctx tokens now lease ps s')
  then show ?case using mem_claim_effect by blast
next
  case (3 s limit ctx tokens now lease e s')
  then show ?case using mem_claim_error claim_effect_none by metis
next
  case (4 s ctx eid tok at s')
  then show ?case by (rule mem_mark_effect)
next
  case (5 s ctx eid tok at e s')
  then show ?case by (auto elim: mem_mark_cases)
next
  case (6 s ctx f s')
  then show ?case by (rule mem_fail_effect)
next
  case (7 s ctx f e s')
  then show ?case by (auto elim: mem_fail_cases)
qed

interpretation mem_timed: timed_outbox_store mem_abs mem_inv mem_claim mem_mark mem_record_failure
  by unfold_locales (rule mem_claim_effect)

interpretation mem_strict: strict_outbox_store mem_abs mem_inv mem_claim mem_mark mem_record_failure
  by unfold_locales (auto dest: mem_claim_error elim: mem_mark_cases mem_fail_cases)

interpretation mem_live: live_outbox_store mem_abs mem_inv mem_claim mem_mark mem_record_failure
  by unfold_locales
    (auto simp: mem_claim_def mem_mark_def mem_record_failure_def mem_held_iff split: prod.split)

interpretation mem_intake: strict_intake_store mem_key clone_event mem_idents mem_abs mem_inv mem_accept
proof (unfold_locales, goal_cases)
  case (3 t x)
  then show ?case by (simp add: mem_key_def)
next
  case (4 s ctx a e s')
  then show ?case by (auto elim: mem_accept_cases)
next
  case (5 s ctx a out s' i)
  then show ?case by (auto elim: mem_accept_cases)
next
  case (6 s ctx a out s')
  from 6(1,3) have "mem_inv s'" by (rule mem_accept_inv)
  from 6(3) show ?case
  proof (cases rule: mem_accept_cases)
    case 3
    with \<open>mem_inv s'\<close> show ?thesis by (auto simp: mem_abs_def events_abs_update accept_insert_def)
  qed (use 6(4) in auto)
next
  case (7 s ctx a e s')
  then show ?case by (auto elim: mem_accept_cases)
qed simp_all

interpretation mem_tx: transaction_store mem_key clone_event mem_idents mem_abs mem_inv
  mem_accept mem_claim mem_mark mem_record_failure
  by unfold_locales
    (auto simp: mem_idents_def mem_claim_def elim: mem_mark_cases mem_fail_cases
      split: option.splits if_splits prod.splits)

text \<open>What the service answers on this store for an identity it knows.\<close>

lemma mem_intake_known:
  assumes "fingerprint (cmd_transaction cmd) [Some (svc_allowed_types svc)] = Inr fp"
    and "mem_idents s (mem_key (cmd_transaction cmd)) = Some i"
  shows "intake_accept svc mem_accept new_id now None cmd s =
     (if idn_fingerprint i \<noteq> fp then Inl ErrConflict
      else if idn_transaction_id i = [] then Inl (Errorf ''replay outcome is missing transaction ID'')
      else Inr \<lparr>res_kind = Replayed, res_id = idn_transaction_id i, res_event_id = idn_event_id i\<rparr>, s)"
proof -
  let ?a = "build_acceptance new_id now cmd fp"
  obtain r s' where acc: "mem_accept None ?a s = (r, s')" by fastforce
  have "mem_key (acc_transaction ?a) = mem_key (cmd_transaction cmd)" by simp
  with acc assms(2) have "r = Inr (replay_outcome i fp)" "s' = s"
    by (auto elim: mem_accept_cases)
  with acc assms(1) show ?thesis
    by (simp add: intake_accept_valid Let_def interpret_outcome_def replay_outcome_def)
qed

lemma mem_new_store_empty [simp]:
  "mem_inv mem_new_store" "mem_abs mem_new_store = (\<lambda>_. None)" "mem_idents mem_new_store = (\<lambda>_. None)"
  by (simp_all add: mem_new_store_def mem_inv_def events_inv_def mem_abs_def events_abs_def mem_idents_def)

end
