(* ===== verification/NdjsonStore.thy ===== *)
theory NdjsonStore
  imports EventCodec MemoryStore
begin

text \<open>
  \<open>internal/transaction/adapters/ndjson/store.go\<close>: the store that keeps its maps in memory and
  appends a JSON line to a file for every change. The maps hold the same records as the in-memory
  store's.

  The file is its bytes (\<open>None\<close>: it does not exist); this process is its only writer. What the
  operating system answers to the \<open>n\<close>-th append is \<open>nd_io s n\<close>: the errors of opening, of
  \<open>Chmod\<close> and of \<open>Sync\<close>, and a write that stops after some bytes. A call of \<open>append\<close> takes the next
  of these answers.
\<close>

subsection \<open>Data\<close>

record log_record =
  lr_kind :: go_string
  lr_acceptance :: "acceptance option"
  lr_failure :: "publish_failure option"
  lr_event_id :: go_string
  lr_recorded_at :: gotime
  lr_location_raw :: "go_string option"
  lr_metadata_raw :: "go_string option"

record append_io =
  ai_open :: "go_error option"
  ai_chmod :: "go_error option"
  ai_write :: "(nat \<times> go_error) option"
  ai_sync :: "go_error option"

record nd_store =
  nd_path :: go_string
  nd_transactions :: "(go_string, stored_transaction) fmap"
  nd_events :: stored_events
  nd_file :: "go_string option"
  nd_io :: "nat \<Rightarrow> append_io"
  nd_appends :: nat

definition nd_ready :: "go_context \<Rightarrow> go_error option" where
  "nd_ready ctx = ctx"

subsection \<open>Records\<close>

definition empty_log_record :: log_record where
  "empty_log_record =
     \<lparr>lr_kind = [], lr_acceptance = None, lr_failure = None, lr_event_id = [],
      lr_recorded_at = zero_time, lr_location_raw = None, lr_metadata_raw = None\<rparr>"

text \<open>\<open>omitempty\<close> omits nil pointers, empty strings and empty slices, but no \<open>time.Time\<close>.\<close>

definition marshal_pointer :: "('a \<Rightarrow> go_string result) \<Rightarrow> 'a option \<Rightarrow> go_string option result" where
  "marshal_pointer m p = (case p of None \<Rightarrow> Inr None | Some x \<Rightarrow> and_then (m x) (\<lambda>b. Inr (Some b)))"

definition marshal_log_record :: "log_record \<Rightarrow> go_string result" where
  "marshal_log_record r =
     and_then (marshal_pointer marshal_acceptance (lr_acceptance r)) (\<lambda>a.
     and_then (marshal_pointer marshal_failure (lr_failure r)) (\<lambda>f.
     and_then (marshal_time (lr_recorded_at r)) (\<lambda>tm.
       Inr (marshal_struct
         [(''kind'', Some (quote_json (lr_kind r))),
          (''acceptance'', a),
          (''failure'', f),
          (''eventId'', marshal_omit_string (lr_event_id r)),
          (''recordedAt'', Some tm),
          (''locationRaw'', marshal_bytes (lr_location_raw r)),
          (''metadataRaw'', marshal_bytes (lr_metadata_raw r))]))))"

definition log_record_setter :: "log_record setter" where
  "log_record_setter = struct_setter
     [(''kind'', field_of lr_kind lr_kind_update string_setter),
      (''acceptance'', field_of lr_acceptance lr_acceptance_update (pointer_setter empty_acceptance acceptance_setter)),
      (''failure'', field_of lr_failure lr_failure_update (pointer_setter empty_failure failure_setter)),
      (''eventId'', field_of lr_event_id lr_event_id_update string_setter),
      (''recordedAt'', field_of lr_recorded_at lr_recorded_at_update time_setter),
      (''locationRaw'', field_of lr_location_raw lr_location_raw_update bytes_setter),
      (''metadataRaw'', field_of lr_metadata_raw lr_metadata_raw_update bytes_setter)]"

definition unmarshal_log_record :: "go_string \<Rightarrow> decode_error + log_record" where
  "unmarshal_log_record raw = log_record_setter empty_log_record raw"

subsection \<open>Applying a record\<close>

definition restore_raw :: "log_record \<Rightarrow> transaction \<Rightarrow> transaction" where
  "restore_raw r t0 =
     (let t1 = (if lr_location_raw r \<noteq> None then t0\<lparr>tx_location_raw := clone_raw (lr_location_raw r)\<rparr> else t0)
      in (if lr_metadata_raw r \<noteq> None then t1\<lparr>tx_metadata_raw := clone_raw (lr_metadata_raw r)\<rparr> else t1))"

definition nd_apply_accepted :: "log_record \<Rightarrow> acceptance \<Rightarrow> nd_store \<Rightarrow> nd_store" where
  "nd_apply_accepted r a s =
     (let t = restore_raw r (acc_transaction a);
          ev = (acc_event a)\<lparr>ev_payload := restore_raw r (ev_payload (acc_event a))\<rparr>;
          key = tx_source t @ '':'' @ tx_source_reference t
      in s\<lparr>nd_transactions := fmupd key
              \<lparr>st_fingerprint = acc_fingerprint a, st_transaction_id = tx_id t, st_event_id = ev_id ev\<rparr>
              (nd_transactions s),
           nd_events := fmupd (ev_id ev) (fresh_stored_event ev) (nd_events s)\<rparr>)"

definition nd_apply :: "log_record \<Rightarrow> nd_store \<Rightarrow> go_error option \<times> nd_store" where
  "nd_apply r s =
     (if lr_kind r = ''accepted'' then
        (case lr_acceptance r of
           None \<Rightarrow> (Some (Errorf ''accepted record has no acceptance''), s)
         | Some a \<Rightarrow> (None, nd_apply_accepted r a s))
      else if lr_kind r = ''failed'' then
        (case lr_failure r of
           None \<Rightarrow> (Some (Errorf ''failed record has no failure''), s)
         | Some f \<Rightarrow>
             (case fmlookup (nd_events s) (pf_event_id f) of
                None \<Rightarrow> (Some (Errorq ''failure references unknown event %q'' (pf_event_id f)), s)
              | Some e \<Rightarrow>
                  (None, s\<lparr>nd_events := fmupd (pf_event_id f)
                       (e\<lparr>se_attempts := pf_attempts f, se_retry_at := pf_retry_at f,
                          se_terminal := pf_terminal f, se_lease_until := zero_time, se_claim_token := []\<rparr>)
                       (nd_events s)\<rparr>)))
      else if lr_kind r = ''published'' then
        (case fmlookup (nd_events s) (lr_event_id r) of
           None \<Rightarrow> (Some (Errorq ''publication references unknown event %q'' (lr_event_id r)), s)
         | Some e \<Rightarrow>
             (None, s\<lparr>nd_events := fmupd (lr_event_id r)
                  (e\<lparr>se_published := True, se_lease_until := zero_time, se_claim_token := []\<rparr>)
                  (nd_events s)\<rparr>))
      else (Some (Errorq ''unknown record kind %q'' (lr_kind r)), s))"

subsection \<open>Opening\<close>

text \<open>
  \<open>bufio.ScanLines\<close>: the lines without their line break and a carriage return before it; a last
  line that is not ended is a line too.
\<close>

definition strip_cr :: "go_string \<Rightarrow> go_string" where
  "strip_cr l = (if l \<noteq> [] \<and> last l = CHR 0x0D then butlast l else l)"

definition file_lines :: "go_string \<Rightarrow> go_string list" where
  "file_lines b =
     (let ls = split_on CHR 0x0A b in if last ls = [] then butlast ls else ls)"

text \<open>A line that does not fit the scanner's buffer ends the scan with \<open>bufio.ErrTooLong\<close>.\<close>

definition max_line :: nat where
  "max_line = 1024 * 1024"

text \<open>The loop over the lines from number \<open>n\<close> on; \<open>scan_err\<close> is what ends the file.\<close>

fun nd_load :: "go_error option \<Rightarrow> nat \<Rightarrow> go_string list \<Rightarrow> nd_store \<Rightarrow> nd_store result" where
  "nd_load scan_err n [] s =
     (case scan_err of None \<Rightarrow> Inr s | Some e \<Rightarrow> Inl (Wrap ''scan NDJSON store'' e))"
| "nd_load scan_err n (l # ls) s =
     (if max_line \<le> length l then Inl (Wrap ''scan NDJSON store'' (External ''bufio.Scanner: token too long''))
      else
        (case unmarshal_log_record (strip_cr l) of
           Inl e \<Rightarrow> Inl (Wrap (''decode NDJSON record '' @ itoa n) (json_go_error e))
         | Inr r \<Rightarrow>
             (case nd_apply r s of
                (Some e, s') \<Rightarrow> Inl (Wrap (''apply NDJSON record '' @ itoa n) e)
              | (None, s') \<Rightarrow> nd_load scan_err (n + 1) ls s')))"

definition nd_empty_store :: "go_string \<Rightarrow> go_string option \<Rightarrow> (nat \<Rightarrow> append_io) \<Rightarrow> nd_store" where
  "nd_empty_store path file io =
     \<lparr>nd_path = path, nd_transactions = fmempty, nd_events = fmempty, nd_file = file, nd_io = io, nd_appends = 0\<rparr>"

text \<open>
  \<open>open_err\<close> is an error of \<open>os.Open\<close> on an existing file, \<open>read_err\<close> one that ends the reading
  after some bytes.
\<close>

definition nd_new_store ::
  "go_string \<Rightarrow> go_string option \<Rightarrow> go_error option \<Rightarrow> (nat \<times> go_error) option \<Rightarrow> (nat \<Rightarrow> append_io) \<Rightarrow> nd_store result"
where
  "nd_new_store path file open_err read_err io =
     (if path = [] then Inl (Errorf ''NDJSON store path is required'')
      else
        (let s = nd_empty_store path file io in
         case file of
           None \<Rightarrow> Inr s
         | Some b \<Rightarrow>
             (case open_err of
                Some e \<Rightarrow> Inl (Wrap ''open NDJSON store'' e)
              | None \<Rightarrow>
                  (case read_err of
                     None \<Rightarrow> nd_load None 1 (file_lines b) s
                   | Some (n, e) \<Rightarrow> nd_load (Some e) 1 (file_lines (take n b)) s))))"

subsection \<open>Appending\<close>

definition nd_append :: "log_record \<Rightarrow> nd_store \<Rightarrow> go_error option \<times> nd_store" where
  "nd_append r s =
     (let io = nd_io s (nd_appends s);
          s1 = s\<lparr>nd_appends := nd_appends s + 1\<rparr>;
          old = (case nd_file s of None \<Rightarrow> [] | Some b \<Rightarrow> b)
      in case ai_open io of
           Some e \<Rightarrow> (Some (Wrap ''open NDJSON append log'' e), s1)
         | None \<Rightarrow>
             (case ai_chmod io of
                Some e \<Rightarrow> (Some (Wrap ''secure NDJSON append log'' e), s1\<lparr>nd_file := Some old\<rparr>)
              | None \<Rightarrow>
                  (case marshal_log_record r of
                     Inl e \<Rightarrow> (Some (Wrap ''append NDJSON record'' e), s1\<lparr>nd_file := Some old\<rparr>)
                   | Inr b \<Rightarrow>
                       (case ai_write io of
                          Some (n, e) \<Rightarrow>
                            (Some (Wrap ''append NDJSON record'' e),
                             s1\<lparr>nd_file := Some (old @ take n (b @ [CHR 0x0A]))\<rparr>)
                        | None \<Rightarrow>
                            (map_option (Wrap ''sync NDJSON record'') (ai_sync io),
                             s1\<lparr>nd_file := Some (old @ b @ [CHR 0x0A])\<rparr>)))))"

text \<open>Append, and apply when the append succeeded.\<close>

definition nd_commit :: "log_record \<Rightarrow> nd_store \<Rightarrow> go_error option \<times> nd_store" where
  "nd_commit r s = (case nd_append r s of (Some e, s') \<Rightarrow> (Some e, s') | (None, s') \<Rightarrow> nd_apply r s')"

subsection \<open>The operations\<close>

definition accepted_record :: "acceptance \<Rightarrow> log_record" where
  "accepted_record a = empty_log_record
     \<lparr>lr_kind := ''accepted'', lr_acceptance := Some a,
      lr_location_raw := clone_raw (tx_location_raw (acc_transaction a)),
      lr_metadata_raw := clone_raw (tx_metadata_raw (acc_transaction a))\<rparr>"

definition nd_accept :: "nd_store accept_fn" where
  "nd_accept ctx a s =
     (case ctx of
        Some e \<Rightarrow> (Inl e, s)
      | None \<Rightarrow>
          (let key = tx_source (acc_transaction a) @ '':'' @ tx_source_reference (acc_transaction a) in
           case fmlookup (nd_transactions s) key of
             Some existing \<Rightarrow>
               (if st_fingerprint existing = acc_fingerprint a
                then (Inr \<lparr>so_kind = StoreReplay, so_transaction_id = st_transaction_id existing,
                           so_event_id = st_event_id existing\<rparr>, s)
                else (Inr \<lparr>so_kind = StoreConflict, so_transaction_id = [], so_event_id = []\<rparr>, s))
           | None \<Rightarrow>
               (case nd_commit (accepted_record a) s of
                  (Some e, s') \<Rightarrow> (Inl e, s')
                | (None, s') \<Rightarrow>
                    (Inr \<lparr>so_kind = StoreAccepted, so_transaction_id = tx_id (acc_transaction a),
                          so_event_id = ev_id (acc_event a)\<rparr>, s'))))"

text \<open>
  The claim loop is the one of the in-memory store, without its guard on the limit: a limit of zero
  is never reached, and a negative one is a capacity that \<open>make\<close> panics on.
\<close>

definition nd_claim :: "nd_store claim_fn" where
  "nd_claim ctx tokens now lease limit s =
     (case ctx of
        Some e \<Rightarrow> (Inl e, s)
      | None \<Rightarrow>
          (if limit < 0 then (Inl (External ''panic: makeslice: cap out of range''), s)
           else
             (let (ps, evs) = mem_claim_loop tokens now lease limit
                    (sorted_list_of_fset (fmdom (nd_events s))) [] (nd_events s)
              in (Inr ps, s\<lparr>nd_events := evs\<rparr>))))"

definition published_record :: "go_string \<Rightarrow> gotime \<Rightarrow> log_record" where
  "published_record eid at = empty_log_record\<lparr>lr_kind := ''published'', lr_event_id := eid, lr_recorded_at := at\<rparr>"

definition failed_record :: "publish_failure \<Rightarrow> log_record" where
  "failed_record f = empty_log_record\<lparr>lr_kind := ''failed'', lr_failure := Some f\<rparr>"

definition nd_mark :: "nd_store mark_fn" where
  "nd_mark ctx eid tok at s =
     (case ctx of
        Some e \<Rightarrow> (Some e, s)
      | None \<Rightarrow>
          (case fmlookup (nd_events s) eid of
             None \<Rightarrow> (Some (Errorq ''outbox event %q not found'' eid), s)
           | Some r \<Rightarrow>
               (if se_claim_token r = [] \<or> se_claim_token r \<noteq> tok then (Some ErrLeaseLost, s)
                else nd_commit (published_record eid at) s)))"

definition nd_record_failure :: "nd_store fail_fn" where
  "nd_record_failure ctx f s =
     (case ctx of
        Some e \<Rightarrow> (Some e, s)
      | None \<Rightarrow>
          (case fmlookup (nd_events s) (pf_event_id f) of
             None \<Rightarrow> (Some (Errorq ''outbox event %q not found'' (pf_event_id f)), s)
           | Some r \<Rightarrow>
               (if se_claim_token r = [] \<or> se_claim_token r \<noteq> pf_claim_token f then (Some ErrLeaseLost, s)
                else nd_commit (failed_record f) s)))"

end
