(* ===== verification/NdjsonFacts.thy ===== *)
theory NdjsonFacts
  imports NdjsonStore
begin

text \<open>
  The append-log store behaves like the in-memory store whose maps it keeps: an operation whose
  append succeeds is the in-memory operation, one whose append fails changes no map. So it meets
  the same ports, and every property of the intake and the dispatcher holds on it between two
  restarts.
\<close>

definition nd_mem :: "nd_store \<Rightarrow> mem_store" where
  "nd_mem s = \<lparr>ms_transactions = nd_transactions s, ms_events = nd_events s\<rparr>"

definition nd_abs :: "nd_store \<Rightarrow> outbox" where
  "nd_abs s = mem_abs (nd_mem s)"

definition nd_idents :: "nd_store \<Rightarrow> go_string \<Rightarrow> identity option" where
  "nd_idents s = mem_idents (nd_mem s)"

definition nd_inv :: "nd_store \<Rightarrow> bool" where
  "nd_inv s \<longleftrightarrow> mem_inv (nd_mem s)"

lemmas nd_view = nd_abs_def nd_idents_def nd_inv_def

lemma nd_mem_simps [simp]:
  "ms_transactions (nd_mem s) = nd_transactions s" "ms_events (nd_mem s) = nd_events s"
  by (simp_all add: nd_mem_def)

lemma nd_mem_eqI: "nd_transactions s' = nd_transactions s \<Longrightarrow> nd_events s' = nd_events s \<Longrightarrow> nd_mem s' = nd_mem s"
  by (simp add: nd_mem_def)

subsection \<open>Appending\<close>

lemma nd_append_maps: "nd_append r s = (e, s') \<Longrightarrow> nd_mem s' = nd_mem s"
  by (intro nd_mem_eqI) (auto simp: nd_append_def Let_def split: option.splits sum.splits prod.splits)

lemma nd_commit_cases:
  assumes "nd_commit r s = (e, s')"
  obtains e' where "e = Some e'" "nd_mem s' = nd_mem s"
  | s1 where "nd_append r s = (None, s1)" "nd_mem s1 = nd_mem s" "nd_apply r s1 = (e, s')"
proof -
  obtain e1 s1 where a: "nd_append r s = (e1, s1)" by fastforce
  with nd_append_maps [OF a] assms that show thesis
    by (cases e1) (auto simp: nd_commit_def)
qed

text \<open>The record of an acceptance restores the transaction it was made from.\<close>

lemma restore_raw_same: "restore_raw (accepted_record a) (acc_transaction a) = acc_transaction a"
  by (cases "tx_location_raw (acc_transaction a)"; cases "tx_metadata_raw (acc_transaction a)")
     (auto simp: restore_raw_def accepted_record_def empty_log_record_def clone_raw_def raw_bytes_def)

lemma nd_apply_accepted_record:
  assumes "acc_coherent a"
  shows "nd_apply (accepted_record a) s =
     (None, s\<lparr>nd_transactions := fmupd (mem_key (acc_transaction a))
                \<lparr>st_fingerprint = acc_fingerprint a, st_transaction_id = tx_id (acc_transaction a),
                 st_event_id = ev_id (acc_event a)\<rparr> (nd_transactions s),
              nd_events := fmupd (ev_id (acc_event a)) (fresh_stored_event (acc_event a)) (nd_events s)\<rparr>)"
proof -
  have "restore_raw (accepted_record a) (ev_payload (acc_event a)) = ev_payload (acc_event a)"
    using assms restore_raw_same by (simp add: acc_coherent_def)
  moreover have "nd_apply (accepted_record a) s = (None, nd_apply_accepted (accepted_record a) a s)"
    by (simp add: nd_apply_def accepted_record_def empty_log_record_def)
  ultimately show ?thesis
    by (simp add: nd_apply_accepted_def restore_raw_same Let_def mem_key_def)
qed

subsection \<open>Acceptance\<close>

lemma nd_accept_cases:
  assumes "nd_accept ctx a s = (r, s')"
  obtains e where "ctx = Some e" "r = Inl e" "s' = s"
  | i where "ctx = None" "nd_idents s (mem_key (acc_transaction a)) = Some i" "s' = s"
      "r = Inr (replay_outcome i (acc_fingerprint a))"
  | e where "ctx = None" "nd_idents s (mem_key (acc_transaction a)) = None" "r = Inl e"
      "nd_commit (accepted_record a) s = (Some e, s')"
  | "ctx = None" "nd_idents s (mem_key (acc_transaction a)) = None" "r = Inr (accepted_outcome a)"
      "nd_commit (accepted_record a) s = (None, s')"
  using assms
  by (auto simp: nd_accept_def Let_def nd_view mem_idents_def mem_identity_def replay_outcome_def mem_key_def
        accepted_outcome_def split: option.splits if_splits prod.splits)

lemma nd_commit_accepted:
  assumes "acc_coherent a" "nd_commit (accepted_record a) s = (e, s')"
  shows "e = None \<and> nd_idents s' = (nd_idents s)(mem_key (acc_transaction a) \<mapsto> identity_of a)
         \<and> nd_events s' = fmupd (ev_id (acc_event a)) (fresh_stored_event (acc_event a)) (nd_events s)
     \<or> e \<noteq> None \<and> nd_mem s' = nd_mem s"
  using assms(2)
proof (cases rule: nd_commit_cases)
  case (2 s1)
  have m: "nd_transactions s1 = nd_transactions s" "nd_events s1 = nd_events s"
    using 2(2) by (simp_all add: nd_mem_def)
  with 2(3) show ?thesis
    by (auto simp: nd_apply_accepted_record [OF assms(1)] nd_view mem_idents_def mem_identity_def
        identity_of_def fun_eq_iff)
qed simp

subsection \<open>The outbox\<close>

lemma nd_claim_mem:
  assumes "0 < limit"
  shows "nd_claim ctx tokens now lease limit s =
     (let (r, m) = mem_claim ctx tokens now lease limit (nd_mem s) in (r, s\<lparr>nd_events := ms_events m\<rparr>))"
  using assms by (auto simp: nd_claim_def mem_claim_def Let_def split: option.splits prod.splits)

lemma nd_claim_run:
  assumes "0 < limit" "nd_claim ctx tokens now lease limit s = (r, s')"
  shows "mem_claim ctx tokens now lease limit (nd_mem s) = (r, nd_mem s')"
proof -
  obtain m where m: "mem_claim ctx tokens now lease limit (nd_mem s) = (r, m)" "nd_events s' = ms_events m"
    "nd_transactions s' = nd_transactions s"
    using assms by (auto simp: nd_claim_mem split: prod.splits)
  moreover from m(1) have "ms_transactions m = nd_transactions s"
    by (auto simp: mem_claim_def split: option.splits if_splits prod.splits)
  ultimately have "m = nd_mem s'" by (simp add: nd_mem_def)
  with m(1) show ?thesis by simp
qed

lemma nd_apply_published:
  assumes "nd_mem s1 = nd_mem s" "fmlookup (nd_events s) eid = Some r0" "nd_apply (published_record eid at) s1 = (e, s')"
  shows "e = None \<and> nd_mem s' = (nd_mem s)\<lparr>ms_events := fmupd eid
           (r0\<lparr>se_published := True, se_lease_until := zero_time, se_claim_token := []\<rparr>) (nd_events s)\<rparr>"
  using assms by (auto simp: nd_apply_def published_record_def empty_log_record_def nd_mem_def)

lemma nd_apply_failed:
  assumes "nd_mem s1 = nd_mem s" "fmlookup (nd_events s) (pf_event_id f) = Some r0"
    and "nd_apply (failed_record f) s1 = (e, s')"
  shows "e = None \<and> nd_mem s' = (nd_mem s)\<lparr>ms_events := fmupd (pf_event_id f)
           (r0\<lparr>se_attempts := pf_attempts f, se_retry_at := pf_retry_at f, se_terminal := pf_terminal f,
               se_lease_until := zero_time, se_claim_token := []\<rparr>) (nd_events s)\<rparr>"
  using assms by (auto simp: nd_apply_def failed_record_def empty_log_record_def nd_mem_def)

text \<open>An outcome is either reported as an error and not recorded, or it is the in-memory operation.\<close>

lemma nd_mark_run:
  assumes "nd_mark ctx eid tok at s = (r, s')"
  shows "r \<noteq> None \<and> nd_mem s' = nd_mem s \<or> mem_mark ctx eid tok at (nd_mem s) = (r, nd_mem s')"
proof (cases "ctx = None \<and> (\<exists>r0. fmlookup (nd_events s) eid = Some r0 \<and> se_claim_token r0 \<noteq> [] \<and> se_claim_token r0 = tok)")
  case True
  then obtain r0 where r0: "ctx = None" "fmlookup (nd_events s) eid = Some r0" "se_claim_token r0 \<noteq> []"
    "se_claim_token r0 = tok" by blast
  with assms have "nd_commit (published_record eid at) s = (r, s')" by (auto simp: nd_mark_def)
  then show ?thesis
  proof (cases rule: nd_commit_cases)
    case (2 s1)
    from nd_apply_published [OF 2(2) r0(2) 2(3)] r0 show ?thesis by (auto simp: mem_mark_def)
  qed simp
next
  case False
  with assms show ?thesis by (auto simp: nd_mark_def split: option.splits if_splits)
qed

lemma nd_fail_run:
  assumes "nd_record_failure ctx f s = (r, s')"
  shows "r \<noteq> None \<and> nd_mem s' = nd_mem s \<or> mem_record_failure ctx f (nd_mem s) = (r, nd_mem s')"
proof (cases "ctx = None \<and> (\<exists>r0. fmlookup (nd_events s) (pf_event_id f) = Some r0 \<and> se_claim_token r0 \<noteq> []
      \<and> se_claim_token r0 = pf_claim_token f)")
  case True
  then obtain r0 where r0: "ctx = None" "fmlookup (nd_events s) (pf_event_id f) = Some r0" "se_claim_token r0 \<noteq> []"
    "se_claim_token r0 = pf_claim_token f" by blast
  with assms have "nd_commit (failed_record f) s = (r, s')" by (auto simp: nd_record_failure_def)
  then show ?thesis
  proof (cases rule: nd_commit_cases)
    case (2 s1)
    from nd_apply_failed [OF 2(2) r0(2) 2(3)] r0 show ?thesis by (auto simp: mem_record_failure_def)
  qed simp
next
  case False
  with assms show ?thesis by (auto simp: nd_record_failure_def split: option.splits if_splits)
qed

lemma nd_mark_error: "nd_mark ctx eid tok at s = (Some e, s') \<Longrightarrow> nd_mem s' = nd_mem s"
  using nd_mark_run [of ctx eid tok at s "Some e" s'] by (auto elim: mem_mark_cases)

lemma nd_fail_error: "nd_record_failure ctx f s = (Some e, s') \<Longrightarrow> nd_mem s' = nd_mem s"
  using nd_fail_run [of ctx f s "Some e" s'] by (auto elim: mem_fail_cases)

subsection \<open>The ports\<close>

interpretation nd_outbox: timed_outbox_store nd_abs nd_inv nd_claim nd_mark nd_record_failure
proof (unfold_locales, goal_cases)
  case (1 s)
  then show ?case by (simp add: nd_view mem_outbox.abs_wf)
next
  case (2 s limit ctx tokens now lease ps s')
  with mem_claim_effect [OF _ 2(2) nd_claim_run [OF 2(2,3)]] show ?case by (simp add: nd_view)
next
  case (3 s limit ctx tokens now lease e s')
  from mem_claim_error [OF nd_claim_run [OF 3(2,3)]] 3(1,2) show ?case
    by (auto simp: nd_view intro!: exI [of _ "[]"] claim_effect_none)
next
  case (4 s ctx eid tok at s')
  with nd_mark_run [OF 4(2)] mem_mark_effect show ?case by (auto simp: nd_view)
next
  case (5 s ctx eid tok at e s')
  with nd_mark_error [OF 5(2)] show ?case by (simp add: nd_view)
next
  case (6 s ctx f s')
  with nd_fail_run [OF 6(2)] mem_fail_effect show ?case by (auto simp: nd_view)
next
  case (7 s ctx f e s')
  with nd_fail_error [OF 7(2)] show ?case by (simp add: nd_view)
next
  case (8 s limit ctx tokens now lease ps s')
  with mem_claim_effect [OF _ 8(2) nd_claim_run [OF 8(2,3)]] show ?case by (simp add: nd_view)
qed

interpretation nd_intake: strict_intake_store mem_key "\<lambda>ev. ev" nd_idents nd_abs nd_inv nd_accept
proof (unfold_locales, goal_cases)
  case (3 t x)
  then show ?case by (simp add: mem_key_def)
next
  case (4 s a ctx e s')
  from 4(3) show ?case
  proof (cases rule: nd_accept_cases)
    case (3 e')
    with nd_commit_accepted [OF 4(2) 3(4)] 4(1) show ?thesis by (simp add: nd_view)
  qed (use 4(1) in auto)
next
  case (5 s ctx a out s' i)
  from 5(2) show ?case
    by (cases rule: nd_accept_cases) (use 5 in auto)
next
  case (6 s a ctx out s')
  from 6(3) show ?case
  proof (cases rule: nd_accept_cases)
    case 4
    with nd_commit_accepted [OF 6(2) 4(4)]
    have n: "nd_idents s' = (nd_idents s)(mem_key (acc_transaction a) \<mapsto> identity_of a)"
      "nd_events s' = fmupd (ev_id (acc_event a)) (fresh_stored_event (acc_event a)) (nd_events s)" by auto
    then have "nd_inv s'" using 6(1) by (auto simp: nd_inv_def mem_inv_def intro!: inv_intros)
    with n 4 show ?thesis by (simp add: nd_abs_def mem_abs_def events_abs_update accept_insert_def)
  qed (use 6(4) in auto)
next
  case (7 s ctx a e s')
  from 7(2) show ?case
  proof (cases rule: nd_accept_cases)
    case (3 e')
    then have "nd_mem s' = nd_mem s" 
    proof (cases "acc_coherent a")
      case True
      from nd_commit_accepted [OF this 3(4)] show ?thesis by simp
    next
      case False
      from 3(4) show ?thesis
        by (cases rule: nd_commit_cases) (auto simp: nd_apply_def accepted_record_def empty_log_record_def)
    qed
    with 7(1) show ?thesis by (simp add: nd_view)
  qed (use 7(1) in auto)
qed simp_all

lemma nd_claim_idents: "nd_claim ctx tokens now lease limit s = (r, s') \<Longrightarrow> nd_transactions s' = nd_transactions s"
  by (auto simp: nd_claim_def split: option.splits if_splits prod.splits)

lemma nd_claim_error: "nd_claim ctx tokens now lease limit s = (Inl e, s') \<Longrightarrow> s' = s"
  by (auto simp: nd_claim_def split: option.splits if_splits prod.splits)

interpretation nd_strict: strict_outbox_store nd_abs nd_inv nd_claim nd_mark nd_record_failure
  by unfold_locales (auto simp: nd_view dest: nd_claim_error nd_mark_error nd_fail_error)

lemma mem_idents_kept:
  "mem_mark ctx eid tok at m = (r, m') \<Longrightarrow> mem_idents m' = mem_idents m"
  "mem_record_failure ctx f m = (r, m') \<Longrightarrow> mem_idents m' = mem_idents m"
  by (auto simp: mem_idents_def elim: mem_mark_cases mem_fail_cases)

interpretation nd_tx: transaction_store mem_key "\<lambda>ev. ev" nd_idents nd_abs nd_inv
  nd_accept nd_claim nd_mark nd_record_failure
proof (unfold_locales, goal_cases)
  case (1 s ctx tokens now lease limit cr s')
  with nd_claim_idents show ?case by (simp add: nd_idents_def mem_idents_def)
next
  case (2 s ctx eid tok at mr s')
  with nd_mark_run [OF 2(2)] mem_idents_kept(1) show ?case by (auto simp: nd_idents_def)
next
  case (3 s ctx f fr s')
  with nd_fail_run [OF 3(2)] mem_idents_kept(2) show ?case by (auto simp: nd_idents_def)
qed

end
