(* ===== verification/OutboxSystem.thy ===== *)
theory OutboxSystem
  imports MemoryStore
begin

text \<open>
  Intake and dispatch together: any number of service instances and dispatchers work on one
  store, every store operation and every publication is a step, and a dispatcher may die between
  two of its steps. The log holds what the broker has accepted.

  The invariant is proved once for every \<open>transaction_store\<close>; the facts for the in-memory store
  follow from its interpretation.
\<close>

subsection \<open>States and steps\<close>

text \<open>
  A claimed event is in the hands of a dispatcher: handed out, published (to be marked) or
  refused by the publisher (its failure is to be recorded). \<open>sys_used\<close> and \<open>sys_done\<close> are ghost
  state: the claim tokens drawn so far and the claims that were completed.
\<close>

datatype flight_phase = Handed | Sent | Refused

record 's system =
  sys_store :: 's
  sys_log :: "outbox_event list"
  sys_flight :: "(flight_phase \<times> pending_event) set"
  sys_used :: "go_string set"
  sys_done :: "(go_string \<times> go_string) list"

definition claim_of :: "pending_event \<Rightarrow> go_string \<times> go_string" where
  "claim_of p = (pe_id p, pe_claim_token p)"

definition initial_system :: "'s \<Rightarrow> 's system" where
  "initial_system s = \<lparr>sys_store = s, sys_log = [], sys_flight = {}, sys_used = {}, sys_done = []\<rparr>"

text \<open>\<open>rand.Text\<close> never repeats a value, and never returns the empty string.\<close>

definition fresh_tokens :: "(nat \<Rightarrow> go_string) \<Rightarrow> go_string set \<Rightarrow> bool" where
  "fresh_tokens tokens used \<longleftrightarrow> inj tokens \<and> [] \<notin> range tokens \<and> range tokens \<inter> used = {}"

text \<open>
  The end of a claim. Whether the store has acted on it is read off its outbox, since an error
  may hide a completed update.
\<close>

definition settle ::
  "('s \<Rightarrow> outbox) \<Rightarrow> flight_phase \<Rightarrow> pending_event \<Rightarrow> 's \<Rightarrow> 's system \<Rightarrow> 's system" where
  "settle view ph p s' S =
     S\<lparr>sys_store := s', sys_flight := sys_flight S - {(ph, p)},
       sys_done := sys_done S @ (if view s' = view (sys_store S) then [] else [claim_of p])\<rparr>"

inductive sys_step ::
  "intake_service \<Rightarrow> dispatcher_config \<Rightarrow> ('s \<Rightarrow> outbox) \<Rightarrow> 's accept_fn \<Rightarrow> 's claim_fn \<Rightarrow> 's mark_fn
     \<Rightarrow> 's fail_fn \<Rightarrow> 's system \<Rightarrow> 's system \<Rightarrow> bool"
  for svc :: intake_service and cfg :: dispatcher_config and view :: "'s \<Rightarrow> outbox"
    and accept :: "'s accept_fn" and claim :: "'s claim_fn" and mark :: "'s mark_fn"
    and rf :: "'s fail_fn"
where
  step_accept:
    "view (sys_store S) (new_id 0) = None \<Longrightarrow>
     intake_accept svc accept new_id now ctx cmd (sys_store S) = (r, s') \<Longrightarrow>
     sys_step svc cfg view accept claim mark rf S (S\<lparr>sys_store := s'\<rparr>)"
| step_claim:
    "fresh_tokens tokens (sys_used S) \<Longrightarrow>
     claim ctx tokens now (cfg_lease cfg) (cfg_batch_size cfg) (sys_store S) = (Inr ps, s') \<Longrightarrow>
     sys_step svc cfg view accept claim mark rf S
       (S\<lparr>sys_store := s', sys_flight := sys_flight S \<union> Pair Handed ` set ps,
          sys_used := sys_used S \<union> range tokens\<rparr>)"
| step_claim_error:
    "fresh_tokens tokens (sys_used S) \<Longrightarrow>
     claim ctx tokens now (cfg_lease cfg) (cfg_batch_size cfg) (sys_store S) = (Inl e, s') \<Longrightarrow>
     sys_step svc cfg view accept claim mark rf S
       (S\<lparr>sys_store := s', sys_used := sys_used S \<union> range tokens\<rparr>)"
| step_publish:
    "(Handed, p) \<in> sys_flight S \<Longrightarrow>
     sys_step svc cfg view accept claim mark rf S
       (S\<lparr>sys_log := sys_log S @ [pe_event p],
          sys_flight := insert (Sent, p) (sys_flight S - {(Handed, p)})\<rparr>)"
| step_refuse:
    "(Handed, p) \<in> sys_flight S \<Longrightarrow> log = sys_log S \<or> log = sys_log S @ [pe_event p] \<Longrightarrow>
     sys_step svc cfg view accept claim mark rf S
       (S\<lparr>sys_log := log, sys_flight := insert (Refused, p) (sys_flight S - {(Handed, p)})\<rparr>)"
| step_mark:
    "(Sent, p) \<in> sys_flight S \<Longrightarrow> mark ctx (pe_id p) (pe_claim_token p) now (sys_store S) = (r, s') \<Longrightarrow>
     sys_step svc cfg view accept claim mark rf S (settle view Sent p s' S)"
| step_fail:
    "(Refused, p) \<in> sys_flight S \<Longrightarrow> rf ctx (make_failure cfg now p) (sys_store S) = (r, s') \<Longrightarrow>
     sys_step svc cfg view accept claim mark rf S (settle view Refused p s' S)"
| step_crash:
    "F \<subseteq> sys_flight S \<Longrightarrow> sys_step svc cfg view accept claim mark rf S (S\<lparr>sys_flight := F\<rparr>)"

inductive_cases sys_stepE: "sys_step svc cfg view accept claim mark rf S S'"

lemmas sys_step_cases =
  sys_stepE [consumes 1, case_names Accept Claim ClaimError Publish Refuse Mark Fail Crash]

inductive sys_reachable ::
  "('s system \<Rightarrow> 's system \<Rightarrow> bool) \<Rightarrow> 's \<Rightarrow> 's system \<Rightarrow> bool"
  for step :: "'s system \<Rightarrow> 's system \<Rightarrow> bool" and s0 :: 's
where
  reach_init: "sys_reachable step s0 (initial_system s0)"
| reach_step: "sys_reachable step s0 S \<Longrightarrow> step S S' \<Longrightarrow> sys_reachable step s0 S'"

lemma reachable_steps:
  assumes "sys_reachable step s0 S" "step\<^sup>*\<^sup>* S S'"
  shows "sys_reachable step s0 S'"
  using assms(2,1) by induction (auto intro: reach_step)

lemma settle_simps [simp]:
  "sys_store (settle view ph p s' S) = s'" "sys_log (settle view ph p s' S) = sys_log S"
  "sys_flight (settle view ph p s' S) = sys_flight S - {(ph, p)}" "sys_used (settle view ph p s' S) = sys_used S"
  "sys_done (settle view ph p s' S)
     = sys_done S @ (if view s' = view (sys_store S) then [] else [claim_of p])"
  by (simp_all add: settle_def)

lemma initial_system_simps [simp]:
  "sys_store (initial_system s) = s" "sys_log (initial_system s) = []" "sys_flight (initial_system s) = {}"
  "sys_used (initial_system s) = {}" "sys_done (initial_system s) = []"
  by (simp_all add: initial_system_def)

subsection \<open>The invariant\<close>

text \<open>
  Every claim in flight names a stored event as it is stored, with its attempts as long as the
  claim is current; a published claim's event is in the log, and so is every event marked
  published; the current tokens were drawn and their claims are not completed; no claim is
  completed twice; pending events have attempts left, failed ones have used them all.
\<close>

definition entry_ok :: "outbox \<Rightarrow> 's system \<Rightarrow> flight_phase \<Rightarrow> pending_event \<Rightarrow> bool" where
  "entry_ok ob S ph p \<longleftrightarrow>
     pe_claim_token p \<in> sys_used S \<and> (ph = Sent \<longrightarrow> pe_event p \<in> set (sys_log S))
     \<and> (\<exists>e. ob (pe_id p) = Some e \<and> es_event e = pe_event p
          \<and> (es_token e = pe_claim_token p \<longrightarrow> es_attempts e = pe_attempts p))"

definition flight_ok :: "outbox \<Rightarrow> 's system \<Rightarrow> bool" where
  "flight_ok ob S \<longleftrightarrow> (\<forall>ph p. (ph, p) \<in> sys_flight S \<longrightarrow> entry_ok ob S ph p)"

definition event_ok :: "dispatcher_config \<Rightarrow> 's system \<Rightarrow> go_string \<Rightarrow> ev_state \<Rightarrow> bool" where
  "event_ok cfg S eid e \<longleftrightarrow>
     (es_status e = Published \<longrightarrow> es_event e \<in> set (sys_log S))
     \<and> (es_token e \<noteq> [] \<longrightarrow> es_token e \<in> sys_used S \<and> (eid, es_token e) \<notin> set (sys_done S))
     \<and> (es_status e \<noteq> Failed \<longrightarrow> es_attempts e < cfg_max_attempts cfg)
     \<and> (es_status e = Failed \<longrightarrow> es_attempts e = cfg_max_attempts cfg)"

definition done_ok :: "'s system \<Rightarrow> bool" where
  "done_ok S \<longleftrightarrow> distinct (sys_done S) \<and> snd ` set (sys_done S) \<subseteq> sys_used S \<and> [] \<notin> sys_used S"

definition sys_ok :: "dispatcher_config \<Rightarrow> outbox \<Rightarrow> 's system \<Rightarrow> bool" where
  "sys_ok cfg ob S \<longleftrightarrow>
     flight_ok ob S \<and> (\<forall>eid e. ob eid = Some e \<longrightarrow> event_ok cfg S eid e) \<and> done_ok S"

lemma sys_okD:
  assumes "sys_ok cfg ob S"
  shows "flight_ok ob S" "\<And>eid e. ob eid = Some e \<Longrightarrow> event_ok cfg S eid e" "done_ok S"
  using assms by (auto simp: sys_ok_def)

lemma sys_ok_initial: "sys_ok cfg (\<lambda>_. None) (initial_system s)"
  by (simp add: sys_ok_def flight_ok_def done_ok_def)

text \<open>Steps that leave the outbox alone: the log grows, the flight shrinks or changes its phases.\<close>

lemma sys_ok_flight:
  assumes "sys_ok cfg ob S" "set (sys_log S) \<subseteq> set (sys_log S')" "sys_used S' = sys_used S"
    and "sys_done S' = sys_done S"
    and "\<And>ph p. (ph, p) \<in> sys_flight S' \<Longrightarrow>
           (\<exists>ph'. (ph', p) \<in> sys_flight S \<and> (ph = Sent \<longrightarrow> ph' = Sent \<or> pe_event p \<in> set (sys_log S')))"
  shows "sys_ok cfg ob S'"
proof -
  have "entry_ok ob S' ph p" if f: "(ph, p) \<in> sys_flight S'" for ph p
  proof -
    obtain ph' where ph': "(ph', p) \<in> sys_flight S" "ph = Sent \<longrightarrow> ph' = Sent \<or> pe_event p \<in> set (sys_log S')"
      using assms(5) [OF f] by blast
    from sys_okD(1) [OF assms(1)] ph'(1) have "entry_ok ob S ph' p" by (simp add: flight_ok_def)
    with ph'(2) assms(2,3) show ?thesis by (auto simp: entry_ok_def)
  qed
  then have "flight_ok ob S'" by (simp add: flight_ok_def)
  moreover have "event_ok cfg S' eid e" if "ob eid = Some e" for eid e
    using sys_okD(2) [OF assms(1) that] assms(2-4) by (auto simp: event_ok_def)
  moreover have "done_ok S'" using sys_okD(3) [OF assms(1)] assms(3,4) by (simp add: done_ok_def)
  ultimately show ?thesis by (simp add: sys_ok_def)
qed

lemma sys_ok_insert:
  assumes "sys_ok cfg ob S" "ob eid = None" "0 < cfg_max_attempts cfg"
  shows "sys_ok cfg (ob(eid \<mapsto> new_ev_state ev)) (S\<lparr>sys_store := s'\<rparr>)"
proof -
  note old = sys_okD [OF assms(1)]
  have "entry_ok (ob(eid \<mapsto> new_ev_state ev)) (S\<lparr>sys_store := s'\<rparr>) ph p" if "(ph, p) \<in> sys_flight S" for ph p
  proof -
    from old(1) that have p: "entry_ok ob S ph p" by (simp add: flight_ok_def)
    then have "pe_id p \<noteq> eid" using assms(2) by (auto simp: entry_ok_def)
    with p show ?thesis by (simp add: entry_ok_def)
  qed
  then have "flight_ok (ob(eid \<mapsto> new_ev_state ev)) (S\<lparr>sys_store := s'\<rparr>)" by (simp add: flight_ok_def)
  moreover have "event_ok cfg (S\<lparr>sys_store := s'\<rparr>) eid' e" if "(ob(eid \<mapsto> new_ev_state ev)) eid' = Some e" for eid' e
    using that old(2) [of eid' e] assms(3) by (auto simp: event_ok_def split: if_splits)
  moreover have "done_ok (S\<lparr>sys_store := s'\<rparr>)" using old(3) by (simp add: done_ok_def)
  ultimately show ?thesis by (simp add: sys_ok_def)
qed

lemma sys_ok_store: "sys_ok cfg ob S \<Longrightarrow> sys_ok cfg ob (S\<lparr>sys_store := s'\<rparr>)"
  by (simp add: sys_ok_def flight_ok_def entry_ok_def event_ok_def done_ok_def)

lemma sys_ok_claim:
  assumes ok: "sys_ok cfg ob S" and eff: "claim_effect tokens limit ob ps ob'"
    and fresh: "fresh_tokens tokens (sys_used S)" and F: "F \<subseteq> Pair Handed ` set ps"
  shows "sys_ok cfg ob' (S\<lparr>sys_store := s', sys_flight := sys_flight S \<union> F,
                             sys_used := sys_used S \<union> range tokens\<rparr>)" (is "sys_ok cfg ob' ?S")
proof -
  note old = sys_okD [OF ok]
  have new: "\<exists>e u. ob (pe_id p) = Some e \<and> es_status e = Pending \<and> pe_event p = es_event e
      \<and> pe_attempts p = es_attempts e \<and> pe_claim_token p \<in> range tokens
      \<and> ob' (pe_id p) = Some (lease_state u (pe_claim_token p) e)" if "p \<in> set ps" for p
    using that eff by (simp add: claim_effect_def)
  have same: "ob' eid = ob eid" if "eid \<notin> pe_id ` set ps" for eid
    using that eff by (simp add: claim_effect_def)
  have disj: "range tokens \<inter> sys_used S = {}" "[] \<notin> range tokens"
    using fresh by (auto simp: fresh_tokens_def)
  have "entry_ok ob' ?S ph p" if "(ph, p) \<in> sys_flight ?S" for ph p
  proof -
    from that consider "(ph, p) \<in> sys_flight S" | "p \<in> set ps" "ph = Handed" using F by auto
    then show ?thesis
    proof cases
      case 1
      with old(1) have p: "entry_ok ob S ph p" by (simp add: flight_ok_def)
      show ?thesis
      proof (cases "pe_id p \<in> pe_id ` set ps")
        case True
        then obtain q where q: "q \<in> set ps" "pe_id q = pe_id p" by auto
        with new [OF q(1)] p disj(1) show ?thesis by (auto simp: entry_ok_def)
      next
        case False
        with p same show ?thesis by (simp add: entry_ok_def)
      qed
    next
      case 2
      with new [OF 2(1)] show ?thesis by (auto simp: entry_ok_def)
    qed
  qed
  then have "flight_ok ob' ?S" by (simp only: flight_ok_def) blast
  moreover have "event_ok cfg ?S eid e'" if e': "ob' eid = Some e'" for eid e'
  proof (cases "eid \<in> pe_id ` set ps")
    case True
    then obtain q where q: "q \<in> set ps" "eid = pe_id q" by auto
    from new [OF q(1)] e' q(2) obtain e u where e: "ob eid = Some e" "es_status e = Pending"
      "pe_claim_token q \<in> range tokens" "e' = lease_state u (pe_claim_token q) e" by auto
    moreover have "(eid, pe_claim_token q) \<notin> set (sys_done S)"
      using old(3) e(3) disj(1) by (force simp: done_ok_def)
    ultimately show ?thesis using old(2) [OF e(1)] by (auto simp: event_ok_def)
  next
    case False
    with same e' old(2) show ?thesis by (auto simp: event_ok_def)
  qed
  moreover have "done_ok ?S" using old(3) disj(2) by (auto simp: done_ok_def)
  ultimately show ?thesis by (simp add: sys_ok_def)
qed

text \<open>The completion of a current claim in flight.\<close>

lemma sys_ok_settle:
  assumes ok: "sys_ok cfg ob S" and p: "(ph, p) \<in> sys_flight S"
    and e: "ob (pe_id p) = Some e" "es_token e = pe_claim_token p" "es_status e = Pending"
    and f: "es_event (f e) = es_event e" "es_token (f e) = []"
    and S': "sys_log S' = sys_log S" "sys_flight S' = sys_flight S - {(ph, p)}" "sys_used S' = sys_used S"
      "sys_done S' = sys_done S @ [claim_of p]"
    and good: "event_ok cfg S' (pe_id p) (f e)"
  shows "sys_ok cfg (ob_update (pe_id p) f ob) S'"
proof -
  note old = sys_okD [OF ok]
  have tok: "pe_claim_token p \<in> sys_used S" using old(1) p by (auto simp: flight_ok_def entry_ok_def)
  then have "pe_claim_token p \<noteq> []" using old(3) by (auto simp: done_ok_def)
  with old(2) [OF e(1)] e(2) have nd: "claim_of p \<notin> set (sys_done S)"
    by (simp add: event_ok_def claim_of_def)
  have "entry_ok (ob_update (pe_id p) f ob) S' ph' q" if "(ph', q) \<in> sys_flight S'" for ph' q
  proof -
    from that have "(ph', q) \<in> sys_flight S" by (simp add: S'(2))
    with old(1) have q: "entry_ok ob S ph' q" by (simp add: flight_ok_def)
    moreover have "pe_claim_token q \<noteq> []" using q old(3) by (auto simp: done_ok_def entry_ok_def)
    ultimately show ?thesis
      using e(1) f S'(1,3) by (cases "pe_id q = pe_id p") (auto simp: entry_ok_def)
  qed
  then have "flight_ok (ob_update (pe_id p) f ob) S'" by (simp add: flight_ok_def)
  moreover have "event_ok cfg S' eid e'" if e': "ob_update (pe_id p) f ob eid = Some e'" for eid e'
  proof (cases "eid = pe_id p")
    case True
    with e' e(1) good show ?thesis by simp
  next
    case False
    with e' have "ob eid = Some e'" by simp
    from old(2) [OF this] False S' show ?thesis by (auto simp: event_ok_def claim_of_def)
  qed
  moreover have "done_ok S'"
    using old(3) nd tok by (auto simp: done_ok_def S' claim_of_def)
  ultimately show ?thesis by (simp add: sys_ok_def)
qed

subsection \<open>Preservation, for every store\<close>

definition system_inv ::
  "('s \<Rightarrow> 'k \<Rightarrow> identity option) \<Rightarrow> ('s \<Rightarrow> outbox) \<Rightarrow> ('s \<Rightarrow> bool) \<Rightarrow> dispatcher_config \<Rightarrow> 's system \<Rightarrow> bool" where
  "system_inv idents view store_ok cfg S \<longleftrightarrow>
     store_ok (sys_store S) \<and> linked (idents (sys_store S)) (view (sys_store S)) \<and> sys_ok cfg (view (sys_store S)) S"

lemma make_failure_simps [simp]:
  "pf_attempts (make_failure cfg now p) = pe_attempts p + 1"
  "pf_terminal (make_failure cfg now p) \<longleftrightarrow> cfg_max_attempts cfg \<le> pe_attempts p + 1"
  by (simp_all add: make_failure_def Let_def)

lemma claim_effect_same_events:
  assumes "claim_effect tokens limit ob ps ob'"
  shows "map_option es_event (ob' eid) = map_option es_event (ob eid)"
proof (cases "eid \<in> pe_id ` set ps")
  case True
  then obtain p where "p \<in> set ps" "eid = pe_id p" by auto
  with assms show ?thesis by (fastforce simp: claim_effect_def)
next
  case False
  with assms show ?thesis by (simp add: claim_effect_def)
qed

lemma linked_update:
  assumes "linked idn ob" "\<And>e. es_event (f e) = es_event e"
  shows "linked idn (ob_update eid f ob)"
proof (rule linked_same_events [OF assms(1)])
  show "map_option es_event (ob_update eid f ob eid') = map_option es_event (ob eid')" for eid'
    using assms(2) by (cases "eid' = eid") (simp_all add: option.map_comp comp_def)
qed

context transaction_store begin

lemma held_entry:
  assumes "inv s" "sys_ok cfg (abs s) S" "(ph, p) \<in> sys_flight S" "held (abs s) (pe_id p) (pe_claim_token p)"
  obtains e where "abs s (pe_id p) = Some e" "es_token e = pe_claim_token p" "es_status e = Pending"
    "es_event e = pe_event p" "es_attempts e = pe_attempts p" "es_attempts e < cfg_max_attempts cfg"
proof -
  from assms(4) obtain e where e: "abs s (pe_id p) = Some e" "es_token e = pe_claim_token p" "es_token e \<noteq> []"
    by (auto simp: held_def)
  moreover from e abs_wf [OF assms(1)] have "es_status e = Pending" by (simp add: ob_wf_def)
  moreover from sys_okD(1) [OF assms(2)] assms(3) e have "es_event e = pe_event p" "es_attempts e = pe_attempts p"
    by (fastforce simp: flight_ok_def entry_ok_def)+
  moreover from sys_okD(2) [OF assms(2) e(1)] calculation have "es_attempts e < cfg_max_attempts cfg"
    by (simp add: event_ok_def)
  ultimately show thesis using that by blast
qed

lemma settle_unchanged:
  "sys_ok cfg (abs (sys_store S)) S \<Longrightarrow> abs s' = abs (sys_store S) \<Longrightarrow>
     sys_ok cfg (abs s') (settle abs ph p s' S)"
  by (rule sys_ok_flight [of cfg _ S]) auto

lemma mark_step_ok:
  assumes "inv (sys_store S)" "sys_ok cfg (abs (sys_store S)) S" "(Sent, p) \<in> sys_flight S"
    and "mark ctx (pe_id p) (pe_claim_token p) now (sys_store S) = (r, s')"
  shows "inv s' \<and> sys_ok cfg (abs s') (settle abs Sent p s' S)"
proof -
  have res: "inv s' \<and> (abs s' = abs (sys_store S) \<or>
      held (abs (sys_store S)) (pe_id p) (pe_claim_token p)
        \<and> abs s' = ob_update (pe_id p) mark_state (abs (sys_store S)))"
    using assms(4) mark_ok [OF assms(1)] mark_err [OF assms(1)] by (cases r) blast+
  show ?thesis
  proof (cases "abs s' = abs (sys_store S)")
    case True
    with res settle_unchanged [OF assms(2)] show ?thesis by simp
  next
    case False
    with res have upd: "held (abs (sys_store S)) (pe_id p) (pe_claim_token p)"
      "abs s' = ob_update (pe_id p) mark_state (abs (sys_store S))" by auto
    from held_entry [OF assms(1-3) upd(1)] obtain e where e: "abs (sys_store S) (pe_id p) = Some e"
      "es_token e = pe_claim_token p" "es_status e = Pending" "es_event e = pe_event p"
      "es_attempts e < cfg_max_attempts cfg" by metis
    have "es_event e \<in> set (sys_log S)"
      using sys_okD(1) [OF assms(2)] assms(3) e(4) by (simp add: flight_ok_def entry_ok_def)
    then have "event_ok cfg (settle abs Sent p s' S) (pe_id p) (mark_state e)"
      using e(5) by (simp add: event_ok_def)
    then have "sys_ok cfg (ob_update (pe_id p) mark_state (abs (sys_store S))) (settle abs Sent p s' S)"
      using False by (intro sys_ok_settle [OF assms(2,3) e(1-3)]) simp_all
    with res upd(2) show ?thesis by simp
  qed
qed

lemma fail_step_ok:
  assumes "inv (sys_store S)" "sys_ok cfg (abs (sys_store S)) S" "(Refused, p) \<in> sys_flight S"
    and "record_failure ctx (make_failure cfg now p) (sys_store S) = (r, s')"
  shows "inv s' \<and> sys_ok cfg (abs s') (settle abs Refused p s' S)"
proof -
  let ?f = "fail_state (make_failure cfg now p)"
  have res: "inv s' \<and> (abs s' = abs (sys_store S) \<or>
      held (abs (sys_store S)) (pe_id p) (pe_claim_token p)
        \<and> abs s' = ob_update (pe_id p) ?f (abs (sys_store S)))"
    using assms(4) fail_ok [OF assms(1), of ctx "make_failure cfg now p"]
      fail_err [OF assms(1), of ctx "make_failure cfg now p"] by (cases r) auto
  show ?thesis
  proof (cases "abs s' = abs (sys_store S)")
    case True
    with res settle_unchanged [OF assms(2)] show ?thesis by simp
  next
    case False
    with res have upd: "held (abs (sys_store S)) (pe_id p) (pe_claim_token p)"
      "abs s' = ob_update (pe_id p) ?f (abs (sys_store S))" by auto
    from held_entry [OF assms(1-3) upd(1)] obtain e where e: "abs (sys_store S) (pe_id p) = Some e"
      "es_token e = pe_claim_token p" "es_status e = Pending" "es_attempts e = pe_attempts p"
      "es_attempts e < cfg_max_attempts cfg" by metis
    have "event_ok cfg (settle abs Refused p s' S) (pe_id p) (?f e)"
      using e(4,5) by (auto simp: event_ok_def)
    then have "sys_ok cfg (ob_update (pe_id p) ?f (abs (sys_store S))) (settle abs Refused p s' S)"
      using False by (intro sys_ok_settle [OF assms(2,3) e(1-3)]) simp_all
    with res upd(2) show ?thesis by simp
  qed
qed

lemma step_inv:
  assumes "0 < cfg_batch_size cfg" "0 < cfg_max_attempts cfg"
    and "system_inv idents abs inv cfg S" "sys_step svc cfg abs accept claim mark record_failure S S'"
  shows "system_inv idents abs inv cfg S'"
proof -
  let ?s = "sys_store S"
  from assms(3) have inv: "inv ?s" and lk: "linked (idents ?s) (abs ?s)" and ok: "sys_ok cfg (abs ?s) S"
    by (simp_all add: system_inv_def)
  have claimed: "inv s' \<and> linked (idents s') (abs s') \<and>
      sys_ok cfg (abs s') (S\<lparr>sys_store := s', sys_flight := sys_flight S \<union> F, sys_used := sys_used S \<union> range tokens\<rparr>)"
    if "claim ctx tokens now lease limit ?s = (r, s')" "inv s'" "claim_effect tokens limit (abs ?s) ps (abs s')"
      "fresh_tokens tokens (sys_used S)" "F \<subseteq> Pair Handed ` set ps" for ctx tokens now lease limit r s' ps F
    using that sys_ok_claim [OF ok that(3-5)] claim_idents [OF inv that(1)]
      linked_same_events [OF lk claim_effect_same_events [OF that(3)]] by simp
  from assms(4) show ?thesis
  proof (cases rule: sys_step_cases)
    case (Accept new_id now ctx cmd r s')
    from intake_effect [OF inv Accept(2,3)] intake_linked [OF inv Accept(2) lk Accept(3)]
      sys_ok_store [OF ok] sys_ok_insert [OF ok _ assms(2)] Accept(1,2)
    show ?thesis by (auto simp: system_inv_def accept_insert_def)
  next
    case (Claim tokens ctx now ps s')
    from claim_ok [OF inv assms(1) Claim(3)]
    have "inv s'" "claim_effect tokens (cfg_batch_size cfg) (abs ?s) ps (abs s')" by simp_all
    from claimed [OF Claim(3) this Claim(2) order.refl] Claim(1)
    show ?thesis by (simp add: system_inv_def)
  next
    case (ClaimError tokens ctx now e s')
    from claim_err [OF inv assms(1) ClaimError(3)] obtain ps where
      "inv s'" "claim_effect tokens (cfg_batch_size cfg) (abs ?s) ps (abs s')" by blast
    from claimed [OF ClaimError(3) this ClaimError(2), of "{}"] ClaimError(1)
    show ?thesis by (simp add: system_inv_def)
  next
    case (Publish p)
    have "sys_ok cfg (abs ?s) S'"
      by (rule sys_ok_flight [OF ok]) (use Publish in auto)
    with inv lk Publish(1) show ?thesis by (simp add: system_inv_def)
  next
    case (Refuse p log)
    have "sys_ok cfg (abs ?s) S'"
      by (rule sys_ok_flight [OF ok]) (use Refuse in auto)
    with inv lk Refuse(1) show ?thesis by (simp add: system_inv_def)
  next
    case (Mark p ctx now r s')
    have "linked (idents s') (abs s')"
      using mark_idents [OF inv Mark(3)] mark_ok [OF inv] mark_err [OF inv] Mark(3) lk
        linked_update [OF lk, of mark_state] by (cases r) fastforce+
    with mark_step_ok [OF inv ok Mark(2,3)] Mark(1) show ?thesis by (simp add: system_inv_def)
  next
    case (Fail p ctx now r s')
    let ?f = "make_failure cfg now p"
    have "linked (idents s') (abs s')"
      using fail_idents [OF inv Fail(3)] fail_ok [OF inv, of ctx ?f] fail_err [OF inv, of ctx ?f] Fail(3) lk
        linked_update [OF lk, of "fail_state ?f"] by (cases r) fastforce+
    with fail_step_ok [OF inv ok Fail(2,3)] Fail(1) show ?thesis by (simp add: system_inv_def)
  next
    case (Crash F)
    have "sys_ok cfg (abs ?s) S'"
      by (rule sys_ok_flight [OF ok]) (use Crash in auto)
    with inv lk Crash(1) show ?thesis by (simp add: system_inv_def)
  qed
qed

lemma reachable_inv:
  assumes "sys_reachable (sys_step svc cfg abs accept claim mark record_failure) s0 S"
    and "0 < cfg_batch_size cfg" "0 < cfg_max_attempts cfg"
    and "inv s0" "abs s0 = (\<lambda>_. None)" "idents s0 = (\<lambda>_. None)"
  shows "system_inv idents abs inv cfg S"
  using assms(1)
proof induction
  case reach_init
  from assms(4-6) show ?case
    by (simp add: system_inv_def sys_ok_initial linked_def)
next
  case (reach_step S S')
  from step_inv [OF assms(2,3) reach_step.IH reach_step.hyps(2)] show ?case .
qed

text \<open>The three ends of an event in a reachable state.\<close>

lemma reachable_event:
  assumes "sys_reachable (sys_step svc cfg abs accept claim mark record_failure) s0 S"
    and "0 < cfg_batch_size cfg" "0 < cfg_max_attempts cfg"
    and "inv s0" "abs s0 = (\<lambda>_. None)" "idents s0 = (\<lambda>_. None)"
    and "abs (sys_store S) eid = Some e"
  shows "event_ok cfg S eid e"
  using reachable_inv [OF assms(1-6)] assms(7) by (simp add: system_inv_def sys_ok_def)

text \<open>A published or failed event never changes again.\<close>

lemma step_final:
  assumes "0 < cfg_batch_size cfg" "inv (sys_store S)"
    and "sys_step svc cfg abs accept claim mark record_failure S S'"
    and "abs (sys_store S) eid = Some e" "es_status e \<noteq> Pending"
  shows "abs (sys_store S') eid = Some e"
proof -
  let ?s = "sys_store S"
  from abs_wf [OF assms(2)] assms(4,5) have tok: "es_token e = []" by (auto simp: ob_wf_def)
  then have upd: "ob_update eid' f (abs ?s) eid = Some e" if "held (abs ?s) eid' t" for eid' f t
    using that assms(4) by (cases "eid' = eid") (auto simp: held_def)
  have clm: "abs s' eid = Some e" if "claim_effect tokens limit (abs ?s) ps (abs s')" for tokens limit ps s'
  proof -
    from that assms(4,5) have "eid \<notin> pe_id ` set ps" by (fastforce simp: claim_effect_def)
    with that assms(4) show ?thesis by (simp add: claim_effect_def)
  qed
  from assms(3) show ?thesis
  proof (cases rule: sys_step_cases)
    case (Accept new_id now ctx cmd r s')
    with intake_effect [OF assms(2) Accept(2,3)] assms(4) show ?thesis
      by (auto simp: accept_insert_def)
  next
    case (Claim tokens ctx now ps s')
    with claim_ok [OF assms(2,1) Claim(3)] clm show ?thesis by auto
  next
    case (ClaimError tokens ctx now e s')
    with claim_err [OF assms(2,1) ClaimError(3)] clm show ?thesis by auto
  next
    case (Mark p ctx now r s')
    then show ?thesis
      using mark_ok [OF assms(2)] mark_err [OF assms(2)] upd assms(4) by (cases r) fastforce+
  next
    case (Fail p ctx now r s')
    then show ?thesis
      using fail_ok [OF assms(2), of ctx "make_failure cfg now p"]
        fail_err [OF assms(2), of ctx "make_failure cfg now p"] upd assms(4) by (cases r) fastforce+
  qed (use assms(4) in auto)
qed

end

subsection \<open>A batch of the dispatcher is a run of the system\<close>

text \<open>A publisher that appends to the log when it succeeds, and may have appended when it fails.\<close>

definition log_publisher :: "outbox_event list publish_fn \<Rightarrow> bool" where
  "log_publisher publish \<longleftrightarrow>
     (\<forall>ctx ev l r l'. publish ctx ev l = (r, l') \<longrightarrow>
        (if r = None then l' = l @ [ev] else l' = l \<or> l' = l @ [ev]))"

lemma log_publisher_cases:
  assumes "log_publisher publish" "publish ctx ev l = (r, l')"
  shows "r = None \<Longrightarrow> l' = l @ [ev]" "r \<noteq> None \<Longrightarrow> l' = l \<or> l' = l @ [ev]"
  using assms unfolding log_publisher_def by (metis (full_types))+

lemma dispatch_one_steps:
  assumes "log_publisher publish" "(Handed, p) \<in> sys_flight S"
    and "dispatch_one (on_store_mark mark) (on_store_fail rf) (on_publisher publish) cfg ctxs i now p r
           (sys_store S, sys_log S) = (res, (s', l'))"
  shows "\<exists>S'. (sys_step svc cfg view accept claim mark rf)\<^sup>*\<^sup>* S S' \<and> sys_store S' = s' \<and> sys_log S' = l'
           \<and> sys_used S' = sys_used S \<and> sys_flight S - {(Handed, p), (Sent, p), (Refused, p)} \<subseteq> sys_flight S'"
proof -
  let ?step = "sys_step svc cfg view accept claim mark rf"
  obtain o1 l1 where pub: "publish (ctxs i) (pe_event p) (sys_log S) = (o1, l1)" by fastforce
  show ?thesis
  proof (cases o1)
    case None
    with log_publisher_cases(1) [OF assms(1) pub] have l1: "l1 = sys_log S @ [pe_event p]" by simp
    define S1 where "S1 = S\<lparr>sys_log := sys_log S @ [pe_event p],
      sys_flight := insert (Sent, p) (sys_flight S - {(Handed, p)})\<rparr>"
    obtain o2 s2 where m: "mark (ctxs (i + 1)) (pe_id p) (pe_claim_token p) now (sys_store S) = (o2, s2)"
      by fastforce
    have "?step S S1" unfolding S1_def by (rule step_publish [OF assms(2)])
    moreover have "?step S1 (settle view Sent p s2 S1)"
      by (rule step_mark [where r = o2 and ctx = "ctxs (i + 1)" and now = now]) (simp_all add: S1_def m [simplified])
    ultimately have "?step\<^sup>*\<^sup>* S (settle view Sent p s2 S1)" by simp
    moreover from assms(3) None pub m have "s' = s2 \<and> l' = l1"
      by (auto simp: dispatch_one_def on_publisher_def on_store_mark_def pe_id_def split: option.splits)
    ultimately show ?thesis using l1
      by (intro exI [of _ "settle view Sent p s2 S1"]) (auto simp: S1_def)
  next
    case (Some e)
    with log_publisher_cases(2) [OF assms(1) pub] have l1: "l1 = sys_log S \<or> l1 = sys_log S @ [pe_event p]" by simp
    define S1 where "S1 = S\<lparr>sys_log := l1, sys_flight := insert (Refused, p) (sys_flight S - {(Handed, p)})\<rparr>"
    obtain o2 s2 where m: "rf (ctxs (i + 1)) (make_failure cfg now p) (sys_store S) = (o2, s2)" by fastforce
    have "?step S S1" unfolding S1_def by (rule step_refuse [OF assms(2) l1])
    moreover have "?step S1 (settle view Refused p s2 S1)"
      by (rule step_fail [where r = o2 and ctx = "ctxs (i + 1)" and now = now]) (simp_all add: S1_def m [simplified])
    ultimately have "?step\<^sup>*\<^sup>* S (settle view Refused p s2 S1)" by simp
    moreover from assms(3) Some pub m have "s' = s2 \<and> l' = l1"
      by (auto simp: dispatch_one_def on_publisher_def on_store_fail_def split: option.splits)
    ultimately show ?thesis
      by (intro exI [of _ "settle view Refused p s2 S1"]) (auto simp: S1_def)
  qed
qed

lemma dispatch_all_steps:
  assumes "log_publisher publish" "distinct ps" "\<forall>p \<in> set ps. (Handed, p) \<in> sys_flight S"
    and "dispatch_all (on_store_mark mark) (on_store_fail rf) (on_publisher publish) cfg ctxs i now ps r
           (sys_store S, sys_log S) = (res, (s', l'))"
  shows "\<exists>S'. (sys_step svc cfg view accept claim mark rf)\<^sup>*\<^sup>* S S' \<and> sys_store S' = s' \<and> sys_log S' = l'
           \<and> sys_used S' = sys_used S"
  using assms(2-4)
proof (induction ps arbitrary: i r S)
  case Nil
  then show ?case by auto
next
  case (Cons p ps)
  let ?one = "dispatch_one (on_store_mark mark) (on_store_fail rf) (on_publisher publish) cfg ctxs i now p r
    (sys_store S, sys_log S)"
  obtain err r1 s1 l1 where one: "?one = ((err, r1), (s1, l1))" by (metis prod.exhaust)
  from dispatch_one_steps [OF assms(1) _ one] Cons.prems(2) obtain S1 where
    S1: "(sys_step svc cfg view accept claim mark rf)\<^sup>*\<^sup>* S S1" "sys_store S1 = s1" "sys_log S1 = l1"
    "sys_used S1 = sys_used S" "sys_flight S - {(Handed, p), (Sent, p), (Refused, p)} \<subseteq> sys_flight S1" by (metis list.set_intros(1))
  show ?case
  proof (cases err)
    case (Some e)
    with Cons.prems(3) one have "s' = s1" "l' = l1" by auto
    with S1 show ?thesis by blast
  next
    case None
    with Cons.prems(3) one S1(2,3) have rest: "dispatch_all (on_store_mark mark) (on_store_fail rf)
        (on_publisher publish) cfg ctxs (i + 2) now ps r1 (sys_store S1, sys_log S1) = (res, (s', l'))" by simp
    have "\<forall>q \<in> set ps. (Handed, q) \<in> sys_flight S1" using Cons.prems(1,2) S1(5) by fastforce
    with Cons.IH [OF _ _ rest] Cons.prems(1) obtain S' where
      "(sys_step svc cfg view accept claim mark rf)\<^sup>*\<^sup>* S1 S'" "sys_store S' = s'" "sys_log S' = l'"
      "sys_used S' = sys_used S" using S1(4) by auto
    moreover from S1(1) this(1) have "(sys_step svc cfg view accept claim mark rf)\<^sup>*\<^sup>* S S'"
      by (rule rtranclp_trans)
    ultimately show ?thesis by blast
  qed
qed

context transaction_store begin

lemma run_batch_steps:
  assumes "log_publisher publish" "inv (sys_store S)" "0 < cfg_batch_size cfg"
    and "fresh_tokens tokens (sys_used S)"
    and "run_batch (on_store_claim claim) (on_store_mark mark) (on_store_fail record_failure)
           (on_publisher publish) cfg ctxs tokens clock (sys_store S, sys_log S) = (res, (s', l'))"
  shows "\<exists>S'. (sys_step svc cfg abs accept claim mark record_failure)\<^sup>*\<^sup>* S S'
           \<and> sys_store S' = s' \<and> sys_log S' = l' \<and> sys_used S' = sys_used S \<union> range tokens"
proof -
  let ?now = "time_utc clock" and ?step = "sys_step svc cfg abs accept claim mark record_failure"
  obtain c s1 where c: "claim (ctxs 0) tokens ?now (cfg_lease cfg) (cfg_batch_size cfg) (sys_store S) = (c, s1)"
    by fastforce
  show ?thesis
  proof (cases c)
    case (Inl e)
    let ?S = "S\<lparr>sys_store := s1, sys_used := sys_used S \<union> range tokens\<rparr>"
    have "?step S ?S" 
      using assms(4) c Inl by (intro step_claim_error [where S = S and tokens = tokens]) simp_all
    moreover from assms(5) c Inl have "s' = s1 \<and> l' = sys_log S"
      by (auto simp: run_batch_def on_store_claim_def Let_def)
    ultimately show ?thesis by (intro exI [of _ ?S]) auto
  next
    case (Inr ps)
    let ?S = "S\<lparr>sys_store := s1, sys_flight := sys_flight S \<union> Pair Handed ` set ps,
                sys_used := sys_used S \<union> range tokens\<rparr>"
    have "?step S ?S" 
      using assms(4) c Inr by (intro step_claim [where S = S and tokens = tokens]) simp_all
    have dist: "distinct ps"
      using claim_ok [OF assms(2,3) c [unfolded Inr]] by (simp add: claim_effect_def distinct_map)
    from assms(5) c Inr
    have run: "dispatch_all (on_store_mark mark) (on_store_fail record_failure) (on_publisher publish) cfg ctxs 1 ?now ps
        \<lparr>dr_claimed = length ps, dr_published = 0, dr_failed = 0\<rparr> (sys_store ?S, sys_log ?S) = (res, (s', l'))"
      by (simp add: run_batch_def on_store_claim_def Let_def)
    have "\<exists>S'. ?step\<^sup>*\<^sup>* ?S S' \<and> sys_store S' = s' \<and> sys_log S' = l' \<and> sys_used S' = sys_used ?S"
      by (rule dispatch_all_steps [OF assms(1) dist _ run]) simp
    then obtain S' where S': "?step\<^sup>*\<^sup>* ?S S'" "sys_store S' = s'" "sys_log S' = l'"
      "sys_used S' = sys_used ?S" by blast
    from \<open>?step S ?S\<close> S'(1) have "?step\<^sup>*\<^sup>* S S'" by (rule converse_rtranclp_into_rtranclp)
    with S'(2-4) show ?thesis by auto
  qed
qed

text \<open>An identity, once stored, keeps its transaction, its event and its fingerprint for good.\<close>

lemma step_idents:
  assumes "0 < cfg_batch_size cfg" "inv (sys_store S)"
    and "sys_step svc cfg abs accept claim mark record_failure S S'"
  shows "inv (sys_store S')"
    and "idents (sys_store S) k = Some i \<Longrightarrow> idents (sys_store S') k = Some i"
proof -
  let ?s = "sys_store S"
  have "inv (sys_store S') \<and> (idents ?s k = Some i \<longrightarrow> idents (sys_store S') k = Some i)"
    using assms(3)
  proof (cases rule: sys_step_cases)
    case (Accept new_id now ctx cmd r s')
    from intake_effect [OF assms(2) Accept(2,3)] Accept(1) show ?thesis
      by (auto simp: accept_insert_def)
  next
    case (Claim tokens ctx now ps s')
    with claim_ok [OF assms(2,1) Claim(3)] claim_idents [OF assms(2) Claim(3)] show ?thesis by simp
  next
    case (ClaimError tokens ctx now e s')
    with claim_err [OF assms(2,1) ClaimError(3)] claim_idents [OF assms(2) ClaimError(3)] show ?thesis by simp
  next
    case (Mark p ctx now r s')
    have "inv s'" using mark_ok [OF assms(2)] mark_err [OF assms(2)] Mark(3) by (cases r) blast+
    with mark_idents [OF assms(2) Mark(3)] Mark(1) show ?thesis by simp
  next
    case (Fail p ctx now r s')
    have "inv s'" using fail_ok [OF assms(2)] fail_err [OF assms(2)] Fail(3) by (cases r) blast+
    with fail_idents [OF assms(2) Fail(3)] Fail(1) show ?thesis by simp
  qed (use assms(2) in auto)
  then show "inv (sys_store S')" "idents ?s k = Some i \<Longrightarrow> idents (sys_store S') k = Some i" by simp_all
qed

lemma steps_final:
  assumes "(sys_step svc cfg abs accept claim mark record_failure)\<^sup>*\<^sup>* S S'"
    and "0 < cfg_batch_size cfg" "inv (sys_store S)"
    and "abs (sys_store S) eid = Some e" "es_status e \<noteq> Pending"
  shows "inv (sys_store S') \<and> abs (sys_store S') eid = Some e"
  using assms(1)
proof induction
  case base
  from assms(3,4) show ?case by simp
next
  case (step S1 S2)
  then show ?case using step_idents(1) [OF assms(2) _ step(2)] step_final [OF assms(2) _ step(2) _ assms(5)] by blast
qed

lemma steps_idents:
  assumes "(sys_step svc cfg abs accept claim mark record_failure)\<^sup>*\<^sup>* S S'"
    and "0 < cfg_batch_size cfg" "inv (sys_store S)"
  shows "inv (sys_store S') \<and> (\<forall>k i. idents (sys_store S) k = Some i \<longrightarrow> idents (sys_store S') k = Some i)"
  using assms(1)
proof induction
  case base
  from assms(3) show ?case by simp
next
  case (step S1 S2)
  then show ?case using step_idents [OF assms(2) _ step(2)] by auto
qed

text \<open>The answer to an acceptance stays on record through any history.\<close>

lemma intake_recorded:
  assumes "0 < cfg_batch_size cfg" "inv (sys_store S)" "abs (sys_store S) (new_id 0) = None"
    and "intake_accept svc accept new_id now ctx cmd (sys_store S) = (Inr res, s1)"
    and "(sys_step svc' cfg abs accept claim mark record_failure)\<^sup>*\<^sup>* (S\<lparr>sys_store := s1\<rparr>) S'"
  shows "\<exists>fp. fingerprint (cmd_transaction cmd) [Some (svc_allowed_types svc)] = Inr fp
     \<and> inv (sys_store S')
     \<and> idents (sys_store S') (key_of (cmd_transaction cmd))
         = Some \<lparr>idn_fingerprint = fp, idn_transaction_id = res_id res, idn_event_id = res_event_id res\<rparr>"
proof -
  let ?k = "key_of (cmd_transaction cmd)"
  from assms(4) obtain fp where fp: "fingerprint (cmd_transaction cmd) [Some (svc_allowed_types svc)] = Inr fp"
    by (auto simp: intake_accept_def split: option.splits sum.splits)
  have first: "inv s1 \<and> idents s1 ?k = Some \<lparr>idn_fingerprint = fp, idn_transaction_id = res_id res,
      idn_event_id = res_event_id res\<rparr>"
  proof (cases "idents (sys_store S) ?k")
    case None
    from intake_new [OF assms(2) fp None assms(3,4)] show ?thesis by simp
  next
    case (Some i)
    from intake_known [OF assms(2) fp Some assms(4)] Some show ?thesis by (cases i) simp
  qed
  then have "inv (sys_store (S\<lparr>sys_store := s1\<rparr>))" by simp
  from steps_idents [OF assms(5,1) this] first fp show ?thesis by auto
qed

end

end
