(* ===== verification/Runtime.thy ===== *)
theory Runtime
  imports Bootstrap HttpHandler NdjsonFacts OutboxSystem
begin

text \<open>
  \<open>cmd/transaction-service/runtime.go\<close>: the starters of the three modes. The worker loop, the
  serving of HTTP with its shutdown and the handler are modelled here, the opening of the store and
  the starters in \<open>Starters\<close>; goroutines and the \<open>select\<close> of the local mode are the order in which
  their results arrive.
\<close>

subsection \<open>The handler of the API\<close>

text \<open>
  \<open>serveAPI\<close> builds the service with the clock and \<open>rand.Text\<close>: \<open>new_id\<close> and \<open>rid\<close> are what
  it draws during one request, \<open>now\<close> is the clock.
\<close>

definition api_handler ::
  "config \<Rightarrow> 's accept_fn \<Rightarrow> (nat \<Rightarrow> go_string) \<Rightarrow> gotime \<Rightarrow> go_string \<Rightarrow> bool \<Rightarrow> 's handler" where
  "api_handler c store_accept new_id now rid ready =
     new_handler (intake_accept (new_intake_service [Some (cf_transaction_types c)]) store_accept new_id now)
       (if cf_auth_mode c = ''api_key''
        then Some (authenticate (new_static_api_keys [(cf_partner_id c, cf_api_key c)])) else None)
       rid ready [cf_default_currency c]"

definition http_server_closed :: go_error where
  "http_server_closed = External ''http: Server closed''"

text \<open>\<open>serveHTTPServer\<close>: what \<open>ListenAndServe\<close> returns decides; the shutdown only logs its error.\<close>

definition serve_http_server :: "go_error option \<Rightarrow> go_error option" where
  "serve_http_server listen =
     (case listen of
        Some e \<Rightarrow> if errors_is e http_server_closed then None else Some (Wrap ''serve HTTP'' e)
      | None \<Rightarrow> Some (Wrap ''serve HTTP'' (External ''<nil>'')))"

text \<open>\<open>readyForRequests\<close>: \<open>None\<close> is a store without a readiness check.\<close>

definition ready_for_requests :: "go_error option option \<Rightarrow> bool" where
  "ready_for_requests checked = (case checked of None \<Rightarrow> False | Some r \<Rightarrow> r = None)"

subsection \<open>The worker\<close>

text \<open>What the environment gives to one round of the worker.\<close>

record round =
  rd_ctxs :: "nat \<Rightarrow> go_context"
  rd_tokens :: "nat \<Rightarrow> go_string"
  rd_clock :: gotime
  rd_ctx_ended :: bool
  rd_done :: bool

text \<open>
  \<open>rd_ctx_ended\<close> is whether \<open>ctx.Err()\<close> is set after a failed batch, \<open>rd_done\<close> whether the
  \<open>select\<close> after a batch takes \<open>ctx.Done()\<close> rather than the tick.
\<close>

partial_function (option) worker_loop ::
  "(round \<Rightarrow> 'w \<Rightarrow> (go_error option \<times> dispatch_result) \<times> 'w) \<Rightarrow> (nat \<Rightarrow> round) \<Rightarrow> nat \<Rightarrow> 'w
     \<Rightarrow> (go_error option \<times> 'w) option" where
  "worker_loop batch rounds i w =
     (case batch (rounds i) w of
        ((Some e, r), w') \<Rightarrow>
          (if rd_ctx_ended (rounds i) then Some (None, w') else Some (Some (Wrap ''dispatch outbox'' e), w'))
      | ((None, r), w') \<Rightarrow>
          (if rd_done (rounds i) then Some (None, w') else worker_loop batch rounds (i + 1) w'))"

definition worker_batch ::
  "'w claim_fn \<Rightarrow> 'w mark_fn \<Rightarrow> 'w fail_fn \<Rightarrow> 'w publish_fn \<Rightarrow> round \<Rightarrow> 'w
     \<Rightarrow> (go_error option \<times> dispatch_result) \<times> 'w" where
  "worker_batch claim mark rf publish rd w =
     run_batch claim mark rf publish default_dispatcher_config (rd_ctxs rd) (rd_tokens rd) (rd_clock rd) w"

definition new_dispatcher ::
  "(writer_config \<Rightarrow> kafka_writer result) \<Rightarrow> config \<Rightarrow> (kafka_writer \<times> go_string) result" where
  "new_dispatcher make_writer c =
     (case make_writer
             \<lparr>wc_brokers = cf_kafka_brokers c, wc_topic = cf_kafka_topic c,
              wc_security = \<lparr>sc_tls = cf_kafka_tls c, sc_ca_file = cf_kafka_ca_file c,
                             sc_sasl_username = cf_kafka_sasl_username c,
                             sc_sasl_password = cf_kafka_sasl_password c\<rparr>\<rparr> of
        Inl e \<Rightarrow> Inl (Wrap ''configure Kafka'' e)
      | Inr w \<Rightarrow> Inr (w, cf_kafka_topic c))"

text \<open>\<open>startLocal\<close> returns with the first of the three events.\<close>

datatype local_event = WorkerEnded "go_error option" | HttpEnded "go_error option" | ContextDone

definition local_result :: "local_event \<Rightarrow> go_error option" where
  "local_result ev = (case ev of WorkerEnded e \<Rightarrow> e | HttpEnded e \<Rightarrow> e | ContextDone \<Rightarrow> None)"

subsection \<open>Facts\<close>

text \<open>The state after \<open>n\<close> rounds.\<close>

fun worker_state ::
  "(round \<Rightarrow> 'w \<Rightarrow> (go_error option \<times> dispatch_result) \<times> 'w) \<Rightarrow> (nat \<Rightarrow> round) \<Rightarrow> nat \<Rightarrow> nat \<Rightarrow> 'w \<Rightarrow> 'w" where
  "worker_state batch rounds i 0 w = w"
| "worker_state batch rounds i (Suc n) w =
     worker_state batch rounds (i + 1) n (snd (batch (rounds i) w))"

text \<open>The loop ends once a round sees the context done, or a batch fails.\<close>

lemma worker_loop_returns:
  assumes "rd_done (rounds (i + n)) \<or> fst (fst (batch (rounds (i + n)) (worker_state batch rounds i n w))) \<noteq> None"
  shows "\<exists>r. worker_loop batch rounds i w = Some r"
  using assms
proof (induction n arbitrary: i w)
  case 0
  then show ?case
    by (subst worker_loop.simps) (auto split: prod.split option.split)
next
  case (Suc n)
  obtain e r w' where b: "batch (rounds i) w = ((e, r), w')" by (metis prod.exhaust)
  have "\<exists>x. worker_loop batch rounds (i + 1) w' = Some x"
    using Suc.prems b by (intro Suc.IH) auto
  then show ?case using b by (subst worker_loop.simps) (auto split: option.split)
qed

text \<open>
  The loop ends as its last round says: with that round's error if the context was live, without
  one if the context had ended, and only then.
\<close>

definition worker_ends ::
  "(round \<Rightarrow> 'w \<Rightarrow> (go_error option \<times> dispatch_result) \<times> 'w) \<Rightarrow> round \<Rightarrow> 'w \<Rightarrow> go_error option \<times> 'w \<Rightarrow> bool" where
  "worker_ends batch rd w r \<longleftrightarrow>
     snd r = snd (batch rd w)
     \<and> (case fst (fst (batch rd w)) of
          None \<Rightarrow> fst r = None \<and> rd_done rd
        | Some x \<Rightarrow> fst r = (if rd_ctx_ended rd then None else Some (Wrap ''dispatch outbox'' x)))"

definition worker_goes_on ::
  "(round \<Rightarrow> 'w \<Rightarrow> (go_error option \<times> dispatch_result) \<times> 'w) \<Rightarrow> round \<Rightarrow> 'w \<Rightarrow> bool" where
  "worker_goes_on batch rd w \<longleftrightarrow> fst (fst (batch rd w)) = None \<and> \<not> rd_done rd"

definition worker_run ::
  "(round \<Rightarrow> 'w \<Rightarrow> (go_error option \<times> dispatch_result) \<times> 'w) \<Rightarrow> (nat \<Rightarrow> round) \<Rightarrow> nat \<Rightarrow> 'w \<Rightarrow> go_error option \<times> 'w
     \<Rightarrow> nat \<Rightarrow> bool" where
  "worker_run batch rounds i w r n \<longleftrightarrow>
     (\<forall>k<n. worker_goes_on batch (rounds (i + k)) (worker_state batch rounds i k w))
     \<and> worker_ends batch (rounds (i + n)) (worker_state batch rounds i n w) r"

lemma worker_run_Suc:
  "worker_goes_on batch (rounds i) w \<Longrightarrow> worker_run batch rounds (i + 1) (snd (batch (rounds i) w)) r n \<Longrightarrow>
     worker_run batch rounds i w r (Suc n)"
  by (auto simp: worker_run_def less_Suc_eq_0_disj)

lemma worker_loop_result:
  assumes "worker_loop batch rounds i w = Some r"
  shows "\<exists>n. worker_run batch rounds i w r n"
proof (rule worker_loop.raw_induct [OF _ assms, where P = "\<lambda>batch rounds i w r. \<exists>n. worker_run batch rounds i w r n"])
  fix loop batch rounds i w r
  assume IH: "\<And>batch rounds i w r. loop batch rounds i w = Some r \<Longrightarrow> \<exists>n. worker_run batch rounds i w r n"
    and run: "(case batch (rounds i) w of
        ((Some e, r), w') \<Rightarrow>
          (if rd_ctx_ended (rounds i) then Some (None, w') else Some (Some (Wrap ''dispatch outbox'' e), w'))
      | ((None, r), w') \<Rightarrow>
          (if rd_done (rounds i) then Some (None, w') else loop batch rounds (i + 1) w')) = Some r"
  obtain b dr w1 where b: "batch (rounds i) w = ((b, dr), w1)" by (metis prod.exhaust)
  show "\<exists>n. worker_run batch rounds i w r n"
  proof (cases "b = None \<and> \<not> rd_done (rounds i)")
    case False
    with run b have "worker_run batch rounds i w r 0"
      by (auto simp: worker_run_def worker_ends_def split: option.splits if_splits)
    then show ?thesis ..
  next
    case True
    with run b have "loop batch rounds (i + 1) w1 = Some r" by auto
    from IH [OF this] obtain n where "worker_run batch rounds (i + 1) w1 r n" ..
    with True b have "worker_run batch rounds i w r (Suc n)"
      by (intro worker_run_Suc) (simp_all add: worker_goes_on_def)
    then show ?thesis ..
  qed
qed

end
