(* ===== verification/DynamoStore.thy ===== *)
theory DynamoStore
  imports EventCodec GoStrconv
begin

text \<open>
  \<open>internal/transaction/adapters/dynamodb/store.go\<close>: the DynamoDB store. The four calls of the
  client act on the state of the service and are parameters; the requests are modelled as the code
  builds them, with their expressions as text. An item is the list of its attributes. The result
  of \<open>rand.Text\<close> for the \<open>n\<close>-th item of a claim is \<open>tokens n\<close>.
\<close>

subsection \<open>The client\<close>

datatype attribute = AttrS go_string | AttrN go_string | AttrB go_string | AttrOther

type_synonym item = "(go_string \<times> attribute) list"

text \<open>The errors the code tells apart: the two exceptions it looks for, and all others.\<close>

datatype dynamo_error = TransactionCanceled | ConditionalCheckFailed | DynamoFailure go_error

definition dynamo_go_error :: "dynamo_error \<Rightarrow> go_error" where
  "dynamo_go_error e =
     (case e of
        TransactionCanceled \<Rightarrow> External ''TransactionCanceledException''
      | ConditionalCheckFailed \<Rightarrow> External ''ConditionalCheckFailedException''
      | DynamoFailure x \<Rightarrow> x)"

record get_request =
  gr_table :: go_string
  gr_consistent :: bool
  gr_key :: item

record put_request =
  pr_table :: go_string
  pr_condition :: go_string
  pr_item :: item

record query_request =
  qr_table :: go_string
  qr_index :: go_string
  qr_key_condition :: go_string
  qr_filter :: go_string
  qr_names :: "(go_string \<times> go_string) list"
  qr_values :: item
  qr_start :: item
  qr_limit :: int

record update_request =
  ur_table :: go_string
  ur_key :: item
  ur_condition :: go_string
  ur_update :: go_string
  ur_names :: "(go_string \<times> go_string) list"
  ur_values :: item

text \<open>A page of a query is its items and its \<open>LastEvaluatedKey\<close>, empty on the last page.\<close>

record 'd dynamo_client =
  dc_get :: "go_context \<Rightarrow> get_request \<Rightarrow> 'd \<Rightarrow> item result \<times> 'd"
  dc_transact :: "go_context \<Rightarrow> put_request list \<Rightarrow> 'd \<Rightarrow> dynamo_error option \<times> 'd"
  dc_query :: "go_context \<Rightarrow> query_request \<Rightarrow> 'd \<Rightarrow> (item list \<times> item) result \<times> 'd"
  dc_update :: "go_context \<Rightarrow> update_request \<Rightarrow> 'd \<Rightarrow> dynamo_error option \<times> 'd"

record 'd dynamo_store =
  ds_client :: "'d dynamo_client"
  ds_table :: go_string

definition timestamp :: "gotime \<Rightarrow> go_string" where
  "timestamp t = format_rfc3339nano (time_utc t)"

definition item_key :: "go_string \<Rightarrow> go_string \<Rightarrow> item" where
  "item_key pk sk = [(''pk'', AttrS pk), (''sk'', AttrS sk)]"

definition string_attr :: "item \<Rightarrow> go_string \<Rightarrow> go_string option" where
  "string_attr it k = (case map_of it k of Some (AttrS s) \<Rightarrow> Some s | _ \<Rightarrow> None)"

definition bytes_attr :: "item \<Rightarrow> go_string \<Rightarrow> go_string option" where
  "bytes_attr it k = (case map_of it k of Some (AttrB s) \<Rightarrow> Some s | _ \<Rightarrow> None)"

definition number_attr :: "item \<Rightarrow> go_string \<Rightarrow> go_string option" where
  "number_attr it k = (case map_of it k of Some (AttrN s) \<Rightarrow> Some s | _ \<Rightarrow> None)"

definition dynamo_ready :: "'d dynamo_store \<Rightarrow> go_context \<Rightarrow> 'd \<Rightarrow> go_error option \<times> 'd" where
  "dynamo_ready st ctx d =
     (case dc_get (ds_client st) ctx
             \<lparr>gr_table = ds_table st, gr_consistent = True, gr_key = item_key ''READY#PROBE'' ''READY#PROBE''\<rparr> d of
        (Inl e, d') \<Rightarrow> (Some (Wrap ''check DynamoDB readiness'' e), d')
      | (Inr _, d') \<Rightarrow> (None, d'))"

subsection \<open>Accept\<close>

definition dynamo_identity_key :: "transaction \<Rightarrow> go_string" where
  "dynamo_identity_key t = ''TX#'' @ tx_source t @ ''#'' @ tx_source_reference t"

text \<open>\<open>readIdentity\<close>: \<open>None\<close> when there is no such item.\<close>

definition read_identity ::
  "'d dynamo_store \<Rightarrow> go_context \<Rightarrow> go_string \<Rightarrow> go_string \<Rightarrow> 'd \<Rightarrow> store_outcome option result \<times> 'd" where
  "read_identity st ctx identity fp d =
     (case dc_get (ds_client st) ctx
             \<lparr>gr_table = ds_table st, gr_consistent = True, gr_key = item_key identity ''TRANSACTION''\<rparr> d of
        (Inl e, d') \<Rightarrow> (Inl (Wrap ''read transaction identity'' e), d')
      | (Inr it, d') \<Rightarrow>
          (if it = [] then Inr None
           else (case (string_attr it ''fingerprint'', string_attr it ''transaction_id'', string_attr it ''event_id'') of
                   (Some stored, Some tid, Some eid) \<Rightarrow>
                     if stored = fp
                     then Inr (Some \<lparr>so_kind = StoreReplay, so_transaction_id = tid, so_event_id = eid\<rparr>)
                     else Inr (Some \<lparr>so_kind = StoreConflict, so_transaction_id = [], so_event_id = []\<rparr>)
                 | _ \<Rightarrow> Inl (Errorf ''stored transaction identity is malformed'')), d'))"

definition raw_attributes :: "raw_message \<Rightarrow> raw_message \<Rightarrow> item" where
  "raw_attributes location metadata =
     (case location of None \<Rightarrow> [] | Some b \<Rightarrow> [(''location_raw'', AttrB b)])
     @ (case metadata of None \<Rightarrow> [] | Some b \<Rightarrow> [(''metadata_raw'', AttrB b)])"

definition transaction_item :: "acceptance \<Rightarrow> go_string \<Rightarrow> item" where
  "transaction_item a payload =
     (let t = acc_transaction a in
      [(''pk'', AttrS (dynamo_identity_key t)), (''sk'', AttrS ''TRANSACTION''),
       (''fingerprint'', AttrS (acc_fingerprint a)), (''transaction_id'', AttrS (tx_id t)),
       (''event_id'', AttrS (ev_id (acc_event a))), (''payload'', AttrB payload)]
      @ raw_attributes (tx_location_raw t) (tx_metadata_raw t))"

definition outbox_item :: "acceptance \<Rightarrow> go_string \<Rightarrow> item" where
  "outbox_item a payload =
     (let ev = acc_event a in
      [(''pk'', AttrS (''EVENT#'' @ ev_id ev)), (''sk'', AttrS ''OUTBOX''),
       (''status'', AttrS ''pending''), (''attempts'', AttrN ''0''),
       (''dispatch_pk'', AttrS ''OUTBOX#PENDING''),
       (''dispatch_sk'', AttrS (timestamp (ev_occurred_at ev) @ ''#'' @ ev_id ev)),
       (''occurred_at'', AttrS (timestamp (ev_occurred_at ev))), (''event_payload'', AttrB payload)]
      @ raw_attributes (tx_location_raw (ev_payload ev)) (tx_metadata_raw (ev_payload ev)))"

definition put_new :: "'d dynamo_store \<Rightarrow> item \<Rightarrow> put_request" where
  "put_new st it = \<lparr>pr_table = ds_table st, pr_condition = ''attribute_not_exists(pk)'', pr_item = it\<rparr>"

definition dynamo_accept :: "'d dynamo_store \<Rightarrow> 'd accept_fn" where
  "dynamo_accept st ctx a d =
     (let key = dynamo_identity_key (acc_transaction a); fp = acc_fingerprint a in
      case read_identity st ctx key fp d of
        (Inl e, d1) \<Rightarrow> (Inl e, d1)
      | (Inr (Some out), d1) \<Rightarrow> (Inr out, d1)
      | (Inr None, d1) \<Rightarrow>
          (case marshal_transaction (acc_transaction a) of
             Inl e \<Rightarrow> (Inl (Wrap ''encode transaction'' e), d1)
           | Inr tp \<Rightarrow>
               (case marshal_event (acc_event a) of
                  Inl e \<Rightarrow> (Inl (Wrap ''encode outbox event'' e), d1)
                | Inr ep \<Rightarrow>
                    (case dc_transact (ds_client st) ctx
                            [put_new st (transaction_item a tp), put_new st (outbox_item a ep)] d1 of
                       (None, d2) \<Rightarrow>
                         (Inr \<lparr>so_kind = StoreAccepted, so_transaction_id = tx_id (acc_transaction a),
                               so_event_id = ev_id (acc_event a)\<rparr>, d2)
                     | (Some e, d2) \<Rightarrow>
                         (let failed = Inl (Wrap ''transact transaction and outbox'' (dynamo_go_error e)) in
                          if e = TransactionCanceled then
                            (case read_identity st ctx key fp d2 of
                               (Inl e', d3) \<Rightarrow> (Inl e', d3)
                             | (Inr (Some out), d3) \<Rightarrow> (Inr out, d3)
                             | (Inr None, d3) \<Rightarrow> (failed, d3))
                          else (failed, d2))))))"

subsection \<open>ClaimPending\<close>

definition due_filter :: go_string where
  "due_filter = ''(attribute_not_exists(retry_at) OR retry_at <= :now) AND (attribute_not_exists(lease_until) OR lease_until <= :now)''"

text \<open>\<open>aws.Int32(int32(n))\<close> keeps the low 32 bits.\<close>

definition int32 :: "int \<Rightarrow> int" where
  "int32 n = sint (word_of_int n :: 32 word)"

definition pending_query :: "'d dynamo_store \<Rightarrow> gotime \<Rightarrow> item \<Rightarrow> int \<Rightarrow> query_request" where
  "pending_query st now cursor limit =
     \<lparr>qr_table = ds_table st, qr_index = ''outbox-dispatch'', qr_key_condition = ''dispatch_pk = :pending'',
      qr_filter = ''#status = :status AND '' @ due_filter, qr_names = [(''#status'', ''status'')],
      qr_values = [('':pending'', AttrS ''OUTBOX#PENDING''), ('':status'', AttrS ''pending''),
                   ('':now'', AttrS (timestamp now))],
      qr_start = cursor, qr_limit = int32 limit\<rparr>"

definition lease_request :: "'d dynamo_store \<Rightarrow> go_string \<Rightarrow> gotime \<Rightarrow> duration \<Rightarrow> go_string \<Rightarrow> update_request" where
  "lease_request st pk now lease token =
     \<lparr>ur_table = ds_table st, ur_key = item_key pk ''OUTBOX'',
      ur_condition = ''#status = :pending AND '' @ due_filter,
      ur_update = ''SET lease_until = :lease_until, claim_token = :claim_token'',
      ur_names = [(''#status'', ''status'')],
      ur_values = [('':pending'', AttrS ''pending''), ('':now'', AttrS (timestamp now)),
                   ('':lease_until'', AttrS (timestamp (time_add now lease))), ('':claim_token'', AttrS token)]\<rparr>"

text \<open>Raw attributes replace what the payload carries; \<open>append(nil, b...)\<close> of no bytes is nil.\<close>

definition restore_raw_attribute :: "item \<Rightarrow> go_string \<Rightarrow> raw_message \<Rightarrow> raw_message" where
  "restore_raw_attribute it k cur =
     (case bytes_attr it k of None \<Rightarrow> cur | Some b \<Rightarrow> if b = [] then None else Some b)"

definition restore_payload :: "item \<Rightarrow> outbox_event \<Rightarrow> outbox_event" where
  "restore_payload it ev =
     (let p = ev_payload ev in
      ev\<lparr>ev_payload := p\<lparr>tx_location_raw := restore_raw_attribute it ''location_raw'' (tx_location_raw p),
                         tx_metadata_raw := restore_raw_attribute it ''metadata_raw'' (tx_metadata_raw p)\<rparr>\<rparr>)"

definition decode_pending :: "item \<Rightarrow> pending_event result" where
  "decode_pending it =
     (case (bytes_attr it ''event_payload'', number_attr it ''attempts'') of
        (Some payload, Some attempts) \<Rightarrow>
          (case unmarshal_event payload of
             Inl e \<Rightarrow> Inl (Wrap ''decode pending outbox event'' (json_go_error e))
           | Inr ev \<Rightarrow>
               (case atoi attempts of
                  None \<Rightarrow> Inl (Wrap ''decode pending outbox attempts'' (External ''strconv.Atoi''))
                | Some n \<Rightarrow>
                    Inr \<lparr>pe_event = restore_payload it ev, pe_attempts = n, pe_claim_token = []\<rparr>))
      | _ \<Rightarrow> Inl (Errorf ''pending outbox event is malformed''))"

text \<open>The items of one page, from the \<open>n\<close>-th token on; \<open>limit\<close> is positive here.\<close>

fun claim_items ::
  "'d dynamo_store \<Rightarrow> go_context \<Rightarrow> (nat \<Rightarrow> go_string) \<Rightarrow> gotime \<Rightarrow> duration \<Rightarrow> int \<Rightarrow> item list \<Rightarrow> nat
     \<Rightarrow> pending_event list \<Rightarrow> 'd \<Rightarrow> (nat \<times> pending_event list) result \<times> 'd" where
  "claim_items st ctx tokens now lease limit [] n claimed d = (Inr (n, claimed), d)"
| "claim_items st ctx tokens now lease limit (it # its) n claimed d =
     (case string_attr it ''pk'' of
        None \<Rightarrow> (Inl (Errorf ''pending outbox event has malformed key''), d)
      | Some pk \<Rightarrow>
          (case dc_update (ds_client st) ctx (lease_request st pk now lease (tokens n)) d of
             (Some e, d1) \<Rightarrow>
               if e = ConditionalCheckFailed
               then claim_items st ctx tokens now lease limit its (n + 1) claimed d1
               else (Inl (Wrap (''lease outbox event '' @ pk) (dynamo_go_error e)), d1)
           | (None, d1) \<Rightarrow>
               (case decode_pending it of
                  Inl e \<Rightarrow> (Inl e, d1)
                | Inr p \<Rightarrow>
                    (let claimed' = claimed @ [p\<lparr>pe_claim_token := tokens n\<rparr>] in
                     if int (length claimed') = limit then (Inr (n + 1, claimed'), d1)
                     else claim_items st ctx tokens now lease limit its (n + 1) claimed' d1))))"

text \<open>The loop over the pages; \<open>None\<close> means that it never ends.\<close>

partial_function (option) claim_pages ::
  "'d dynamo_store \<Rightarrow> go_context \<Rightarrow> (nat \<Rightarrow> go_string) \<Rightarrow> gotime \<Rightarrow> duration \<Rightarrow> int \<Rightarrow> item \<Rightarrow> nat
     \<Rightarrow> pending_event list \<Rightarrow> 'd \<Rightarrow> (pending_event list result \<times> 'd) option" where
  "claim_pages st ctx tokens now lease limit cursor n claimed d =
     (if limit \<le> int (length claimed) then Some (Inr claimed, d)
      else
        (case dc_query (ds_client st) ctx (pending_query st now cursor (limit - int (length claimed))) d of
           (Inl e, d1) \<Rightarrow> Some (Inl (Wrap ''query pending outbox events'' e), d1)
         | (Inr (its, next), d1) \<Rightarrow>
             (case claim_items st ctx tokens now lease limit its n claimed d1 of
                (Inl e, d2) \<Rightarrow> Some (Inl e, d2)
              | (Inr (n', claimed'), d2) \<Rightarrow>
                  if next = [] \<or> int (length claimed') = limit then Some (Inr claimed', d2)
                  else claim_pages st ctx tokens now lease limit next n' claimed' d2)))"

definition dynamo_claim ::
  "'d dynamo_store \<Rightarrow> go_context \<Rightarrow> (nat \<Rightarrow> go_string) \<Rightarrow> gotime \<Rightarrow> duration \<Rightarrow> int \<Rightarrow> 'd
     \<Rightarrow> (pending_event list result \<times> 'd) option" where
  "dynamo_claim st ctx tokens now lease limit d =
     (if limit \<le> 0 then Some (Inr [], d) else claim_pages st ctx tokens now lease limit [] 0 [] d)"

subsection \<open>Outcomes\<close>

definition outcome_request ::
  "'d dynamo_store \<Rightarrow> go_string \<Rightarrow> go_string \<Rightarrow> go_string \<Rightarrow> item \<Rightarrow> update_request" where
  "outcome_request st eid token upd values =
     \<lparr>ur_table = ds_table st, ur_key = item_key (''EVENT#'' @ eid) ''OUTBOX'',
      ur_condition = ''#status = :pending AND claim_token = :claim_token'', ur_update = upd,
      ur_names = [(''#status'', ''status'')],
      ur_values = ('':pending'', AttrS ''pending'') # ('':claim_token'', AttrS token) # values\<rparr>"

definition update_outcome ::
  "'d dynamo_store \<Rightarrow> go_context \<Rightarrow> go_string \<Rightarrow> go_string \<Rightarrow> go_string \<Rightarrow> item \<Rightarrow> 'd \<Rightarrow> go_error option \<times> 'd" where
  "update_outcome st ctx eid token upd values d =
     (case dc_update (ds_client st) ctx (outcome_request st eid token upd values) d of
        (None, d') \<Rightarrow> (None, d')
      | (Some e, d') \<Rightarrow>
          (Some (Wrap (''update outbox event '' @ eid)
             (if e = ConditionalCheckFailed then ErrLeaseLost else dynamo_go_error e)), d'))"

definition published_update :: go_string where
  "published_update = ''SET #status = :published, published_at = :published_at REMOVE lease_until, claim_token, retry_at, dispatch_pk, dispatch_sk''"

definition failed_update :: go_string where
  "failed_update = ''SET #status = :failed, attempts = :attempts, last_error = :reason REMOVE lease_until, claim_token, retry_at, dispatch_pk, dispatch_sk''"

definition retry_update :: go_string where
  "retry_update = ''SET #status = :pending, attempts = :attempts, retry_at = :retry_at, last_error = :reason REMOVE lease_until, claim_token''"

definition dynamo_mark :: "'d dynamo_store \<Rightarrow> 'd mark_fn" where
  "dynamo_mark st ctx eid token at d =
     update_outcome st ctx eid token published_update
       [('':published'', AttrS ''published''), ('':published_at'', AttrS (timestamp at))] d"

definition dynamo_record_failure :: "'d dynamo_store \<Rightarrow> 'd fail_fn" where
  "dynamo_record_failure st ctx f d =
     (let values = [('':attempts'', AttrN (itoa_int (pf_attempts f))), ('':reason'', AttrS (pf_reason f))] in
      if pf_terminal f
      then update_outcome st ctx (pf_event_id f) (pf_claim_token f) failed_update
             (values @ [('':failed'', AttrS ''failed'')]) d
      else update_outcome st ctx (pf_event_id f) (pf_claim_token f) retry_update
             (values @ [('':retry_at'', AttrS (timestamp (pf_retry_at f)))]) d)"

end
