(* ===== verification/DynamoFacts.thy ===== *)
theory DynamoFacts
  imports DynamoStore "HOL-Library.List_Lexorder" "HOL-Library.Char_ord"
begin

text \<open>
  What the DynamoDB store guarantees when the service behaves as documented: a consistent read
  returns the item, a transaction of conditional puts happens as a whole or not at all, and a
  conditional update happens only if its condition holds. A call that fails for another reason may
  or may not have taken effect.

  \<open>view\<close> reads the table out of the service's state. Strings compare byte by byte.
\<close>

subsection \<open>The documented behaviour\<close>

type_synonym 'd table_view = "'d \<Rightarrow> go_string \<times> go_string \<Rightarrow> item option"

definition primary_key :: "item \<Rightarrow> go_string \<times> go_string" where
  "primary_key it = (case (string_attr it ''pk'', string_attr it ''sk'') of (Some p, Some s) \<Rightarrow> (p, s) | _ \<Rightarrow> ([], []))"

definition reads_items :: "'d dynamo_store \<Rightarrow> 'd table_view \<Rightarrow> bool" where
  "reads_items st view \<longleftrightarrow>
     (\<forall>ctx pk sk d r d'. dc_get (ds_client st) ctx
          \<lparr>gr_table = ds_table st, gr_consistent = True, gr_key = item_key pk sk\<rparr> d = (r, d') \<longrightarrow>
        view d' = view d \<and> (\<forall>it. r = Inr it \<longrightarrow> it = (case view d (pk, sk) of None \<Rightarrow> [] | Some i \<Rightarrow> i)))"

definition puts_atomically :: "'d dynamo_store \<Rightarrow> 'd table_view \<Rightarrow> bool" where
  "puts_atomically st view \<longleftrightarrow>
     (\<forall>ctx a b d e d'. dc_transact (ds_client st) ctx [put_new st a, put_new st b] d = (e, d') \<longrightarrow>
        (let done = (view d (primary_key a) = None \<and> view d (primary_key b) = None
                     \<and> view d' = (view d)(primary_key a \<mapsto> a, primary_key b \<mapsto> b))
         in case e of
              None \<Rightarrow> done
            | Some x \<Rightarrow> view d' = view d \<or> x \<noteq> TransactionCanceled \<and> done))"

text \<open>An update that sets and removes attributes under a condition.\<close>

definition updated :: "(go_string \<times> attribute) list \<Rightarrow> go_string list \<Rightarrow> item \<Rightarrow> item \<Rightarrow> bool" where
  "updated sets removes it it' \<longleftrightarrow> map_of it' = (map_of it |` (- set removes)) ++ map_of sets"

definition swaps ::
  "'d table_view \<Rightarrow> go_string \<times> go_string \<Rightarrow> (item \<Rightarrow> item \<Rightarrow> bool) \<Rightarrow> 'd \<Rightarrow> 'd \<Rightarrow> bool" where
  "swaps view k P d d' \<longleftrightarrow> (\<exists>it it'. view d k = Some it \<and> P it it' \<and> view d' = (view d)(k \<mapsto> it'))"

lemma swaps_mono: "swaps view k P d d' \<Longrightarrow> (\<And>it it'. P it it' \<Longrightarrow> Q it it') \<Longrightarrow> swaps view k Q d d'"
  by (auto simp: swaps_def)

definition updates_if ::
  "'d dynamo_store \<Rightarrow> 'd table_view \<Rightarrow> update_request \<Rightarrow> (item \<Rightarrow> bool) \<Rightarrow> item \<Rightarrow> go_string list \<Rightarrow> bool" where
  "updates_if st view req cond sets removes \<longleftrightarrow>
     (\<forall>ctx d e d'. dc_update (ds_client st) ctx req d = (e, d') \<longrightarrow>
        (let done = swaps view (primary_key (ur_key req)) (\<lambda>it it'. cond it \<and> updated sets removes it it') d d'
         in case e of
              None \<Rightarrow> done
            | Some x \<Rightarrow> view d' = view d \<or> x \<noteq> ConditionalCheckFailed \<and> done))"

lemma updates_ifD:
  assumes "updates_if st view req cond sets removes" "dc_update (ds_client st) ctx req d = (e, d')"
  shows "(e = None \<longrightarrow> swaps view (primary_key (ur_key req)) (\<lambda>it it'. cond it \<and> updated sets removes it it') d d')
     \<and> (view d' = view d \<or> swaps view (primary_key (ur_key req)) (\<lambda>it it'. cond it \<and> updated sets removes it it') d d')"
  using assms(1) [unfolded updates_if_def Let_def, rule_format, OF assms(2)] by (cases e) auto

definition held_by :: "go_string \<Rightarrow> item \<Rightarrow> bool" where
  "held_by token it \<longleftrightarrow> map_of it ''status'' = Some (AttrS ''pending'') \<and> map_of it ''claim_token'' = Some (AttrS token)"

text \<open>An attribute that is absent, or a string up to the bound.\<close>

definition absent_or_upto :: "item \<Rightarrow> go_string \<Rightarrow> go_string \<Rightarrow> bool" where
  "absent_or_upto it k bound \<longleftrightarrow>
     map_of it k = None \<or> (\<exists>s. map_of it k = Some (AttrS s) \<and> s \<le> bound)"

definition due :: "gotime \<Rightarrow> item \<Rightarrow> bool" where
  "due now it \<longleftrightarrow> map_of it ''status'' = Some (AttrS ''pending'')
     \<and> absent_or_upto it ''retry_at'' (timestamp now) \<and> absent_or_upto it ''lease_until'' (timestamp now)"

text \<open>The expressions that the store sends, as the service evaluates them.\<close>

definition understands_updates :: "'d dynamo_store \<Rightarrow> 'd table_view \<Rightarrow> bool" where
  "understands_updates st view \<longleftrightarrow>
     (\<forall>pk now lease token. updates_if st view (lease_request st pk now lease token) (due now)
        [(''lease_until'', AttrS (timestamp (time_add now lease))), (''claim_token'', AttrS token)] [])
   \<and> (\<forall>eid token v. updates_if st view
        (outcome_request st eid token published_update [('':published'', AttrS ''published''), ('':published_at'', v)])
        (held_by token) [(''status'', AttrS ''published''), (''published_at'', v)]
        [''lease_until'', ''claim_token'', ''retry_at'', ''dispatch_pk'', ''dispatch_sk''])
   \<and> (\<forall>eid token n r. updates_if st view
        (outcome_request st eid token failed_update [('':attempts'', n), ('':reason'', r), ('':failed'', AttrS ''failed'')])
        (held_by token) [(''status'', AttrS ''failed''), (''attempts'', n), (''last_error'', r)]
        [''lease_until'', ''claim_token'', ''retry_at'', ''dispatch_pk'', ''dispatch_sk''])
   \<and> (\<forall>eid token n r t. updates_if st view
        (outcome_request st eid token retry_update [('':attempts'', n), ('':reason'', r), ('':retry_at'', t)])
        (held_by token)
        [(''status'', AttrS ''pending''), (''attempts'', n), (''retry_at'', t), (''last_error'', r)]
        [''lease_until'', ''claim_token''])"

definition queries_forward :: "'d dynamo_store \<Rightarrow> 'd table_view \<Rightarrow> (item \<Rightarrow> nat) \<Rightarrow> bool" where
  "queries_forward st view rank \<longleftrightarrow>
     (\<forall>ctx now cursor limit d r d'. dc_query (ds_client st) ctx (pending_query st now cursor limit) d = (r, d') \<longrightarrow>
        view d' = view d \<and> (\<forall>its nxt. r = Inr (its, nxt) \<longrightarrow> nxt = [] \<or> rank nxt < rank cursor))"

definition dynamo_documented :: "'d dynamo_store \<Rightarrow> 'd table_view \<Rightarrow> bool" where
  "dynamo_documented st view \<longleftrightarrow>
     reads_items st view \<and> puts_atomically st view \<and> understands_updates st view"

subsection \<open>Accept\<close>

lemma item_key_primary [simp]: "primary_key (item_key p s) = (p, s)"
  by (simp add: primary_key_def item_key_def string_attr_def)

lemma accept_items_primary [simp]:
  "primary_key (transaction_item a p) = (dynamo_identity_key (acc_transaction a), ''TRANSACTION'')"
  "primary_key (outbox_item a p) = (''EVENT#'' @ ev_id (acc_event a), ''OUTBOX'')"
  by (simp_all add: primary_key_def string_attr_def transaction_item_def outbox_item_def Let_def)

text \<open>An identity item as \<open>Accept\<close> writes it.\<close>

definition identity_item :: "item \<Rightarrow> go_string \<Rightarrow> go_string \<Rightarrow> go_string \<Rightarrow> bool" where
  "identity_item it fp tid eid \<longleftrightarrow>
     it \<noteq> [] \<and> string_attr it ''fingerprint'' = Some fp \<and> string_attr it ''transaction_id'' = Some tid
     \<and> string_attr it ''event_id'' = Some eid"

lemma transaction_item_identity:
  "identity_item (transaction_item a p) (acc_fingerprint a) (tx_id (acc_transaction a)) (ev_id (acc_event a))"
  by (simp add: identity_item_def transaction_item_def string_attr_def Let_def)

definition known_outcome :: "go_string \<Rightarrow> go_string \<Rightarrow> go_string \<Rightarrow> go_string \<Rightarrow> store_outcome" where
  "known_outcome fp fp' tid eid =
     (if fp = fp' then \<lparr>so_kind = StoreReplay, so_transaction_id = tid, so_event_id = eid\<rparr>
      else \<lparr>so_kind = StoreConflict, so_transaction_id = [], so_event_id = []\<rparr>)"

lemma read_identity_cases:
  assumes "reads_items st view" "read_identity st ctx k fp d = (r, d')"
  shows "view d' = view d"
    and "r = Inr None \<Longrightarrow> view d (k, ''TRANSACTION'') = None \<or> view d (k, ''TRANSACTION'') = Some []"
    and "r = Inr (Some out) \<Longrightarrow> \<exists>it fp' tid eid. view d (k, ''TRANSACTION'') = Some it
           \<and> identity_item it fp' tid eid \<and> out = known_outcome fp' fp tid eid"
    and "view d (k, ''TRANSACTION'') = Some it \<Longrightarrow> identity_item it fp' tid eid \<Longrightarrow>
           r = Inr (Some (known_outcome fp' fp tid eid)) \<or> (\<exists>e. r = Inl e)"
proof -
  obtain x d1 where g: "dc_get (ds_client st) ctx
      \<lparr>gr_table = ds_table st, gr_consistent = True, gr_key = item_key k ''TRANSACTION''\<rparr> d = (x, d1)" by fastforce
  from assms(1) g have v: "view d1 = view d"
    "\<And>it. x = Inr it \<Longrightarrow> it = (case view d (k, ''TRANSACTION'') of None \<Rightarrow> [] | Some i \<Rightarrow> i)"
    unfolding reads_items_def by blast+
  note r = assms(2) [unfolded read_identity_def g]
  show "view d' = view d" using r v(1) by (auto split: sum.splits)
  show "r = Inr None \<Longrightarrow> view d (k, ''TRANSACTION'') = None \<or> view d (k, ''TRANSACTION'') = Some []"
    using r v(2) by (auto split: sum.splits if_splits option.splits)
  show "r = Inr (Some out) \<Longrightarrow> \<exists>it fp' tid eid. view d (k, ''TRANSACTION'') = Some it
           \<and> identity_item it fp' tid eid \<and> out = known_outcome fp' fp tid eid"
    using r v(2) by (fastforce simp: identity_item_def known_outcome_def split: sum.splits if_splits option.splits)
  show "view d (k, ''TRANSACTION'') = Some it \<Longrightarrow> identity_item it fp' tid eid \<Longrightarrow>
           r = Inr (Some (known_outcome fp' fp tid eid)) \<or> (\<exists>e. r = Inl e)"
    using r v(2) by (auto simp: identity_item_def known_outcome_def split: sum.splits)
qed

text \<open>Either nothing happens, or both items appear where there was none.\<close>

definition accept_unchanged :: "'d table_view \<Rightarrow> acceptance \<Rightarrow> 'd \<Rightarrow> store_outcome result \<Rightarrow> 'd \<Rightarrow> bool" where
  "accept_unchanged view a d r d' \<longleftrightarrow> view d' = view d
     \<and> (\<forall>out. r = Inr out \<longrightarrow> (\<exists>it fp tid eid.
          view d (dynamo_identity_key (acc_transaction a), ''TRANSACTION'') = Some it
          \<and> identity_item it fp tid eid \<and> out = known_outcome fp (acc_fingerprint a) tid eid))"

definition accept_written :: "'d table_view \<Rightarrow> acceptance \<Rightarrow> 'd \<Rightarrow> store_outcome result \<Rightarrow> 'd \<Rightarrow> bool" where
  "accept_written view a d r d' \<longleftrightarrow>
     (\<exists>tp ep. marshal_transaction (acc_transaction a) = Inr tp \<and> marshal_event (acc_event a) = Inr ep
        \<and> view d (dynamo_identity_key (acc_transaction a), ''TRANSACTION'') = None
        \<and> view d (''EVENT#'' @ ev_id (acc_event a), ''OUTBOX'') = None
        \<and> view d' = (view d)((dynamo_identity_key (acc_transaction a), ''TRANSACTION'') \<mapsto> transaction_item a tp,
                            (''EVENT#'' @ ev_id (acc_event a), ''OUTBOX'') \<mapsto> outbox_item a ep)
        \<and> (\<forall>out. r = Inr out \<longrightarrow> out = \<lparr>so_kind = StoreAccepted, so_transaction_id = tx_id (acc_transaction a),
                                     so_event_id = ev_id (acc_event a)\<rparr>))"

lemma unchanged_error: "view d' = view d \<Longrightarrow> accept_unchanged view a d (Inl e) d'"
  by (simp add: accept_unchanged_def)

lemma dynamo_accept_cases:
  assumes doc: "reads_items st view" "puts_atomically st view" and run: "dynamo_accept st ctx a d = (r, d')"
  shows "accept_unchanged view a d r d' \<or> accept_written view a d r d'"
proof -
  let ?k = "dynamo_identity_key (acc_transaction a)" and ?fp = "acc_fingerprint a"
  obtain x d1 where x: "read_identity st ctx ?k ?fp d = (x, d1)" by fastforce
  note v1 = read_identity_cases(1,3) [OF doc(1) x]
  show ?thesis
  proof (cases "\<exists>tp ep. x = Inr None \<and> marshal_transaction (acc_transaction a) = Inr tp \<and> marshal_event (acc_event a) = Inr ep")
    case False
    then have "accept_unchanged view a d r d'"
      using run x v1 unfolding dynamo_accept_def Let_def
      by (auto simp: accept_unchanged_def split: sum.splits option.splits)
    then show ?thesis ..
  next
    case True
    then obtain tp ep where m: "x = Inr None" "marshal_transaction (acc_transaction a) = Inr tp"
      "marshal_event (acc_event a) = Inr ep" by blast
    obtain e d2 where t: "dc_transact (ds_client st) ctx
        [put_new st (transaction_item a tp), put_new st (outbox_item a ep)] d1 = (e, d2)" by fastforce
    let ?done = "view d (?k, ''TRANSACTION'') = None \<and> view d (''EVENT#'' @ ev_id (acc_event a), ''OUTBOX'') = None
        \<and> view d2 = (view d)((?k, ''TRANSACTION'') \<mapsto> transaction_item a tp,
             (''EVENT#'' @ ev_id (acc_event a), ''OUTBOX'') \<mapsto> outbox_item a ep)"
    have eff: "case e of None \<Rightarrow> ?done
        | Some y \<Rightarrow> view d2 = view d \<or> y \<noteq> TransactionCanceled \<and> ?done"
      using doc(2) [unfolded puts_atomically_def Let_def, rule_format, OF t]
      unfolding v1(1) accept_items_primary .
    show ?thesis
    proof (cases "e = Some TransactionCanceled")
      case True
      obtain y d3 where y: "read_identity st ctx ?k ?fp d2 = (y, d3)" by fastforce
      note v3 = read_identity_cases(1,3) [OF doc(1) y]
      from run x m t True y have "r = (case y of Inl e' \<Rightarrow> Inl e' | Inr (Some out) \<Rightarrow> Inr out
          | Inr None \<Rightarrow> Inl (Wrap ''transact transaction and outbox'' (dynamo_go_error TransactionCanceled)))" "d' = d3"
        by (auto simp: dynamo_accept_def Let_def split: sum.splits option.splits)
      with v3 eff True have "accept_unchanged view a d r d'"
        by (auto simp: accept_unchanged_def split: sum.splits option.splits)
      then show ?thesis ..
    next
      case other: False
      show ?thesis
      proof (cases "e = None")
        case True
        with run x m t have "r = Inr \<lparr>so_kind = StoreAccepted, so_transaction_id = tx_id (acc_transaction a),
            so_event_id = ev_id (acc_event a)\<rparr>" "d' = d2" by (auto simp: dynamo_accept_def Let_def)
        with eff True m show ?thesis by (auto simp: accept_written_def)
      next
        case False
        then obtain y where y: "e = Some y" "y \<noteq> TransactionCanceled" using other by auto
        with run x m t have "\<exists>e'. r = Inl e'" "d' = d2" by (auto simp: dynamo_accept_def Let_def)
        with eff False m show ?thesis by (auto simp: accept_written_def accept_unchanged_def)
      qed
    qed
  qed
qed

lemma dynamo_accept_known:
  assumes doc: "reads_items st view" and run: "dynamo_accept st ctx a d = (r, d')"
    and known: "view d (dynamo_identity_key (acc_transaction a), ''TRANSACTION'') = Some it" "identity_item it fp tid eid"
  shows "view d' = view d \<and> (r = Inr (known_outcome fp (acc_fingerprint a) tid eid) \<or> (\<exists>e. r = Inl e))"
proof -
  let ?k = "dynamo_identity_key (acc_transaction a)" and ?fp = "acc_fingerprint a"
  obtain x d1 where x: "read_identity st ctx ?k ?fp d = (x, d1)" by fastforce
  from read_identity_cases(4) [OF doc x, OF known]
  have "x = Inr (Some (known_outcome fp ?fp tid eid)) \<or> (\<exists>e. x = Inl e)" .
  with run x have "d' = d1" "r = Inr (known_outcome fp ?fp tid eid) \<or> (\<exists>e. r = Inl e)"
    by (auto simp: dynamo_accept_def Let_def)
  with read_identity_cases(1) [OF doc x] show ?thesis by simp
qed

subsection \<open>Updates\<close>

abbreviation event_key :: "go_string \<Rightarrow> go_string \<times> go_string" where
  "event_key eid \<equiv> (''EVENT#'' @ eid, ''OUTBOX'')"

lemma outcome_update:
  assumes "updates_if st view (outcome_request st eid token upd values) cond sets removes"
    and "update_outcome st ctx eid token upd values d = (e, d')"
  shows "(e = None \<longrightarrow> swaps view (event_key eid) (\<lambda>it it'. cond it \<and> updated sets removes it it') d d')
       \<and> (view d' = view d \<or> swaps view (event_key eid) (\<lambda>it it'. cond it \<and> updated sets removes it it') d d')"
proof -
  obtain x d1 where x: "dc_update (ds_client st) ctx (outcome_request st eid token upd values) d = (x, d1)" by fastforce
  from assms(2) x have "d' = d1" "e = None \<longleftrightarrow> x = None"
    by (auto simp: update_outcome_def split: option.splits)
  with updates_ifD [OF assms(1) x] show ?thesis by (simp add: outcome_request_def)
qed

text \<open>An item that is out of the queue for good.\<close>

definition final_item :: "item \<Rightarrow> bool" where
  "final_item it \<longleftrightarrow> map_of it ''status'' = Some (AttrS ''published'') \<or> map_of it ''status'' = Some (AttrS ''failed'')"

lemma final_not_pending: "final_item it \<Longrightarrow> \<not> held_by token it \<and> \<not> due now it"
  by (auto simp: final_item_def held_by_def due_def)

text \<open>The outcome updates, each with its condition and what it sets and removes.\<close>

lemma understood:
  assumes "understands_updates st view"
  shows "updates_if st view (lease_request st pk now lease token) (due now)
      [(''lease_until'', AttrS (timestamp (time_add now lease))), (''claim_token'', AttrS token)] []"
    and "updates_if st view
      (outcome_request st eid token published_update [('':published'', AttrS ''published''), ('':published_at'', v)])
      (held_by token) [(''status'', AttrS ''published''), (''published_at'', v)]
      [''lease_until'', ''claim_token'', ''retry_at'', ''dispatch_pk'', ''dispatch_sk'']"
    and "updates_if st view
      (outcome_request st eid token failed_update [('':attempts'', n), ('':reason'', r), ('':failed'', AttrS ''failed'')])
      (held_by token) [(''status'', AttrS ''failed''), (''attempts'', n), (''last_error'', r)]
      [''lease_until'', ''claim_token'', ''retry_at'', ''dispatch_pk'', ''dispatch_sk'']"
    and "updates_if st view
      (outcome_request st eid token retry_update [('':attempts'', n), ('':reason'', r), ('':retry_at'', t)])
      (held_by token)
      [(''status'', AttrS ''pending''), (''attempts'', n), (''retry_at'', t), (''last_error'', r)]
      [''lease_until'', ''claim_token'']"
  using assms unfolding understands_updates_def by blast+

definition publishes :: "go_string \<Rightarrow> gotime \<Rightarrow> item \<Rightarrow> item \<Rightarrow> bool" where
  "publishes token at it it' \<longleftrightarrow> held_by token it
     \<and> updated [(''status'', AttrS ''published''), (''published_at'', AttrS (timestamp at))]
         [''lease_until'', ''claim_token'', ''retry_at'', ''dispatch_pk'', ''dispatch_sk''] it it'"

definition fails :: "publish_failure \<Rightarrow> item \<Rightarrow> item \<Rightarrow> bool" where
  "fails f it it' \<longleftrightarrow> held_by (pf_claim_token f) it
     \<and> (if pf_terminal f
        then updated [(''status'', AttrS ''failed''), (''attempts'', AttrN (itoa_int (pf_attempts f))),
                      (''last_error'', AttrS (pf_reason f))]
               [''lease_until'', ''claim_token'', ''retry_at'', ''dispatch_pk'', ''dispatch_sk''] it it'
        else updated [(''status'', AttrS ''pending''), (''attempts'', AttrN (itoa_int (pf_attempts f))),
                      (''retry_at'', AttrS (timestamp (pf_retry_at f))), (''last_error'', AttrS (pf_reason f))]
               [''lease_until'', ''claim_token''] it it')"

lemma dynamo_mark_effect:
  assumes "understands_updates st view" "dynamo_mark st ctx eid token at d = (e, d')"
  shows "(e = None \<longrightarrow> swaps view (event_key eid) (publishes token at) d d')
       \<and> (view d' = view d \<or> swaps view (event_key eid) (publishes token at) d d')"
  using outcome_update [OF understood(2) [OF assms(1)] assms(2) [unfolded dynamo_mark_def]]
  unfolding publishes_def [abs_def] .

lemma dynamo_failure_effect:
  assumes "understands_updates st view" "dynamo_record_failure st ctx f d = (e, d')"
  shows "(e = None \<longrightarrow> swaps view (event_key (pf_event_id f)) (fails f) d d')
       \<and> (view d' = view d \<or> swaps view (event_key (pf_event_id f)) (fails f) d d')"
proof (cases "pf_terminal f")
  case True
  have "update_outcome st ctx (pf_event_id f) (pf_claim_token f) failed_update
      [('':attempts'', AttrN (itoa_int (pf_attempts f))), ('':reason'', AttrS (pf_reason f)), ('':failed'', AttrS ''failed'')] d = (e, d')"
    using assms(2) True by (simp add: dynamo_record_failure_def)
  from outcome_update [OF understood(3) [OF assms(1)] this] True show ?thesis
    unfolding fails_def [abs_def] by simp
next
  case False
  have "update_outcome st ctx (pf_event_id f) (pf_claim_token f) retry_update
      [('':attempts'', AttrN (itoa_int (pf_attempts f))), ('':reason'', AttrS (pf_reason f)),
       ('':retry_at'', AttrS (timestamp (pf_retry_at f)))] d = (e, d')"
    using assms(2) False by (simp add: dynamo_record_failure_def)
  from outcome_update [OF understood(4) [OF assms(1)] this] False show ?thesis
    unfolding fails_def [abs_def] by simp
qed

subsection \<open>Claims\<close>

definition leases :: "gotime \<Rightarrow> duration \<Rightarrow> go_string \<Rightarrow> item \<Rightarrow> item \<Rightarrow> bool" where
  "leases now lease token it it' \<longleftrightarrow> due now it
     \<and> updated [(''lease_until'', AttrS (timestamp (time_add now lease))), (''claim_token'', AttrS token)] [] it it'"

lemma lease_effect:
  assumes "understands_updates st view" "dc_update (ds_client st) ctx (lease_request st pk now lease token) d = (e, d')"
  shows "(e = None \<longrightarrow> swaps view (pk, ''OUTBOX'') (leases now lease token) d d')
       \<and> (view d' = view d \<or> swaps view (pk, ''OUTBOX'') (leases now lease token) d d')"
proof -
  have key: "primary_key (ur_key (lease_request st pk now lease token)) = (pk, ''OUTBOX'')"
    by (simp add: lease_request_def)
  from updates_ifD [OF understood(1) [OF assms(1)] assms(2)] show ?thesis
    unfolding leases_def [abs_def] key .
qed

text \<open>A run of leases changes nothing but the two lease attributes of pending outbox items.\<close>

definition only_leases :: "'d table_view \<Rightarrow> 'd \<Rightarrow> 'd \<Rightarrow> bool" where
  "only_leases view d d' \<longleftrightarrow> (\<forall>j. view d' j = view d j \<or> snd j = ''OUTBOX'' \<and> (\<exists>it it'. view d j = Some it
     \<and> view d' j = Some it' \<and> map_of it ''status'' = Some (AttrS ''pending'')
     \<and> (\<forall>k. k \<notin> {''lease_until'', ''claim_token''} \<longrightarrow> map_of it' k = map_of it k)))"

lemma only_leases_eq: "view d' = view d \<Longrightarrow> only_leases view d d'"
  by (simp add: only_leases_def)

lemma only_leases_trans:
  assumes "only_leases view d d1" "only_leases view d1 d2"
  shows "only_leases view d d2"
  unfolding only_leases_def
proof
  fix j
  show "view d2 j = view d j \<or> snd j = ''OUTBOX'' \<and> (\<exists>it it'. view d j = Some it
     \<and> view d2 j = Some it' \<and> map_of it ''status'' = Some (AttrS ''pending'')
     \<and> (\<forall>k. k \<notin> {''lease_until'', ''claim_token''} \<longrightarrow> map_of it' k = map_of it k))"
    using assms [unfolded only_leases_def, THEN spec [of _ j]] by (metis option.inject)
qed

lemma updated_other: "updated sets removes it it' \<Longrightarrow> k \<notin> fst ` set sets \<Longrightarrow> k \<notin> set removes \<Longrightarrow> map_of it' k = map_of it k"
  by (simp add: updated_def map_add_def map_of_eq_None_iff [THEN iffD2])

lemma updated_set: "updated sets removes it it' \<Longrightarrow> map_of sets k = Some v \<Longrightarrow> map_of it' k = Some v"
  by (simp add: updated_def)

lemma updated_removed: "updated sets removes it it' \<Longrightarrow> k \<in> set removes \<Longrightarrow> k \<notin> fst ` set sets \<Longrightarrow> map_of it' k = None"
  by (simp add: updated_def map_add_def map_of_eq_None_iff [THEN iffD2])

lemma leases_only:
  assumes "swaps view (pk, ''OUTBOX'') (leases now lease token) d d'"
  shows "only_leases view d d'"
  unfolding only_leases_def
proof
  fix j
  from assms obtain it it' where v: "view d (pk, ''OUTBOX'') = Some it" "view d' = (view d)((pk, ''OUTBOX'') \<mapsto> it')"
    and l: "leases now lease token it it'" by (auto simp: swaps_def)
  from l have "map_of it ''status'' = Some (AttrS ''pending'')" by (simp add: leases_def due_def)
  moreover have "map_of it' x = map_of it x" if "x \<notin> {''lease_until'', ''claim_token''}" for x
    by (rule updated_other [OF l [unfolded leases_def, THEN conjunct2]]) (use that in simp_all)
  ultimately show "view d' j = view d j \<or> snd j = ''OUTBOX'' \<and> (\<exists>it it'. view d j = Some it
     \<and> view d' j = Some it' \<and> map_of it ''status'' = Some (AttrS ''pending'')
     \<and> (\<forall>k. k \<notin> {''lease_until'', ''claim_token''} \<longrightarrow> map_of it' k = map_of it k))"
    using v by (cases "j = (pk, ''OUTBOX'')") auto
qed

lemma claim_items_leases:
  assumes "understands_updates st view"
  shows "claim_items st ctx tokens now lease limit its n claimed d = (r, d') \<Longrightarrow> only_leases view d d'"
proof (induction its arbitrary: n claimed d)
  case (Cons it its)
  show ?case
  proof (cases "string_attr it ''pk''")
    case None
    with Cons.prems show ?thesis by (simp add: only_leases_eq)
  next
    case (Some pk)
    obtain e d1 where u: "dc_update (ds_client st) ctx (lease_request st pk now lease (tokens n)) d = (e, d1)" by fastforce
    from lease_effect [OF assms u] have 1: "only_leases view d d1"
      using leases_only [of view pk now lease "tokens n" d d1] only_leases_eq [of view d1 d] by argo
    from Cons.prems Some u consider "d' = d1"
      | n' c' where "claim_items st ctx tokens now lease limit its n' c' d1 = (r, d')"
      by (auto simp: Let_def split: option.splits if_splits sum.splits)
    then show ?thesis
    proof cases
      case 2
      from only_leases_trans [OF 1 Cons.IH [OF this]] show ?thesis .
    qed (use 1 in simp)
  qed
qed (simp add: only_leases_eq)

lemma claim_items_bounds:
  assumes "claim_items st ctx tokens now lease limit its n claimed d = (Inr (n', claimed'), d')"
    and "int (length claimed) < limit"
  shows "int (length claimed') \<le> limit \<and> n \<le> n'
     \<and> (\<exists>new ns. claimed' = claimed @ new \<and> map pe_claim_token new = map tokens ns \<and> sorted_wrt (<) ns
          \<and> (\<forall>i \<in> set ns. n \<le> i \<and> i < n'))"
  using assms
proof (induction its arbitrary: n claimed d)
  case Nil
  then show ?case by (auto intro: exI [of _ "[]"])
next
  case (Cons it its)
  from Cons.prems(1) obtain pk where pk: "string_attr it ''pk'' = Some pk" by (auto split: option.splits)
  obtain e d1 where u: "dc_update (ds_client st) ctx (lease_request st pk now lease (tokens n)) d = (e, d1)" by fastforce
  show ?case
  proof (cases e)
    case (Some x)
    with Cons.prems(1) pk u have "claim_items st ctx tokens now lease limit its (n + 1) claimed d1 = (Inr (n', claimed'), d')"
      by (auto split: if_splits)
    from Cons.IH [OF this Cons.prems(2)] show ?thesis by (auto dest: Suc_leD)
  next
    case None
    with Cons.prems(1) pk u obtain p where p: "decode_pending it = Inr p" by (auto split: sum.splits)
    let ?c = "claimed @ [p\<lparr>pe_claim_token := tokens n\<rparr>]"
    show ?thesis
    proof (cases "int (length ?c) = limit")
      case True
      with Cons.prems(1) pk u None p have "claimed' = ?c" "n' = n + 1" by (auto simp: Let_def)
      with True show ?thesis by (intro conjI exI [of _ "[p\<lparr>pe_claim_token := tokens n\<rparr>]"] exI [of _ "[n]"]) auto
    next
      case False
      with Cons.prems(1) pk u None p have "claim_items st ctx tokens now lease limit its (n + 1) ?c d1 = (Inr (n', claimed'), d')"
        by (auto simp: Let_def)
      from Cons.IH [OF this] False Cons.prems(2) obtain new ns where
        "int (length claimed') \<le> limit" "n + 1 \<le> n'" "claimed' = ?c @ new" "map pe_claim_token new = map tokens ns"
        "sorted_wrt (<) ns" "\<forall>i \<in> set ns. n + 1 \<le> i \<and> i < n'" by auto
      then show ?thesis
        by (intro conjI exI [of _ "p\<lparr>pe_claim_token := tokens n\<rparr> # new"] exI [of _ "n # ns"]) auto
    qed
  qed
qed

text \<open>The tokens handed out are different calls of \<open>rand.Text\<close>, in the order of the calls.\<close>

definition claimed_with :: "(nat \<Rightarrow> go_string) \<Rightarrow> nat \<Rightarrow> pending_event list \<Rightarrow> bool" where
  "claimed_with tokens n ps \<longleftrightarrow>
     (\<exists>ns. map pe_claim_token ps = map tokens ns \<and> sorted_wrt (<) ns \<and> (\<forall>i \<in> set ns. i < n))"

lemma claimed_with_append:
  assumes "claimed_with tokens n ps" "map pe_claim_token new = map tokens ns" "sorted_wrt (<) ns"
    "\<forall>i \<in> set ns. n \<le> i \<and> i < n'" "n \<le> n'"
  shows "claimed_with tokens n' (ps @ new)"
proof -
  from assms(1) obtain ms where m: "map pe_claim_token ps = map tokens ms" "sorted_wrt (<) ms" "\<forall>i \<in> set ms. i < n"
    by (auto simp: claimed_with_def)
  with assms(2-5) have "map pe_claim_token (ps @ new) = map tokens (ms @ ns)" "sorted_wrt (<) (ms @ ns)"
    "\<forall>i \<in> set (ms @ ns). i < n'" by (fastforce simp: sorted_wrt_append)+
  then show ?thesis unfolding claimed_with_def by blast
qed

definition claim_result_ok ::
  "'d table_view \<Rightarrow> (nat \<Rightarrow> go_string) \<Rightarrow> int \<Rightarrow> 'd \<Rightarrow> pending_event list result \<times> 'd \<Rightarrow> bool" where
  "claim_result_ok view tokens limit d r \<longleftrightarrow> only_leases view d (snd r)
     \<and> (\<forall>ps. fst r = Inr ps \<longrightarrow> int (length ps) \<le> limit \<and> (\<exists>n. claimed_with tokens n ps))"

lemma claim_pages_ok:
  assumes u: "understands_updates st view" and q: "queries_forward st view rank"
    and "claim_pages st ctx tokens now lease limit cursor n claimed d = Some r"
    and "claimed_with tokens n claimed" "int (length claimed) \<le> limit"
  shows "claim_result_ok view tokens limit d r"
  using assms(3-5)
proof (induction "rank cursor" arbitrary: cursor n claimed d r rule: less_induct)
  case less
  show ?case
  proof (cases "limit \<le> int (length claimed)")
    case True
    with less.prems have "r = (Inr claimed, d)" by (subst (asm) claim_pages.simps) simp
    with less.prems show ?thesis by (auto simp: claim_result_ok_def only_leases_eq)
  next
    case False
    obtain x d1 where x: "dc_query (ds_client st) ctx (pending_query st now cursor (limit - int (length claimed))) d = (x, d1)"
      by fastforce
    with q have v1: "view d1 = view d" and fwd: "\<And>its nxt. x = Inr (its, nxt) \<Longrightarrow> nxt = [] \<or> rank nxt < rank cursor"
      unfolding queries_forward_def by blast+
    show ?thesis
    proof (cases x)
      case (Inl e)
      with less.prems(1) x False have "r = (Inl (Wrap ''query pending outbox events'' e), d1)"
        by (subst (asm) claim_pages.simps) simp
      with v1 show ?thesis by (simp add: claim_result_ok_def only_leases_eq)
    next
      case (Inr p)
      then obtain its nxt where p: "x = Inr (its, nxt)" by (cases p) auto
      obtain y d2 where y: "claim_items st ctx tokens now lease limit its n claimed d1 = (y, d2)" by fastforce
      have l: "only_leases view d d2"
        by (rule only_leases_trans [where view = view, OF only_leases_eq [where view = view, OF v1] claim_items_leases [OF u y]])
      show ?thesis
      proof (cases y)
        case (Inl e)
        with less.prems(1) x False p y have "r = (Inl e, d2)" by (subst (asm) claim_pages.simps) simp
        with l show ?thesis by (simp add: claim_result_ok_def)
      next
        case (Inr q')
        then obtain n' claimed' where c: "y = Inr (n', claimed')" by (cases q') auto
        from claim_items_bounds [OF y [unfolded c]] False obtain new ns where
          b: "int (length claimed') \<le> limit" "n \<le> n'" "claimed' = claimed @ new" "map pe_claim_token new = map tokens ns"
          "sorted_wrt (<) ns" "\<forall>i \<in> set ns. n \<le> i \<and> i < n'" by auto
        from claimed_with_append [OF less.prems(2) b(4-6,2)] b(3) have w: "claimed_with tokens n' claimed'" by simp
        show ?thesis
        proof (cases "nxt = [] \<or> int (length claimed') = limit")
          case True
          with less.prems(1) x False p y c have "r = (Inr claimed', d2)" by (subst (asm) claim_pages.simps) auto
          with l w b(1) show ?thesis by (auto simp: claim_result_ok_def)
        next
          case again: False
          with less.prems(1) x False p y c
          have "claim_pages st ctx tokens now lease limit nxt n' claimed' d2 = Some r"
            by (subst (asm) claim_pages.simps) auto
          from less.hyps [OF _ this w b(1)] fwd [OF p] again have "claim_result_ok view tokens limit d2 r" by blast
          with l show ?thesis by (auto simp: claim_result_ok_def intro: only_leases_trans)
        qed
      qed
    qed
  qed
qed

lemma claim_pages_returns:
  assumes "queries_forward st view rank"
  shows "\<exists>r. claim_pages st ctx tokens now lease limit cursor n claimed d = Some r"
proof (induction "rank cursor" arbitrary: cursor n claimed d rule: less_induct)
  case less
  obtain x d1 where x: "dc_query (ds_client st) ctx (pending_query st now cursor (limit - int (length claimed))) d = (x, d1)"
    by fastforce
  with assms have fwd: "\<And>its nxt. x = Inr (its, nxt) \<Longrightarrow> nxt = [] \<or> rank nxt < rank cursor"
    unfolding queries_forward_def by blast
  have "\<exists>r. claim_pages st ctx tokens now lease limit nxt n' c' d' = Some r"
    if "x = Inr (its, nxt)" "nxt \<noteq> []" for its nxt n' c' d'
    using fwd [OF that(1)] that(2) less.hyps by blast
  then show ?case using x by (subst claim_pages.simps) (auto split: prod.split sum.split)
qed

lemma dynamo_claim_ok:
  assumes "understands_updates st view" "queries_forward st view rank"
    and "dynamo_claim st ctx tokens now lease limit d = Some r"
  shows "only_leases view d (snd r)
     \<and> (\<forall>ps. fst r = Inr ps \<longrightarrow> int (length ps) \<le> max 0 limit \<and> (\<exists>n. claimed_with tokens n ps))"
proof (cases "limit \<le> 0")
  case True
  with assms(3) have "r = (Inr [], d)" by (simp add: dynamo_claim_def)
  then show ?thesis by (auto simp: only_leases_eq claimed_with_def intro: exI [of _ "[]"])
next
  case False
  with assms(3) have "claim_pages st ctx tokens now lease limit [] 0 [] d = Some r" by (simp add: dynamo_claim_def)
  moreover have "claimed_with tokens 0 []" by (auto simp: claimed_with_def)
  ultimately have "claim_result_ok view tokens limit d r" using claim_pages_ok [OF assms(1,2)] False by simp
  with False show ?thesis by (auto simp: claim_result_ok_def)
qed

end
