(* ===== verification/BatchFacts.thy ===== *)
theory BatchFacts
  imports MemoryStore
begin

text \<open>
  What one run of \<open>RunBatch\<close> does to the outbox of a store that keeps its port's laws, and that
  it does not fail on a store that serves live contexts.
\<close>

subsection \<open>The effect of a batch\<close>

text \<open>
  An event of the batch ends published, or with the failure recorded, as the publisher answered;
  nothing of the lease is left.
\<close>

definition handled :: "dispatcher_config \<Rightarrow> gotime \<Rightarrow> pending_event \<Rightarrow> go_error option \<Rightarrow> ev_state \<Rightarrow> ev_state" where
  "handled cfg now p r e =
     (case r of None \<Rightarrow> mark_state e | Some _ \<Rightarrow> fail_state (make_failure cfg now p) e)"

definition batch_effect ::
  "dispatcher_config \<Rightarrow> gotime \<Rightarrow> (pending_event \<times> go_error option) list \<Rightarrow> outbox \<Rightarrow> outbox \<Rightarrow> bool" where
  "batch_effect cfg now prs ob ob' \<longleftrightarrow>
     (\<forall>(p, r) \<in> set prs. \<exists>e. ob (pe_id p) = Some e \<and> pe_event p = es_event e
          \<and> pe_attempts p = es_attempts e \<and> ob' (pe_id p) = Some (handled cfg now p r e))
     \<and> (\<forall>eid. eid \<notin> pe_id ` fst ` set prs \<longrightarrow> ob' eid = ob eid)"

lemma mark_lease [simp]: "mark_state (lease_state u tok e) = mark_state e"
  by (simp add: mark_state_def lease_state_def)

lemma fail_lease [simp]: "fail_state f (lease_state u tok e) = fail_state f e"
  by (simp add: fail_state_def lease_state_def)

lemma batch_effectI:
  assumes "claim_effect tokens limit ob ps ob1" "length rs = length ps"
  shows "batch_effect cfg now (zip ps rs) ob (spec_batch cfg now (zip ps rs) ob1)"
proof -
  let ?prs = "zip ps rs"
  have fsts: "map fst ?prs = ps" using assms(2) by simp
  have ids: "map (pe_id \<circ> fst) ?prs = map pe_id ps"
    by (metis fsts map_map)
  then have dist: "distinct (map (pe_id \<circ> fst) ?prs)" using assms(1) by (simp add: claim_effect_def)
  have sets: "fst ` set ?prs = set ps" using fsts by (metis list.set_map)
  have "\<exists>e. ob (pe_id p) = Some e \<and> pe_event p = es_event e \<and> pe_attempts p = es_attempts e
      \<and> spec_batch cfg now ?prs ob1 (pe_id p) = Some (handled cfg now p r e)" if pr: "(p, r) \<in> set ?prs" for p r
  proof -
    have "p \<in> set ps" using pr by (meson set_zip_leftD)
    with assms(1) obtain e u where e: "ob (pe_id p) = Some e" "pe_event p = es_event e"
      "pe_attempts p = es_attempts e" "ob1 (pe_id p) = Some (lease_state u (pe_claim_token p) e)"
      unfolding claim_effect_def by blast
    from spec_batch_at [where cfg = cfg and now = now and ob = ob1, OF dist pr e(4)]
    have "spec_batch cfg now ?prs ob1 (pe_id p) = Some (handled cfg now p r e)"
      by (cases r) (simp_all add: handled_def)
    with e show ?thesis by blast
  qed
  moreover have "spec_batch cfg now ?prs ob1 eid = ob eid" if "eid \<notin> pe_id ` fst ` set ?prs" for eid
    using that spec_batch_other [OF that] assms(1) unfolding sets by (simp add: claim_effect_def)
  ultimately show ?thesis by (auto simp: batch_effect_def)
qed

context outbox_store begin

lemma run_batch_refines:
  assumes "inv (fst w)" "0 < cfg_batch_size cfg"
    and "run_batch (on_store_claim claim) (on_store_mark mark) (on_store_fail record_failure)
           (on_publisher publish) cfg ctxs tokens clock w = ((None, r), w')"
  shows "\<exists>ps rs. rs = publish_outcomes publish ctxs 1 ps (snd w)
           \<and> (\<exists>s1. claim (ctxs 0) tokens (time_utc clock) (cfg_lease cfg) (cfg_batch_size cfg) (fst w) = (Inr ps, s1))
           \<and> int (length ps) \<le> cfg_batch_size cfg
           \<and> batch_effect cfg (time_utc clock) (zip ps rs) (abs (fst w)) (abs (fst w'))
           \<and> r = \<lparr>dr_claimed = length ps, dr_published = count_published rs, dr_failed = count_failed rs\<rparr>"
proof -
  let ?now = "time_utc clock"
  obtain c s1 where c: "claim (ctxs 0) tokens ?now (cfg_lease cfg) (cfg_batch_size cfg) (fst w) = (c, s1)"
    by fastforce
  with assms(3) obtain ps where ps: "c = Inr ps"
    and run: "dispatch_all (on_store_mark mark) (on_store_fail record_failure) (on_publisher publish) cfg ctxs 1 ?now ps
      \<lparr>dr_claimed = length ps, dr_published = 0, dr_failed = 0\<rparr> (s1, snd w) = ((None, r), w')"
    by (cases c) (auto simp: run_batch_def on_store_claim_def Let_def)
  from claim_ok [OF assms(1,2) c [unfolded ps]] have
    eff: "inv s1" "claim_effect tokens (cfg_batch_size cfg) (abs (fst w)) ps (abs s1)" by simp_all
  let ?rs = "publish_outcomes publish ctxs 1 ps (snd w)"
  from dispatch_all_refines [OF _ run] eff(1) obtain n m where
    nm: "n \<le> m" "m \<le> length ps" "n = length ps"
    and "abs (fst w') = spec_batch cfg ?now (take m (zip ps ?rs)) (abs s1)"
      "r = \<lparr>dr_claimed = length ps, dr_published = count_published (take n ?rs),
             dr_failed = count_failed (take n ?rs)\<rparr>" by auto
  then have "abs (fst w') = spec_batch cfg ?now (zip ps ?rs) (abs s1)"
    "r = \<lparr>dr_claimed = length ps, dr_published = count_published ?rs, dr_failed = count_failed ?rs\<rparr>" by simp_all
  moreover have "batch_effect cfg ?now (zip ps ?rs) (abs (fst w)) (spec_batch cfg ?now (zip ps ?rs) (abs s1))"
    by (rule batch_effectI [OF eff(2)]) simp
  moreover have "int (length ps) \<le> cfg_batch_size cfg" using eff(2) by (simp add: claim_effect_def)
  moreover have "\<exists>s1. claim (ctxs 0) tokens ?now (cfg_lease cfg) (cfg_batch_size cfg) (fst w) = (Inr ps, s1)"
    using c ps by blast
  ultimately show ?thesis by (intro exI [of _ ps] exI [of _ ?rs]) simp
qed

end

context live_outbox_store begin

lemma run_batch_live:
  assumes "inv (fst w)" "0 < cfg_batch_size cfg" "\<forall>j. ctxs j = None" "[] \<notin> range tokens"
  shows "\<exists>r w'. run_batch (on_store_claim claim) (on_store_mark mark) (on_store_fail record_failure)
           (on_publisher publish) cfg ctxs tokens clock w = ((None, r), w')"
proof -
  let ?now = "time_utc clock"
  obtain ps s1 where c: "claim None tokens ?now (cfg_lease cfg) (cfg_batch_size cfg) (fst w) = (Inr ps, s1)"
    using claim_live [OF assms(1)] by blast
  from claim_ok [OF assms(1,2) c] have
    eff: "inv s1" "claim_effect tokens (cfg_batch_size cfg) (abs (fst w)) ps (abs s1)" by simp_all
  have "held (abs s1) (pe_id p) (pe_claim_token p)" if p: "p \<in> set ps" for p
  proof -
    from p eff(2) obtain e u where "pe_claim_token p \<in> range tokens"
      "abs s1 (pe_id p) = Some (lease_state u (pe_claim_token p) e)" unfolding claim_effect_def by blast
    with assms(4) show ?thesis by (auto simp: held_def)
  qed
  then have "\<exists>r' w'. dispatch_all (on_store_mark mark) (on_store_fail record_failure) (on_publisher publish) cfg ctxs 1
      ?now ps \<lparr>dr_claimed = length ps, dr_published = 0, dr_failed = 0\<rparr> (s1, snd w) = ((None, r'), w')"
    using eff by (intro dispatch_all_live) (auto simp: claim_effect_def assms(3))
  with c show ?thesis
    by (simp add: run_batch_def on_store_claim_def Let_def assms(3))
qed

end

subsection \<open>Leases\<close>

context timed_outbox_store begin

text \<open>Two claims hand out the same event only when the first one's lease has run out.\<close>

lemma lease_excludes:
  assumes "inv s" "0 < limit" "0 < limit'"
    and "claim ctx tokens now lease limit s = (Inr ps, s')"
    and "claim ctx' tokens' now' lease' limit' s' = (Inr qs, s'')"
    and "t_ns now' < t_ns now + sint lease"
  shows "pe_id ` set ps \<inter> pe_id ` set qs = {}"
proof (rule equals0I)
  fix eid
  assume "eid \<in> pe_id ` set ps \<inter> pe_id ` set qs"
  then obtain p q where pq: "p \<in> set ps" "q \<in> set qs" "pe_id p = eid" "pe_id q = eid" by force
  from claim_timed [OF assms(1,2,4)] pq(1,3) obtain e where
    "abs s' eid = Some (lease_state (time_add now lease) (pe_claim_token p) e)"
    unfolding claim_timely_def by blast
  moreover have "inv s'" using claim_ok [OF assms(1,2,4)] by simp
  from claim_timed [OF this assms(3,5)] pq(2,4) obtain e' where
    "abs s' eid = Some e'" "es_claimable now' e'" unfolding claim_timely_def by blast
  ultimately show False
    using assms(6) by (simp add: es_claimable_def lease_state_def time_after_def time_add_def)
qed

end

end
