(* ===== verification/SystemExample.thy ===== *)
theory SystemExample
  imports OutboxSystem BatchFacts
begin

text \<open>
  A concrete run: one toll transaction is accepted by the service on the in-memory store, its
  event is claimed, published and marked. The states of the run are what the properties of the
  system are instantiated with. The fingerprint stays symbolic: its value is not needed.
\<close>

definition example_transaction :: transaction where
  "example_transaction =
     \<lparr>tx_id = [], tx_source = ''roadside'', tx_source_reference = ''r-1'', tx_type = ''toll'',
      tx_time = \<lparr>t_ns = 1, t_zone = 0\<rparr>, tx_base_amount = ''12.50'', tx_currency = ''USD'',
      tx_plate = Some \<lparr>plate_number = ''ABC123'', plate_jurisdiction = ''CA''\<rparr>, tx_transponder = [],
      tx_location = None, tx_metadata = None, tx_location_raw = None, tx_metadata_raw = None\<rparr>"

definition example_command :: accept_command where
  "example_command = \<lparr>cmd_transaction = example_transaction, cmd_correlation_id = ''c-1''\<rparr>"

definition example_service :: intake_service where
  "example_service = new_intake_service []"

definition example_id :: "nat \<Rightarrow> go_string" where
  "example_id n = (if n = 0 then ''e-1'' else ''t-1'')"

definition example_now :: gotime where
  "example_now = \<lparr>t_ns = 100, t_zone = 0\<rparr>"

text \<open>Tokens of growing length never repeat.\<close>

definition example_token :: "nat \<Rightarrow> go_string" where
  "example_token n = replicate (Suc n) CHR ''k''"

lemma example_tokens: "fresh_tokens example_token {}"
proof -
  have "inj example_token"
    by (intro injI) (metis example_token_def length_replicate nat.inject)
  then show ?thesis by (auto simp: fresh_tokens_def example_token_def)
qed

lemma example_service_types: "svc_allowed_types example_service = {''toll''}"
  by (simp add: example_service_def new_intake_service_def allowed_types_def)

lemma example_valid: "validate example_transaction [Some {''toll''}] = None"
  unfolding validate_None_iff
  by (intro conjI)
    (simp_all add: example_transaction_def valid_bounded_ascii rune_count_ascii allowed_types_def
      is_zero_time_def matches_amount_def strip_sign_def is_digit_def)

lemma example_fingerprint: "\<exists>fp. fingerprint example_transaction [Some {''toll''}] = Inr fp"
  by (rule fingerprint_plain [OF example_valid]) (simp_all add: example_transaction_def)

subsection \<open>The run\<close>

text \<open>The store after the acceptance, the claimed event, and the stores after claim and mark.\<close>

definition example_event :: "go_string \<Rightarrow> outbox_event" where
  "example_event fp = acc_event (build_acceptance example_id example_now example_command fp)"

definition example_accepted :: "go_string \<Rightarrow> mem_store" where
  "example_accepted fp =
     \<lparr>ms_transactions = fmupd ''roadside:r-1''
        \<lparr>st_fingerprint = fp, st_transaction_id = ''t-1'', st_event_id = ''e-1''\<rparr> fmempty,
      ms_events = fmupd ''e-1'' (fresh_stored_event (clone_event (example_event fp))) fmempty\<rparr>"

definition example_pending :: "go_string \<Rightarrow> pending_event" where
  "example_pending fp =
     \<lparr>pe_event = clone_event (example_event fp), pe_attempts = 0, pe_claim_token = ''k''\<rparr>"

definition example_claimed :: "go_string \<Rightarrow> mem_store" where
  "example_claimed fp = snd (mem_claim None example_token example_now (cfg_lease default_dispatcher_config)
     (cfg_batch_size default_dispatcher_config) (example_accepted fp))"

definition example_published :: "go_string \<Rightarrow> mem_store" where
  "example_published fp = snd (mem_mark None ''e-1'' ''k'' example_now (example_claimed fp))"

lemma example_accept:
  assumes "fingerprint example_transaction [Some {''toll''}] = Inr fp"
  shows "intake_accept example_service mem_accept example_id example_now None example_command mem_new_store
     = (Inr \<lparr>res_kind = Accepted, res_id = ''t-1'', res_event_id = ''e-1''\<rparr>, example_accepted fp)"
proof -
  have "fingerprint (cmd_transaction example_command) [Some (svc_allowed_types example_service)] = Inr fp"
    using assms by (simp add: example_command_def example_service_types)
  then show ?thesis
    by (simp add: intake_accept_valid Let_def mem_accept_def mem_new_store_def interpret_outcome_def
        example_accepted_def mem_key_def example_event_def)
      (simp add: example_command_def example_transaction_def example_id_def)
qed

lemma example_event_simps [simp]: "ev_id (example_event fp) = ''e-1''"
  by (simp add: example_event_def example_id_def)

lemma example_claim:
  "mem_claim None example_token example_now (cfg_lease default_dispatcher_config)
     (cfg_batch_size default_dispatcher_config) (example_accepted fp)
   = (Inr [example_pending fp], example_claimed fp)"
proof -
  have ids: "sorted_list_of_fset (fmdom (ms_events (example_accepted fp))) = [''e-1'']"
    by (simp add: example_accepted_def sorted_list_of_fset.rep_eq)
  show ?thesis
    unfolding example_claimed_def mem_claim_def ids
    by (simp add: example_accepted_def mem_skip_def fresh_stored_event_def mem_lease_def mem_pending_def
        example_pending_def default_dispatcher_config_def example_token_def example_now_def zero_time_def time_after_def)
qed

lemma example_claimed_event:
  "fmlookup (ms_events (example_claimed fp)) ''e-1''
     = Some ((fresh_stored_event (clone_event (example_event fp)))
          \<lparr>se_lease_until := time_add example_now (seconds_dur 30), se_claim_token := ''k''\<rparr>)"
proof -
  have ids: "sorted_list_of_fset (fmdom (ms_events (example_accepted fp))) = [''e-1'']"
    by (simp add: example_accepted_def sorted_list_of_fset.rep_eq)
  show ?thesis
    unfolding example_claimed_def mem_claim_def ids
    by (simp add: example_accepted_def mem_skip_def fresh_stored_event_def mem_lease_def
        default_dispatcher_config_def example_token_def example_now_def zero_time_def time_after_def Let_def)
qed

lemma example_mark:
  "mem_mark None ''e-1'' ''k'' example_now (example_claimed fp) = (None, example_published fp)"
  by (simp add: example_published_def mem_mark_def example_claimed_event)

lemma example_published_event:
  "\<exists>e. mem_abs (example_published fp) ''e-1'' = Some e \<and> es_status e = Published
     \<and> es_event e = clone_event (example_event fp) \<and> es_attempts e = 0"
  by (simp add: example_published_def mem_mark_def example_claimed_event mem_abs_def events_abs_def
      mem_ev_state_def fresh_stored_event_def)

text \<open>The system of the example: the default dispatcher on the in-memory store.\<close>

abbreviation example_step :: "mem_store system \<Rightarrow> mem_store system \<Rightarrow> bool" where
  "example_step \<equiv> sys_step example_service default_dispatcher_config mem_abs mem_accept mem_claim mem_mark
     mem_record_failure"

definition example_S1 :: "go_string \<Rightarrow> mem_store system" where
  "example_S1 fp = (initial_system mem_new_store)\<lparr>sys_store := example_accepted fp\<rparr>"

definition example_S2 :: "go_string \<Rightarrow> mem_store system" where
  "example_S2 fp = (example_S1 fp)\<lparr>sys_store := example_claimed fp,
     sys_flight := sys_flight (example_S1 fp) \<union> Pair Handed ` set [example_pending fp],
     sys_used := sys_used (example_S1 fp) \<union> range example_token\<rparr>"

definition example_S3 :: "go_string \<Rightarrow> mem_store system" where
  "example_S3 fp = (example_S2 fp)\<lparr>sys_log := sys_log (example_S2 fp) @ [pe_event (example_pending fp)],
     sys_flight := insert (Sent, example_pending fp) (sys_flight (example_S2 fp) - {(Handed, example_pending fp)})\<rparr>"

definition example_S4 :: "go_string \<Rightarrow> mem_store system" where
  "example_S4 fp = settle mem_abs Sent (example_pending fp) (example_published fp) (example_S3 fp)"

lemma example_steps:
  assumes "fingerprint example_transaction [Some {''toll''}] = Inr fp"
  shows "example_step (initial_system mem_new_store) (example_S1 fp)"
    and "example_step (example_S1 fp) (example_S2 fp)"
    and "example_step (example_S2 fp) (example_S3 fp)"
    and "example_step (example_S3 fp) (example_S4 fp)"
proof -
  show "example_step (initial_system mem_new_store) (example_S1 fp)"
    unfolding example_S1_def
    by (rule step_accept [where new_id = example_id and now = example_now and ctx = None and cmd = example_command])
      (simp_all add: example_accept [OF assms])
  show "example_step (example_S1 fp) (example_S2 fp)"
    unfolding example_S2_def
    by (rule step_claim [where ctx = None and now = example_now])
      (simp_all add: example_S1_def example_claim example_tokens)
  show "example_step (example_S2 fp) (example_S3 fp)"
    unfolding example_S3_def by (rule step_publish) (simp add: example_S2_def)
  have "pe_id (example_pending fp) = ''e-1''" "pe_claim_token (example_pending fp) = ''k''"
    by (simp_all add: example_pending_def pe_id_def)
  then show "example_step (example_S3 fp) (example_S4 fp)"
    unfolding example_S4_def
    by (intro step_mark [where ctx = None and now = example_now and r = None])
      (simp_all add: example_S3_def example_S2_def example_mark)
qed

lemma example_reachable:
  assumes "fingerprint example_transaction [Some {''toll''}] = Inr fp"
  shows "sys_reachable example_step mem_new_store (example_S1 fp)"
    and "sys_reachable example_step mem_new_store (example_S4 fp)"
  using example_steps [OF assms] by (metis sys_reachable.intros)+

lemma example_S4_simps [simp]:
  "sys_store (example_S4 fp) = example_published fp"
  "sys_log (example_S4 fp) = [clone_event (example_event fp)]"
  by (simp_all add: example_S4_def example_S3_def example_S2_def example_S1_def example_pending_def)

lemma example_run:
  assumes "fingerprint example_transaction [Some {''toll''}] = Inr fp"
  shows "example_step\<^sup>*\<^sup>* (example_S1 fp) (example_S4 fp)"
    and "example_step\<^sup>*\<^sup>* (initial_system mem_new_store) (example_S4 fp)"
proof -
  note steps = example_steps [OF assms]
  show run: "example_step\<^sup>*\<^sup>* (example_S1 fp) (example_S4 fp)"
    by (rule converse_rtranclp_into_rtranclp [OF steps(2) converse_rtranclp_into_rtranclp [OF steps(3)
          r_into_rtranclp [of example_step, OF steps(4)]]])
  show "example_step\<^sup>*\<^sup>* (initial_system mem_new_store) (example_S4 fp)"
    by (rule converse_rtranclp_into_rtranclp [OF steps(1) run])
qed

lemma example_done: "(''e-1'', ''k'') \<in> set (sys_done (example_S4 fp))"
proof -
  have "\<exists>r. mem_abs (example_published fp) ''e-1'' = Some r \<and> es_status r = Published"
    using example_published_event [of fp] by blast
  moreover have "mem_abs (example_claimed fp) ''e-1'' \<noteq> Some r" if "es_status r = Published" for r
    using that by (auto simp: mem_abs_def events_abs_def example_claimed_event mem_ev_state_def fresh_stored_event_def)
  ultimately have "mem_abs (example_published fp) \<noteq> mem_abs (example_claimed fp)" by metis
  then show ?thesis
    by (simp add: example_S4_def example_S3_def example_S2_def claim_of_def example_pending_def pe_id_def)
qed

subsection \<open>A publisher and a batch\<close>

definition example_publish :: "outbox_event list publish_fn" where
  "example_publish ctx ev l = (None, l @ [ev])"

lemma example_log_publisher: "log_publisher example_publish"
  by (simp add: log_publisher_def example_publish_def)

lemma example_accepted_inv: "mem_inv (example_accepted fp)"
  by (simp add: example_accepted_def mem_inv_def events_inv_def fresh_stored_event_def)

lemma example_claimable:
  "claimable_ids example_now (ms_events (example_accepted fp))
     (sorted_list_of_fset (fmdom (ms_events (example_accepted fp)))) = [''e-1'']"
  by (simp add: claimable_ids_def example_accepted_def sorted_list_of_fset.rep_eq mem_skip_def
      fresh_stored_event_def example_now_def zero_time_def time_after_def)

lemma example_claimed_inv: "mem_inv (example_claimed fp)"
  using mem_claim_effect(1) [OF example_accepted_inv _ example_claim [of fp]]
  by (simp add: default_dispatcher_config_def)

end
