(* ===== verification/DynamoSystem.thy ===== *)
theory DynamoSystem
  imports DynamoFacts SystemExample
begin

text \<open>
  All uses of the DynamoDB store, in any order and number, on a service that behaves as
  documented: the steps and the invariant of the table, and a table in memory that is such a service.
\<close>

subsection \<open>Steps and invariant\<close>

inductive dynamo_step :: "'d dynamo_store \<Rightarrow> 'd \<Rightarrow> 'd \<Rightarrow> bool" for st where
  dyn_accept: "dynamo_accept st ctx a d = (r, d') \<Longrightarrow> dynamo_step st d d'"
| dyn_claim: "dynamo_claim st ctx tokens now lease limit d = Some (ps, d') \<Longrightarrow> dynamo_step st d d'"
| dyn_mark: "dynamo_mark st ctx eid token at d = (e, d') \<Longrightarrow> dynamo_step st d d'"
| dyn_failure: "dynamo_record_failure st ctx f d = (e, d') \<Longrightarrow> dynamo_step st d d'"

text \<open>The effects a step can have on the table.\<close>

definition queued :: "item \<Rightarrow> bool" where
  "queued it \<longleftrightarrow> map_of it ''status'' = Some (AttrS ''pending'')
     \<and> map_of it ''dispatch_pk'' = Some (AttrS ''OUTBOX#PENDING'')"

definition outcome_of :: "item \<Rightarrow> item \<Rightarrow> bool" where
  "outcome_of it it' \<longleftrightarrow> \<not> final_item it \<and> (queued it \<longrightarrow> queued it' \<or> final_item it')"

lemma publishes_outcome: "publishes token at it it' \<Longrightarrow> outcome_of it it' \<and> final_item it'"
  using final_not_pending [of it token]
  by (auto simp: publishes_def outcome_of_def final_item_def dest: updated_set)

lemma fails_outcome:
  assumes "fails f it it'"
  shows "outcome_of it it'"
proof (cases "pf_terminal f")
  case True
  with assms have "held_by (pf_claim_token f) it" "map_of it' ''status'' = Some (AttrS ''failed'')"
    by (auto simp: fails_def dest: updated_set)
  with final_not_pending [of it] show ?thesis by (auto simp: outcome_of_def final_item_def)
next
  case False
  with assms have h: "held_by (pf_claim_token f) it" and
    u: "updated [(''status'', AttrS ''pending''), (''attempts'', AttrN (itoa_int (pf_attempts f))),
          (''retry_at'', AttrS (timestamp (pf_retry_at f))), (''last_error'', AttrS (pf_reason f))]
        [''lease_until'', ''claim_token''] it it'" by (auto simp: fails_def)
  have "map_of it' ''status'' = Some (AttrS ''pending'')" by (rule updated_set [OF u]) simp
  moreover have "map_of it' ''dispatch_pk'' = map_of it ''dispatch_pk''" by (rule updated_other [OF u]) simp_all
  ultimately show ?thesis using h final_not_pending by (auto simp: outcome_of_def queued_def)
qed

lemma step_effect:
  assumes doc: "dynamo_documented st view" "queries_forward st view rank" and step: "dynamo_step st d d'"
  obtains (same) "view d' = view d"
  | (written) a tp ep where "view d (dynamo_identity_key (acc_transaction a), ''TRANSACTION'') = None"
      "view d (event_key (ev_id (acc_event a))) = None"
      "view d' = (view d)((dynamo_identity_key (acc_transaction a), ''TRANSACTION'') \<mapsto> transaction_item a tp,
                          event_key (ev_id (acc_event a)) \<mapsto> outbox_item a ep)"
  | (leased) "only_leases view d d'"
  | (settled) eid where "swaps view (event_key eid) outcome_of d d'"
  using step
proof cases
  case (dyn_accept ctx a r)
  have "accept_unchanged view a d r d' \<or> accept_written view a d r d'"
    by (rule dynamo_accept_cases [OF _ _ dyn_accept]) (use doc(1) in \<open>simp_all add: dynamo_documented_def\<close>)
  then show thesis
  proof
    assume "accept_unchanged view a d r d'"
    with same show thesis by (simp add: accept_unchanged_def)
  next
    assume "accept_written view a d r d'"
    then show thesis unfolding accept_written_def by (elim exE conjE) (rule written)
  qed
next
  case (dyn_claim ctx tokens now lease limit ps)
  have "understands_updates st view" using doc(1) by (simp add: dynamo_documented_def)
  from dynamo_claim_ok [OF this doc(2) dyn_claim] show thesis by (intro leased) simp
next
  case (dyn_mark ctx eid token at e)
  have "understands_updates st view" using doc(1) by (simp add: dynamo_documented_def)
  from dynamo_mark_effect [OF this dyn_mark] show thesis
  proof (elim conjE disjE)
    assume "swaps view (event_key eid) (publishes token at) d d'"
    then have "swaps view (event_key eid) outcome_of d d'"
      by (rule swaps_mono) (use publishes_outcome in blast)
    then show thesis by (rule settled)
  qed (rule same)
next
  case (dyn_failure ctx f e)
  have "understands_updates st view" using doc(1) by (simp add: dynamo_documented_def)
  from dynamo_failure_effect [OF this dyn_failure] show thesis
  proof (elim conjE disjE)
    assume "swaps view (event_key (pf_event_id f)) (fails f) d d'"
    then have "swaps view (event_key (pf_event_id f)) outcome_of d d'"
      by (rule swaps_mono) (rule fails_outcome)
    then show thesis by (rule settled)
  qed (rule same)
qed

text \<open>Transactions and settled events stay as they are.\<close>

lemma step_keeps:
  assumes doc: "dynamo_documented st view" "queries_forward st view rank" and step: "dynamo_step st d d'"
  shows "view d (k, ''TRANSACTION'') = Some it \<Longrightarrow> view d' (k, ''TRANSACTION'') = Some it"
    and "view d (event_key eid) = Some it \<Longrightarrow> final_item it \<Longrightarrow> view d' (event_key eid) = Some it"
proof -
  have "(view d (k, ''TRANSACTION'') = Some it \<longrightarrow> view d' (k, ''TRANSACTION'') = Some it)
      \<and> (view d (event_key eid) = Some it \<longrightarrow> final_item it \<longrightarrow> view d' (event_key eid) = Some it)"
    using doc step
  proof (cases rule: step_effect)
    case leased
    then have "view d' j = view d j \<or> snd j = ''OUTBOX'' \<and> (\<exists>it. view d j = Some it
        \<and> map_of it ''status'' = Some (AttrS ''pending''))" for j unfolding only_leases_def by blast
    from this [of "(k, ''TRANSACTION'')"] this [of "event_key eid"] show ?thesis
      by (auto simp: final_item_def)
  next
    case (settled e)
    then show ?thesis by (auto simp: swaps_def outcome_of_def)
  qed auto
  then show "view d (k, ''TRANSACTION'') = Some it \<Longrightarrow> view d' (k, ''TRANSACTION'') = Some it"
    "view d (event_key eid) = Some it \<Longrightarrow> final_item it \<Longrightarrow> view d' (event_key eid) = Some it" by blast+
qed

lemma steps_keep:
  assumes doc: "dynamo_documented st view" "queries_forward st view rank"
    and "(dynamo_step st)\<^sup>*\<^sup>* d d'"
  shows "view d (k, ''TRANSACTION'') = Some it \<Longrightarrow> view d' (k, ''TRANSACTION'') = Some it"
    and "view d (event_key eid) = Some it \<Longrightarrow> final_item it \<Longrightarrow> view d' (event_key eid) = Some it"
proof -
  have "(view d (k, ''TRANSACTION'') = Some it \<longrightarrow> view d' (k, ''TRANSACTION'') = Some it)
      \<and> (view d (event_key eid) = Some it \<longrightarrow> final_item it \<longrightarrow> view d' (event_key eid) = Some it)"
    using assms(3)
  proof induction
    case (step d1 d2)
    then show ?case using step_keeps [OF doc step.hyps(2)] by blast
  qed blast
  then show "view d (k, ''TRANSACTION'') = Some it \<Longrightarrow> view d' (k, ''TRANSACTION'') = Some it"
    "view d (event_key eid) = Some it \<Longrightarrow> final_item it \<Longrightarrow> view d' (event_key eid) = Some it" by blast+
qed

text \<open>Every stored transaction names an event that is in the queue, or settled.\<close>

definition tracked :: "(go_string \<times> go_string \<Rightarrow> item option) \<Rightarrow> bool" where
  "tracked v \<longleftrightarrow> (\<forall>k it. v (k, ''TRANSACTION'') = Some it \<longrightarrow>
     (\<exists>fp tid eid ev. identity_item it fp tid eid \<and> v (event_key eid) = Some ev \<and> (queued ev \<or> final_item ev)))"

lemma outbox_item_queued: "queued (outbox_item a p)"
  by (simp add: queued_def outbox_item_def Let_def)

lemma trackedD:
  "tracked v \<Longrightarrow> v (k, ''TRANSACTION'') = Some it \<Longrightarrow>
     \<exists>fp tid eid ev. identity_item it fp tid eid \<and> v (event_key eid) = Some ev \<and> (queued ev \<or> final_item ev)"
  unfolding tracked_def by blast

lemma tracked_moves:
  assumes t: "tracked v"
    and tx: "\<And>k. w (k, ''TRANSACTION'') = v (k, ''TRANSACTION'')"
    and ev: "\<And>eid ev. v (event_key eid) = Some ev \<Longrightarrow> queued ev \<or> final_item ev \<Longrightarrow>
       \<exists>ev'. w (event_key eid) = Some ev' \<and> (queued ev' \<or> final_item ev')"
  shows "tracked w"
  unfolding tracked_def
proof (intro allI impI)
  fix k it assume "w (k, ''TRANSACTION'') = Some it"
  with tx have "v (k, ''TRANSACTION'') = Some it" by simp
  from trackedD [OF t this] ev
  show "\<exists>fp tid eid ev. identity_item it fp tid eid \<and> w (event_key eid) = Some ev \<and> (queued ev \<or> final_item ev)"
    by blast
qed

lemma tracked_step:
  assumes doc: "dynamo_documented st view" "queries_forward st view rank" and step: "dynamo_step st d d'"
    and t: "tracked (view d)"
  shows "tracked (view d')"
  using doc step
proof (cases rule: step_effect)
  case same
  with t show ?thesis by simp
next
  case (written a tp ep)
  let ?e = "event_key (ev_id (acc_event a))"
  show ?thesis unfolding tracked_def
  proof (intro allI impI)
    fix k it assume k: "view d' (k, ''TRANSACTION'') = Some it"
    show "\<exists>fp tid eid ev. identity_item it fp tid eid \<and> view d' (event_key eid) = Some ev \<and> (queued ev \<or> final_item ev)"
    proof (cases "k = dynamo_identity_key (acc_transaction a)")
      case True
      with k written(3) have "it = transaction_item a tp" by simp
      with transaction_item_identity [of a tp] outbox_item_queued [of a ep] written(3) show ?thesis by fastforce
    next
      case False
      with k written(3) have "view d (k, ''TRANSACTION'') = Some it" by simp
      from trackedD [OF t this] obtain fp tid eid ev where
        "identity_item it fp tid eid" "view d (event_key eid) = Some ev" "queued ev \<or> final_item ev" by blast
      with written(2,3) show ?thesis by (intro exI conjI) (auto)
    qed
  qed
next
  case leased
  show ?thesis
  proof (rule tracked_moves [OF t])
    show "view d' (k, ''TRANSACTION'') = view d (k, ''TRANSACTION'')" for k
      using leased [unfolded only_leases_def, THEN spec [of _ "(k, ''TRANSACTION'')"]] by auto
    fix eid ev assume e: "view d (event_key eid) = Some ev" "queued ev \<or> final_item ev"
    from leased [unfolded only_leases_def, THEN spec [of _ "event_key eid"]] e(1)
    have "view d' (event_key eid) = Some ev \<or> (\<exists>ev'. view d' (event_key eid) = Some ev'
        \<and> (\<forall>k. k \<notin> {''lease_until'', ''claim_token''} \<longrightarrow> map_of ev' k = map_of ev k))" by auto
    then obtain ev' where ev': "view d' (event_key eid) = Some ev'"
      "\<And>k. k \<notin> {''lease_until'', ''claim_token''} \<Longrightarrow> map_of ev' k = map_of ev k" by blast
    from ev'(2) [of "''status''"] ev'(2) [of "''dispatch_pk''"] e(2) have "queued ev' \<or> final_item ev'"
      by (simp add: queued_def final_item_def)
    with ev'(1) show "\<exists>ev'. view d' (event_key eid) = Some ev' \<and> (queued ev' \<or> final_item ev')" by blast
  qed
next
  case (settled e)
  then obtain it it' where s: "view d (event_key e) = Some it" "view d' = (view d)(event_key e \<mapsto> it')" "outcome_of it it'"
    by (auto simp: swaps_def)
  show ?thesis
  proof (rule tracked_moves [OF t])
    show "view d' (k, ''TRANSACTION'') = view d (k, ''TRANSACTION'')" for k using s(2) by simp
    fix eid ev assume "view d (event_key eid) = Some ev" "queued ev \<or> final_item ev"
    with s show "\<exists>ev'. view d' (event_key eid) = Some ev' \<and> (queued ev' \<or> final_item ev')"
      by (cases "eid = e") (auto simp: outcome_of_def)
  qed
qed

subsection \<open>A service that behaves as documented\<close>

text \<open>A table in memory. It is what the properties are instantiated with.\<close>

type_synonym sample_table = "((go_string \<times> go_string) \<times> item) list"

definition sample_get :: "go_context \<Rightarrow> get_request \<Rightarrow> sample_table \<Rightarrow> item result \<times> sample_table" where
  "sample_get ctx r d = (Inr (case map_of d (primary_key (gr_key r)) of None \<Rightarrow> [] | Some i \<Rightarrow> i), d)"

definition sample_transact :: "go_context \<Rightarrow> put_request list \<Rightarrow> sample_table \<Rightarrow> dynamo_error option \<times> sample_table" where
  "sample_transact ctx ps d =
     (let keyed = rev (map (\<lambda>p. (primary_key (pr_item p), pr_item p)) ps) in
      if list_all (\<lambda>(k, _). map_of d k = None) keyed then (None, keyed @ d) else (Some TransactionCanceled, d))"

definition sample_query :: "go_context \<Rightarrow> query_request \<Rightarrow> sample_table \<Rightarrow> (item list \<times> item) result \<times> sample_table" where
  "sample_query ctx r d = (Inr (filter queued (map snd d), []), d)"

definition sample_value :: "update_request \<Rightarrow> go_string \<Rightarrow> attribute" where
  "sample_value r k = (case map_of (ur_values r) k of None \<Rightarrow> AttrOther | Some v \<Rightarrow> v)"

definition sample_text :: "attribute \<Rightarrow> go_string" where
  "sample_text v = (case v of AttrS s \<Rightarrow> s | _ \<Rightarrow> [])"

definition sample_condition :: "update_request \<Rightarrow> item \<Rightarrow> bool" where
  "sample_condition r it \<longleftrightarrow>
     (if ur_condition r = ''#status = :pending AND claim_token = :claim_token''
      then held_by (sample_text (sample_value r '':claim_token'')) it
      else map_of it ''status'' = Some (AttrS ''pending'')
        \<and> absent_or_upto it ''retry_at'' (sample_text (sample_value r '':now''))
        \<and> absent_or_upto it ''lease_until'' (sample_text (sample_value r '':now'')))"

definition sample_removes :: "update_request \<Rightarrow> go_string list" where
  "sample_removes r =
     (if ur_update r = published_update \<or> ur_update r = failed_update
      then [''lease_until'', ''claim_token'', ''retry_at'', ''dispatch_pk'', ''dispatch_sk'']
      else if ur_update r = retry_update then [''lease_until'', ''claim_token''] else [])"

definition sample_sets :: "update_request \<Rightarrow> item" where
  "sample_sets r =
     (if ur_update r = published_update
      then [(''status'', sample_value r '':published''), (''published_at'', sample_value r '':published_at'')]
      else if ur_update r = failed_update
      then [(''status'', sample_value r '':failed''), (''attempts'', sample_value r '':attempts''),
            (''last_error'', sample_value r '':reason'')]
      else if ur_update r = retry_update
      then [(''status'', sample_value r '':pending''), (''attempts'', sample_value r '':attempts''),
            (''retry_at'', sample_value r '':retry_at''), (''last_error'', sample_value r '':reason'')]
      else [(''lease_until'', sample_value r '':lease_until''), (''claim_token'', sample_value r '':claim_token'')])"

definition sample_update :: "go_context \<Rightarrow> update_request \<Rightarrow> sample_table \<Rightarrow> dynamo_error option \<times> sample_table" where
  "sample_update ctx r d =
     (let k = primary_key (ur_key r) in
      case map_of d k of
        None \<Rightarrow> (Some ConditionalCheckFailed, d)
      | Some it \<Rightarrow>
          if sample_condition r it
          then (None, (k, sample_sets r @ filter (\<lambda>(a, _). a \<notin> set (sample_removes r)) it) # d)
          else (Some ConditionalCheckFailed, d))"

definition sample_store :: "sample_table dynamo_store" where
  "sample_store =
     \<lparr>ds_client = \<lparr>dc_get = sample_get, dc_transact = sample_transact, dc_query = sample_query, dc_update = sample_update\<rparr>,
      ds_table = ''transaction-intake''\<rparr>"

lemma sample_reads: "reads_items sample_store map_of"
  by (simp add: reads_items_def sample_store_def sample_get_def)

lemma sample_puts: "puts_atomically sample_store map_of"
  by (auto simp: puts_atomically_def sample_store_def sample_transact_def put_new_def Let_def fun_upd_def
      split: if_splits)

lemma map_of_removed: "map_of (filter (\<lambda>(a, _). a \<notin> R) it) = map_of it |` (- R)"
  by (induction it) (auto simp: restrict_map_def fun_eq_iff)

lemma sample_updates_if:
  assumes "sample_condition r = cond" "sample_sets r = sets" "sample_removes r = removes"
  shows "updates_if sample_store map_of r cond sets removes"
  unfolding updates_if_def Let_def
proof (intro allI impI)
  fix ctx d e d'
  let ?k = "primary_key (ur_key r)"
  assume "dc_update (ds_client sample_store) ctx r d = (e, d')"
  then have run: "sample_update ctx r d = (e, d')" by (simp add: sample_store_def)
  show "case e of None \<Rightarrow> swaps map_of ?k (\<lambda>it it'. cond it \<and> updated sets removes it it') d d'
     | Some x \<Rightarrow> map_of d' = map_of d \<or> x \<noteq> ConditionalCheckFailed
         \<and> swaps map_of ?k (\<lambda>it it'. cond it \<and> updated sets removes it it') d d'"
  proof (cases "map_of d ?k")
    case None
    with run show ?thesis by (auto simp: sample_update_def Let_def)
  next
    case (Some it)
    show ?thesis
    proof (cases "cond it")
      case True
      let ?it' = "sets @ filter (\<lambda>(a, _). a \<notin> set removes) it"
      from run Some True assms have "e = None" "d' = (?k, ?it') # d" by (auto simp: sample_update_def Let_def)
      moreover have "updated sets removes it ?it'" by (simp add: updated_def map_of_removed)
      ultimately show ?thesis using Some True by (auto simp: swaps_def)
    next
      case False
      with run Some assms show ?thesis by (auto simp: sample_update_def Let_def)
    qed
  qed
qed

lemma update_texts:
  "published_update \<noteq> failed_update" "published_update \<noteq> retry_update" "failed_update \<noteq> retry_update"
  "''SET lease_until = :lease_until, claim_token = :claim_token'' \<noteq> published_update"
  "''SET lease_until = :lease_until, claim_token = :claim_token'' \<noteq> failed_update"
  "''SET lease_until = :lease_until, claim_token = :claim_token'' \<noteq> retry_update"
  by (simp_all add: published_update_def failed_update_def retry_update_def)

lemma sample_understands: "understands_updates sample_store map_of"
  unfolding understands_updates_def
proof (intro conjI allI)
  note simps = sample_sets_def sample_removes_def sample_condition_def sample_value_def sample_text_def
    update_texts update_texts [symmetric] fun_eq_iff
  show "updates_if sample_store map_of (lease_request sample_store pk now lease token) (due now)
      [(''lease_until'', AttrS (timestamp (time_add now lease))), (''claim_token'', AttrS token)] []" for pk now lease token
    by (rule sample_updates_if) (simp_all add: simps lease_request_def due_filter_def due_def)
  show "updates_if sample_store map_of
      (outcome_request sample_store eid token published_update [('':published'', AttrS ''published''), ('':published_at'', v)])
      (held_by token) [(''status'', AttrS ''published''), (''published_at'', v)]
      [''lease_until'', ''claim_token'', ''retry_at'', ''dispatch_pk'', ''dispatch_sk'']" for eid token v
    by (rule sample_updates_if) (simp_all add: simps outcome_request_def)
  show "updates_if sample_store map_of
      (outcome_request sample_store eid token failed_update [('':attempts'', n), ('':reason'', r), ('':failed'', AttrS ''failed'')])
      (held_by token) [(''status'', AttrS ''failed''), (''attempts'', n), (''last_error'', r)]
      [''lease_until'', ''claim_token'', ''retry_at'', ''dispatch_pk'', ''dispatch_sk'']" for eid token n r
    by (rule sample_updates_if) (simp_all add: simps outcome_request_def)
  show "updates_if sample_store map_of
      (outcome_request sample_store eid token retry_update [('':attempts'', n), ('':reason'', r), ('':retry_at'', t)])
      (held_by token)
      [(''status'', AttrS ''pending''), (''attempts'', n), (''retry_at'', t), (''last_error'', r)]
      [''lease_until'', ''claim_token'']" for eid token n r t
    by (rule sample_updates_if) (simp_all add: simps outcome_request_def)
qed

lemma sample_documented: "dynamo_documented sample_store map_of"
  by (simp add: dynamo_documented_def sample_reads sample_puts sample_understands)

lemma sample_forward: "queries_forward sample_store map_of (\<lambda>_. 0)"
  by (simp add: queries_forward_def sample_store_def sample_query_def)

end
