(* ===== verification/PostgresStore.thy ===== *)
theory PostgresStore
  imports EventCodec
begin

text \<open>
  \<open>internal/transaction/adapters/postgres\<close>: the PostgreSQL store (\<open>store.go\<close>) and the migration of
  its schema (\<open>migrate.go\<close>). The calls of \<open>database/sql\<close> act on the state of the server and are
  parameters: each takes the SQL text and the arguments the code passes. A query of one row is one
  call together with its \<open>Scan\<close>; the rows of a claim are what their \<open>Scan\<close>s return, in order.
\<close>

subsection \<open>The database\<close>

datatype sql_value = SqlText go_string | SqlBytes raw_message | SqlTime gotime | SqlInt int

text \<open>The errors the code tells apart: \<open>sql.ErrNoRows\<close>, those with an \<open>SQLState\<close>, and all others.\<close>

datatype sql_error = NoRows | SqlState go_string | SqlFailure go_error

definition sql_go_error :: "sql_error \<Rightarrow> go_error" where
  "sql_go_error e =
     (case e of NoRows \<Rightarrow> External ''sql: no rows in result set'' | SqlState s \<Rightarrow> External s | SqlFailure x \<Rightarrow> x)"

text \<open>The columns of the identity query: transaction, fingerprint and event.\<close>

type_synonym identity_row = "go_string \<times> go_string \<times> go_string"

record claimed_row =
  cr_payload :: go_string
  cr_location :: raw_message
  cr_metadata :: raw_message
  cr_attempts :: int
  cr_token :: go_string

text \<open>The result of an \<open>Exec\<close> is what its \<open>RowsAffected\<close> returns.\<close>

type_synonym sql_result = "sql_error + int"

record ('d, 't) sql_db =
  db_ping :: "go_context \<Rightarrow> 'd \<Rightarrow> sql_error option \<times> 'd"
  db_begin :: "go_context \<Rightarrow> bool \<Rightarrow> 'd \<Rightarrow> (sql_error + 't) \<times> 'd"
  db_query_row :: "go_context \<Rightarrow> go_string \<Rightarrow> sql_value list \<Rightarrow> 'd \<Rightarrow> (sql_error + identity_row) \<times> 'd"
  db_query :: "go_context \<Rightarrow> go_string \<Rightarrow> sql_value list \<Rightarrow> 'd
     \<Rightarrow> (sql_error + (sql_error + claimed_row) list \<times> sql_error option) \<times> 'd"
  db_exec :: "go_context \<Rightarrow> go_string \<Rightarrow> sql_value list \<Rightarrow> 'd \<Rightarrow> (sql_error + sql_result) \<times> 'd"
  tx_query_row :: "'t \<Rightarrow> go_context \<Rightarrow> go_string \<Rightarrow> sql_value list \<Rightarrow> 'd \<Rightarrow> (sql_error + identity_row) \<times> 'd"
  tx_exec :: "'t \<Rightarrow> go_context \<Rightarrow> go_string \<Rightarrow> sql_value list \<Rightarrow> 'd \<Rightarrow> (sql_error + sql_result) \<times> 'd"
  tx_commit :: "'t \<Rightarrow> 'd \<Rightarrow> sql_error option \<times> 'd"
  tx_rollback :: "'t \<Rightarrow> 'd \<Rightarrow> 'd"

definition select_identity_sql :: go_string where
  "select_identity_sql = ''SELECT id, fingerprint, event_id FROM transactions WHERE source = $1 AND source_reference = $2 FOR UPDATE''"

definition read_identity_sql :: go_string where
  "read_identity_sql = ''SELECT id, fingerprint, event_id FROM transactions WHERE source = $1 AND source_reference = $2''"

definition insert_transaction_sql :: go_string where
  "insert_transaction_sql = ''INSERT INTO transactions (id, source, source_reference, fingerprint, payload, location_raw, metadata_raw, event_id) VALUES ($1, $2, $3, $4, $5, $6, $7, $8)''"

definition insert_outbox_sql :: go_string where
  "insert_outbox_sql = ''INSERT INTO outbox_events (event_id, event_payload, location_raw, metadata_raw, occurred_at, status, attempts) VALUES ($1, $2, $3, $4, $5, 'pending', 0)''"

definition claim_pending_sql :: go_string where
  "claim_pending_sql = ''WITH candidates AS (SELECT event_id FROM outbox_events WHERE status = 'pending' AND (retry_at IS NULL OR retry_at <= $1) AND (lease_until IS NULL OR lease_until <= $1) ORDER BY occurred_at FOR UPDATE SKIP LOCKED LIMIT $2) UPDATE outbox_events AS event SET lease_until = $3, claim_token = $4 FROM candidates WHERE event.event_id = candidates.event_id RETURNING event.event_payload, event.location_raw, event.metadata_raw, event.attempts, event.claim_token''"

definition mark_published_sql :: go_string where
  "mark_published_sql = ''UPDATE outbox_events SET status = 'published', published_at = $1, lease_until = NULL, claim_token = NULL WHERE event_id = $2 AND status = 'pending' AND claim_token = $3''"

definition record_failure_sql :: go_string where
  "record_failure_sql = ''UPDATE outbox_events SET status = $1, attempts = $2, retry_at = $3, last_error = $4, lease_until = NULL, claim_token = NULL WHERE event_id = $5 AND status = 'pending' AND claim_token = $6''"

definition pg_ready :: "('d, 't) sql_db \<Rightarrow> go_context \<Rightarrow> 'd \<Rightarrow> go_error option \<times> 'd" where
  "pg_ready db ctx d =
     (case db_ping db ctx d of
        (Some e, d') \<Rightarrow> (Some (Wrap ''check PostgreSQL readiness'' (sql_go_error e)), d')
      | (None, d') \<Rightarrow> (None, d'))"

subsection \<open>Accept\<close>

definition is_concurrency_conflict :: "sql_error \<Rightarrow> bool" where
  "is_concurrency_conflict e \<longleftrightarrow> e = SqlState ''23505'' \<or> e = SqlState ''40001''"

text \<open>What a stored identity answers to a submission with the fingerprint \<open>fp\<close>.\<close>

definition row_outcome :: "go_string \<Rightarrow> identity_row \<Rightarrow> store_outcome" where
  "row_outcome fp row =
     (case row of (tid, stored, eid) \<Rightarrow>
        if stored = fp then \<lparr>so_kind = StoreReplay, so_transaction_id = tid, so_event_id = eid\<rparr>
        else \<lparr>so_kind = StoreConflict, so_transaction_id = [], so_event_id = []\<rparr>)"

definition identity_args :: "acceptance \<Rightarrow> sql_value list" where
  "identity_args a = [SqlText (tx_source (acc_transaction a)), SqlText (tx_source_reference (acc_transaction a))]"

text \<open>The cause is only printed into the message of the error, and left out here.\<close>

definition classify_existing :: "('d, 't) sql_db \<Rightarrow> go_context \<Rightarrow> acceptance \<Rightarrow> 'd \<Rightarrow> store_outcome result \<times> 'd" where
  "classify_existing db ctx a d =
     (case db_query_row db ctx read_identity_sql (identity_args a) d of
        (Inl e, d') \<Rightarrow> (Inl (Wrap ''classify concurrent transaction'' (sql_go_error e)), d')
      | (Inr row, d') \<Rightarrow> (Inr (row_outcome (acc_fingerprint a) row), d'))"

definition transaction_args :: "acceptance \<Rightarrow> go_string \<Rightarrow> sql_value list" where
  "transaction_args a payload =
     (let t = acc_transaction a in
      [SqlText (tx_id t), SqlText (tx_source t), SqlText (tx_source_reference t), SqlText (acc_fingerprint a),
       SqlBytes (Some payload), SqlBytes (tx_location_raw t), SqlBytes (tx_metadata_raw t),
       SqlText (ev_id (acc_event a))])"

definition outbox_args :: "acceptance \<Rightarrow> go_string \<Rightarrow> sql_value list" where
  "outbox_args a payload =
     (let ev = acc_event a in
      [SqlText (ev_id ev), SqlBytes (Some payload), SqlBytes (tx_location_raw (ev_payload ev)),
       SqlBytes (tx_metadata_raw (ev_payload ev)), SqlTime (ev_occurred_at ev)])"

text \<open>The insertions of a new transaction and its event, and the commit.\<close>

definition insert_acceptance ::
  "('d, 't) sql_db \<Rightarrow> go_context \<Rightarrow> acceptance \<Rightarrow> go_string \<Rightarrow> go_string \<Rightarrow> 't \<Rightarrow> 'd \<Rightarrow> store_outcome result \<times> 'd" where
  "insert_acceptance db ctx a transaction_payload event_payload t d =
     (case tx_exec db t ctx insert_transaction_sql (transaction_args a transaction_payload) d of
        (Inl e, d2) \<Rightarrow>
          if is_concurrency_conflict e then classify_existing db ctx a (tx_rollback db t d2)
          else (Inl (Wrap ''insert transaction'' (sql_go_error e)), d2)
      | (Inr _, d2) \<Rightarrow>
          (case tx_exec db t ctx insert_outbox_sql (outbox_args a event_payload) d2 of
             (Inl e, d3) \<Rightarrow> (Inl (Wrap ''insert outbox event'' (sql_go_error e)), d3)
           | (Inr _, d3) \<Rightarrow>
               (case tx_commit db t d3 of
                  (Some e, d4) \<Rightarrow>
                    if is_concurrency_conflict e then classify_existing db ctx a d4
                    else (Inl (Wrap ''commit transaction acceptance'' (sql_go_error e)), d4)
                | (None, d4) \<Rightarrow>
                    (Inr \<lparr>so_kind = StoreAccepted, so_transaction_id = tx_id (acc_transaction a),
                          so_event_id = ev_id (acc_event a)\<rparr>, d4))))"

text \<open>The part of \<open>Accept\<close> inside the transaction \<open>t\<close>, up to the deferred rollback.\<close>

definition accept_in_tx ::
  "('d, 't) sql_db \<Rightarrow> go_context \<Rightarrow> acceptance \<Rightarrow> go_string \<Rightarrow> go_string \<Rightarrow> 't \<Rightarrow> 'd \<Rightarrow> store_outcome result \<times> 'd" where
  "accept_in_tx db ctx a transaction_payload event_payload t d =
     (case tx_query_row db t ctx select_identity_sql (identity_args a) d of
        (Inr row, d1) \<Rightarrow>
          (case tx_commit db t d1 of
             (Some e, d2) \<Rightarrow> (Inl (Wrap ''commit idempotency lookup'' (sql_go_error e)), d2)
           | (None, d2) \<Rightarrow> (Inr (row_outcome (acc_fingerprint a) row), d2))
      | (Inl e, d1) \<Rightarrow>
          if e \<noteq> NoRows then (Inl (Wrap ''lookup transaction identity'' (sql_go_error e)), d1)
          else insert_acceptance db ctx a transaction_payload event_payload t d1)"

definition pg_accept :: "('d, 't) sql_db \<Rightarrow> 'd accept_fn" where
  "pg_accept db ctx a d =
     (case marshal_transaction (acc_transaction a) of
        Inl e \<Rightarrow> (Inl (Wrap ''encode transaction'' e), d)
      | Inr tp \<Rightarrow>
          (case marshal_event (acc_event a) of
             Inl e \<Rightarrow> (Inl (Wrap ''encode outbox event'' e), d)
           | Inr ep \<Rightarrow>
               (case db_begin db ctx True d of
                  (Inl e, d1) \<Rightarrow> (Inl (Wrap ''begin transaction acceptance'' (sql_go_error e)), d1)
                | (Inr t, d1) \<Rightarrow>
                    (case accept_in_tx db ctx a tp ep t d1 of
                       (Inl e, d2) \<Rightarrow> (Inl e, tx_rollback db t d2)
                     | (Inr out, d2) \<Rightarrow> (Inr out, d2)))))"

subsection \<open>ClaimPending\<close>

definition row_raw :: "raw_message \<Rightarrow> raw_message \<Rightarrow> raw_message" where
  "row_raw stored cur = (case stored of None \<Rightarrow> cur | Some b \<Rightarrow> if b = [] then None else Some b)"

definition decode_row :: "claimed_row \<Rightarrow> pending_event result" where
  "decode_row r =
     (case unmarshal_event (cr_payload r) of
        Inl e \<Rightarrow> Inl (Wrap ''decode claimed outbox event'' (json_go_error e))
      | Inr ev \<Rightarrow>
          (let p = ev_payload ev in
           Inr \<lparr>pe_event = ev\<lparr>ev_payload := p\<lparr>tx_location_raw := row_raw (cr_location r) (tx_location_raw p),
                                              tx_metadata_raw := row_raw (cr_metadata r) (tx_metadata_raw p)\<rparr>\<rparr>,
                pe_attempts = cr_attempts r, pe_claim_token = cr_token r\<rparr>))"

fun scan_rows :: "(sql_error + claimed_row) list \<Rightarrow> pending_event list \<Rightarrow> pending_event list result" where
  "scan_rows [] events = Inr events"
| "scan_rows (Inl e # rs) events = Inl (Wrap ''scan claimed outbox event'' (sql_go_error e))"
| "scan_rows (Inr r # rs) events =
     (case decode_row r of Inl e \<Rightarrow> Inl e | Inr p \<Rightarrow> scan_rows rs (events @ [p]))"

definition claim_args :: "gotime \<Rightarrow> int \<Rightarrow> duration \<Rightarrow> go_string \<Rightarrow> sql_value list" where
  "claim_args now limit lease token = [SqlTime now, SqlInt limit, SqlTime (time_add now lease), SqlText token]"

text \<open>\<open>make\<close> with a negative capacity panics.\<close>

definition pg_claim :: "('d, 't) sql_db \<Rightarrow> 'd claim_fn" where
  "pg_claim db ctx tokens now lease limit d =
     (case db_query db ctx claim_pending_sql (claim_args now limit lease (tokens 0)) d of
        (Inl e, d') \<Rightarrow> (Inl (Wrap ''claim pending outbox events'' (sql_go_error e)), d')
      | (Inr (rows, err), d') \<Rightarrow>
          (if limit < 0 then Inl (External ''panic: makeslice: cap out of range'')
           else
             (case scan_rows rows [] of
                Inl e \<Rightarrow> Inl e
              | Inr events \<Rightarrow>
                  (case err of
                     Some e \<Rightarrow> Inl (Wrap ''iterate claimed outbox events'' (sql_go_error e))
                   | None \<Rightarrow> Inr events)), d'))"

subsection \<open>Outcomes\<close>

definition require_claim_updated :: "sql_result \<Rightarrow> go_string \<Rightarrow> go_error option" where
  "require_claim_updated res eid =
     (case res of
        Inl e \<Rightarrow> Some (Wrap ''read outbox update result'' (sql_go_error e))
      | Inr rows \<Rightarrow> if rows \<noteq> 1 then Some (Wrap (''outbox event '' @ eid) ErrLeaseLost) else None)"

definition mark_args :: "gotime \<Rightarrow> go_string \<Rightarrow> go_string \<Rightarrow> sql_value list" where
  "mark_args at eid token = [SqlTime at, SqlText eid, SqlText token]"

definition pg_mark :: "('d, 't) sql_db \<Rightarrow> 'd mark_fn" where
  "pg_mark db ctx eid token at d =
     (case db_exec db ctx mark_published_sql (mark_args at eid token) d of
        (Inl e, d') \<Rightarrow> (Some (Wrap ''mark outbox event published'' (sql_go_error e)), d')
      | (Inr res, d') \<Rightarrow> (require_claim_updated res eid, d'))"

definition failure_args :: "publish_failure \<Rightarrow> sql_value list" where
  "failure_args f =
     [SqlText (if pf_terminal f then ''failed'' else ''pending''), SqlInt (pf_attempts f), SqlTime (pf_retry_at f),
      SqlText (pf_reason f), SqlText (pf_event_id f), SqlText (pf_claim_token f)]"

definition pg_record_failure :: "('d, 't) sql_db \<Rightarrow> 'd fail_fn" where
  "pg_record_failure db ctx f d =
     (case db_exec db ctx record_failure_sql (failure_args f) d of
        (Inl e, d') \<Rightarrow> (Some (Wrap ''record outbox event failure'' (sql_go_error e)), d')
      | (Inr res, d') \<Rightarrow> (require_claim_updated res (pf_event_id f), d'))"

subsection \<open>Migration\<close>

definition migration_lock_sql :: go_string where
  "migration_lock_sql = ''SELECT pg_advisory_xact_lock($1)''"

text \<open>\<open>schema\<close> is the embedded text of \<open>schema.sql\<close>. The deferred rollback runs on every path.\<close>

definition migrate_in_tx :: "('d, 't) sql_db \<Rightarrow> go_context \<Rightarrow> go_string \<Rightarrow> 't \<Rightarrow> 'd \<Rightarrow> go_error option \<times> 'd" where
  "migrate_in_tx db ctx schema t d =
     (case tx_exec db t ctx migration_lock_sql [SqlInt 742021680] d of
        (Inl e, d1) \<Rightarrow> (Some (Wrap ''lock PostgreSQL schema migration'' (sql_go_error e)), d1)
      | (Inr _, d1) \<Rightarrow>
          (case tx_exec db t ctx schema [] d1 of
             (Inl e, d2) \<Rightarrow> (Some (Wrap ''apply PostgreSQL schema'' (sql_go_error e)), d2)
           | (Inr _, d2) \<Rightarrow>
               (case tx_commit db t d2 of
                  (Some e, d3) \<Rightarrow> (Some (Wrap ''commit PostgreSQL schema migration'' (sql_go_error e)), d3)
                | (None, d3) \<Rightarrow> (None, d3))))"

definition pg_migrate :: "('d, 't) sql_db \<Rightarrow> go_context \<Rightarrow> go_string \<Rightarrow> 'd \<Rightarrow> go_error option \<times> 'd" where
  "pg_migrate db ctx schema d =
     (case db_begin db ctx False d of
        (Inl e, d1) \<Rightarrow> (Some (Wrap ''begin PostgreSQL schema migration'' (sql_go_error e)), d1)
      | (Inr t, d1) \<Rightarrow>
          (case migrate_in_tx db ctx schema t d1 of (e, d2) \<Rightarrow> (e, tx_rollback db t d2)))"

end
