(* ===== verification/DynamoTable.thy ===== *)
theory DynamoTable
  imports Intake
begin

text \<open>
  \<open>internal/transaction/adapters/dynamodb/table.go\<close>: making sure that the table exists and is
  active. The control plane is a parameter: \<open>describe\<close> and \<open>create\<close> act on its state. The wait
  between two polls is the \<open>n\<close>-th value of \<open>waits\<close>, an error when the context ends first.
\<close>

datatype table_status = TableActive | TableOther

datatype describe_error = TableMissing | DescribeFailed go_error

datatype create_error = TableInUse | CreateFailed go_error

type_synonym 'd describe_fn = "go_string \<Rightarrow> 'd \<Rightarrow> (describe_error + table_status option) \<times> 'd"

record table_input =
  ti_table :: go_string
  ti_attributes :: "(go_string \<times> go_string) list"
  ti_key_schema :: "(go_string \<times> go_string) list"
  ti_index :: go_string
  ti_index_key_schema :: "(go_string \<times> go_string) list"
  ti_pay_per_request :: bool

type_synonym 'd create_fn = "table_input \<Rightarrow> 'd \<Rightarrow> create_error option \<times> 'd"

definition table_input_of :: "go_string \<Rightarrow> table_input" where
  "table_input_of table =
     \<lparr>ti_table = table,
      ti_attributes = [(''pk'', ''S''), (''sk'', ''S''), (''dispatch_pk'', ''S''), (''dispatch_sk'', ''S'')],
      ti_key_schema = [(''pk'', ''HASH''), (''sk'', ''RANGE'')],
      ti_index = ''outbox-dispatch'',
      ti_index_key_schema = [(''dispatch_pk'', ''HASH''), (''dispatch_sk'', ''RANGE'')],
      ti_pay_per_request = True\<rparr>"

definition describe_go_error :: "describe_error \<Rightarrow> go_error" where
  "describe_go_error e = (case e of TableMissing \<Rightarrow> External ''ResourceNotFoundException'' | DescribeFailed x \<Rightarrow> x)"

text \<open>The polling loop; \<open>None\<close> means that it never ends.\<close>

partial_function (option) await_table ::
  "'d describe_fn \<Rightarrow> (nat \<Rightarrow> go_error option) \<Rightarrow> go_string \<Rightarrow> nat \<Rightarrow> 'd \<Rightarrow> (go_error option \<times> 'd) option" where
  "await_table describe waits table n d =
     (case describe table d of
        (Inl e, d') \<Rightarrow> Some (Some (Wrap ''wait for DynamoDB table'' (describe_go_error e)), d')
      | (Inr st, d') \<Rightarrow>
          if st = Some TableActive then Some (None, d')
          else (case waits n of
                  Some e \<Rightarrow> Some (Some (Wrap ''wait for DynamoDB table'' e), d')
                | None \<Rightarrow> await_table describe waits table (n + 1) d'))"

definition ensure_table ::
  "'d describe_fn \<Rightarrow> 'd create_fn \<Rightarrow> (nat \<Rightarrow> go_error option) \<Rightarrow> go_string \<Rightarrow> 'd \<Rightarrow> (go_error option \<times> 'd) option" where
  "ensure_table describe create waits table d =
     (if table = [] then Some (Some (Errorf ''DynamoDB table name is required''), d)
      else
        (case describe table d of
           (Inr st, d1) \<Rightarrow>
             if st = Some TableActive then Some (None, d1) else await_table describe waits table 0 d1
         | (Inl (DescribeFailed e), d1) \<Rightarrow> Some (Some (Wrap ''describe DynamoDB table'' e), d1)
         | (Inl TableMissing, d1) \<Rightarrow>
             (case create (table_input_of table) d1 of
                (Some (CreateFailed e), d2) \<Rightarrow> Some (Some (Wrap ''create DynamoDB table'' e), d2)
              | (_, d2) \<Rightarrow> await_table describe waits table 0 d2)))"

subsection \<open>Facts\<close>

text \<open>The state of the control plane at the \<open>n\<close>-th poll.\<close>

fun poll_state :: "'d describe_fn \<Rightarrow> go_string \<Rightarrow> nat \<Rightarrow> 'd \<Rightarrow> 'd" where
  "poll_state describe table 0 d = d"
| "poll_state describe table (Suc n) d = poll_state describe table n (snd (describe table d))"

text \<open>The loop ends as soon as one poll finds the table active, or one wait is cut short.\<close>

lemma await_table_returns:
  assumes "fst (describe table (poll_state describe table k d)) = Inr (Some TableActive) \<or> waits (n + k) \<noteq> None"
  shows "\<exists>r. await_table describe waits table n d = Some r"
  using assms
proof (induction k arbitrary: n d)
  case 0
  then show ?case
    by (subst await_table.simps) (auto split: prod.split sum.split option.split)
next
  case (Suc k)
  obtain r d' where d: "describe table d = (r, d')" by fastforce
  have "\<exists>x. await_table describe waits table (n + 1) d' = Some x"
    using Suc.prems d by (intro Suc.IH) auto
  then show ?case using d by (subst await_table.simps) (auto split: sum.split option.split)
qed

text \<open>Success means that the table was seen active.\<close>

lemma await_table_active:
  assumes "await_table describe waits table n d = Some (None, d')"
  shows "\<exists>k. describe table (poll_state describe table k d) = (Inr (Some TableActive), d')"
proof -
  have "fst r = None \<longrightarrow> (\<exists>k. describe table (poll_state describe table k d) = (Inr (Some TableActive), snd r))"
    if "await_table describe waits table n d = Some r" for r
  proof (rule await_table.raw_induct [OF _ that, where P = "\<lambda>describe waits table n d r. fst r = None \<longrightarrow>
      (\<exists>k. describe table (poll_state describe table k d) = (Inr (Some TableActive), snd r))"])
    fix await describe waits table n d r
    assume IH: "\<And>describe waits table n d r. await describe waits table n d = Some r \<Longrightarrow> fst r = None \<longrightarrow>
        (\<exists>k. describe table (poll_state describe table k d) = (Inr (Some TableActive), snd r))"
      and run: "(case describe table d of
          (Inl e, d') \<Rightarrow> Some (Some (Wrap ''wait for DynamoDB table'' (describe_go_error e)), d')
        | (Inr st, d') \<Rightarrow>
            if st = Some TableActive then Some (None, d')
            else (case waits n of
                    Some e \<Rightarrow> Some (Some (Wrap ''wait for DynamoDB table'' e), d')
                  | None \<Rightarrow> await describe waits table (n + 1) d')) = Some r"
    show "fst r = None \<longrightarrow> (\<exists>k. describe table (poll_state describe table k d) = (Inr (Some TableActive), snd r))"
    proof
    assume ok: "fst r = None"
    obtain st d1 where d: "describe table d = (st, d1)" by fastforce
    with run ok obtain s where s: "st = Inr s" by (auto split: sum.splits)
    show "\<exists>k. describe table (poll_state describe table k d) = (Inr (Some TableActive), snd r)"
    proof (cases "s = Some TableActive")
      case True
      with run d s show ?thesis by (intro exI [of _ 0]) auto
    next
      case False
      with run ok d s have "await describe waits table (n + 1) d1 = Some r" by (auto split: option.splits)
      from IH [OF this] ok obtain k where
        "describe table (poll_state describe table k d1) = (Inr (Some TableActive), snd r)" by blast
      with d show ?thesis by (intro exI [of _ "Suc k"]) simp
    qed
    qed
  qed
  from this [OF assms] show ?thesis by simp
qed

end
