(* ===== verification/Starters.thy ===== *)
theory Starters
  imports Runtime DynamoSystem PostgresStore DynamoTable
begin

text \<open>
  The starters of \<open>cmd/transaction-service/runtime.go\<close>: the store that the configuration names is
  opened behind one handle, the handler and the dispatcher work on that handle, and it is closed at
  the end. The theory also holds the command line of \<open>cmd/topic-bootstrap\<close> and both \<open>main\<close>s.

  One state holds what the four stores keep; only the part of the opened store is used. What
  the operating system, the database and AWS answer while a store is opened are parameters.
\<close>

subsection \<open>The handle of a store\<close>

record ('p, 'd) world =
  wd_memory :: mem_store
  wd_ndjson :: nd_store
  wd_postgres :: 'p
  wd_dynamo :: 'd

text \<open>\<open>storeHandle\<close>: the store's operations, its readiness check if it has one, and how it is closed.\<close>

record 'w store_handle =
  sh_accept :: "'w accept_fn"
  sh_claim :: "'w claim_fn"
  sh_mark :: "'w mark_fn"
  sh_fail :: "'w fail_fn"
  sh_checker :: "(go_context \<Rightarrow> 'w \<Rightarrow> go_error option \<times> 'w) option"
  sh_close :: "('w \<Rightarrow> go_error option \<times> 'w) option"

definition handle_ready :: "'w store_handle \<Rightarrow> go_context \<Rightarrow> 'w \<Rightarrow> go_error option \<times> 'w" where
  "handle_ready h ctx w =
     (case sh_checker h of
        None \<Rightarrow> (Some (Errorf ''store does not implement readiness''), w)
      | Some probe \<Rightarrow> probe ctx w)"

definition handle_close :: "'w store_handle \<Rightarrow> 'w \<Rightarrow> go_error option \<times> 'w" where
  "handle_close h w = (case sh_close h of None \<Rightarrow> (None, w) | Some close \<Rightarrow> close w)"

text \<open>An operation on one part of the state.\<close>

definition on_part :: "('w \<Rightarrow> 's) \<Rightarrow> (('s \<Rightarrow> 's) \<Rightarrow> 'w \<Rightarrow> 'w) \<Rightarrow> ('s \<Rightarrow> 'r \<times> 's) \<Rightarrow> 'w \<Rightarrow> 'r \<times> 'w" where
  "on_part get upd f w = (case f (get w) of (r, s) \<Rightarrow> (r, upd (\<lambda>_. s) w))"

definition handle_on ::
  "('w \<Rightarrow> 's) \<Rightarrow> (('s \<Rightarrow> 's) \<Rightarrow> 'w \<Rightarrow> 'w) \<Rightarrow> 's accept_fn \<Rightarrow> 's claim_fn \<Rightarrow> 's mark_fn \<Rightarrow> 's fail_fn
     \<Rightarrow> (go_context \<Rightarrow> 's \<Rightarrow> go_error option \<times> 's) \<Rightarrow> ('s \<Rightarrow> go_error option \<times> 's) option \<Rightarrow> 'w store_handle" where
  "handle_on get upd accept claim mark rf ready close =
     \<lparr>sh_accept = (\<lambda>ctx a. on_part get upd (accept ctx a)),
      sh_claim = (\<lambda>ctx tokens now lease limit. on_part get upd (claim ctx tokens now lease limit)),
      sh_mark = (\<lambda>ctx eid tok at. on_part get upd (mark ctx eid tok at)),
      sh_fail = (\<lambda>ctx f. on_part get upd (rf ctx f)),
      sh_checker = Some (\<lambda>ctx. on_part get upd (ready ctx)),
      sh_close = map_option (on_part get upd) close\<rparr>"

definition memory_handle :: "('p, 'd) world store_handle" where
  "memory_handle = handle_on wd_memory wd_memory_update mem_accept mem_claim mem_mark mem_record_failure
     (\<lambda>ctx s. (mem_ready ctx, s)) None"

definition ndjson_handle :: "('p, 'd) world store_handle" where
  "ndjson_handle = handle_on wd_ndjson wd_ndjson_update nd_accept nd_claim nd_mark nd_record_failure
     (\<lambda>ctx s. (nd_ready ctx, s)) None"

definition postgres_handle ::
  "('p, 't) sql_db \<Rightarrow> ('p \<Rightarrow> go_error option \<times> 'p) \<Rightarrow> ('p, 'd) world store_handle" where
  "postgres_handle db close = handle_on wd_postgres wd_postgres_update (pg_accept db) (pg_claim db) (pg_mark db)
     (pg_record_failure db) (pg_ready db) (Some close)"

text \<open>The port is a function: a claim that never returns, on pages that never end, has a value of its own.\<close>

definition dynamo_claim_value :: "'d dynamo_store \<Rightarrow> 'd claim_fn" where
  "dynamo_claim_value st ctx tokens now lease limit d =
     (case dynamo_claim st ctx tokens now lease limit d of
        Some r \<Rightarrow> r | None \<Rightarrow> (Inl (External ''ClaimPending does not return''), d))"

definition dynamo_handle :: "'d dynamo_client \<Rightarrow> go_string \<Rightarrow> ('p, 'd) world store_handle" where
  "dynamo_handle client table =
     (let st = \<lparr>ds_client = client, ds_table = table\<rparr> in
      handle_on wd_dynamo wd_dynamo_update (dynamo_accept st) (dynamo_claim_value st) (dynamo_mark st)
        (dynamo_record_failure st) (dynamo_ready st) None)"

subsection \<open>Opening the store\<close>

text \<open>
  What opening meets: creating the directory and loading the log, the database with its driver and
  its schema, the AWS configuration with its client, and the table with its polls.
\<close>

record ('p, 't, 'd) platform =
  pf_mkdir :: "go_error option"
  pf_log :: "go_string \<Rightarrow> nd_store result"
  pf_sql_open :: "go_error option"
  pf_db :: "('p, 't) sql_db"
  pf_db_close :: "'p \<Rightarrow> go_error option \<times> 'p"
  pf_schema :: go_string
  pf_aws_config :: "go_error option"
  pf_client :: "'d dynamo_client"
  pf_describe :: "'d describe_fn"
  pf_create :: "'d create_fn"
  pf_waits :: "nat \<Rightarrow> go_error option"

text \<open>A database that cannot be reached or migrated is closed again.\<close>

definition open_postgres ::
  "('p, 't, 'd) platform \<Rightarrow> go_context \<Rightarrow> ('p, 'd) world \<Rightarrow> ('p, 'd) world store_handle result \<times> ('p, 'd) world" where
  "open_postgres pf ctx w =
     (case pf_sql_open pf of
        Some e \<Rightarrow> (Inl (Wrap ''open PostgreSQL store'' e), w)
      | None \<Rightarrow>
          (let closed = (\<lambda>p. w\<lparr>wd_postgres := snd (pf_db_close pf p)\<rparr>) in
           case db_ping (pf_db pf) ctx (wd_postgres w) of
             (Some e, p) \<Rightarrow> (Inl (Wrap ''connect PostgreSQL store'' (sql_go_error e)), closed p)
           | (None, p) \<Rightarrow>
               (case pg_migrate (pf_db pf) ctx (pf_schema pf) p of
                  (Some e, p') \<Rightarrow> (Inl e, closed p')
                | (None, p') \<Rightarrow> (Inr (postgres_handle (pf_db pf) (pf_db_close pf)), w\<lparr>wd_postgres := p'\<rparr>))))"

text \<open>\<open>dynamoConfig\<close>: a given endpoint needs no AWS configuration.\<close>

definition dynamo_config :: "go_error option \<Rightarrow> config \<Rightarrow> go_error option" where
  "dynamo_config aws c =
     (if cf_dynamo_endpoint c \<noteq> [] then None else map_option (Wrap ''load AWS configuration'') aws)"

text \<open>The table is only made sure of at a given endpoint; \<open>None\<close> is a wait that never ends.\<close>

definition open_dynamo ::
  "('p, 't, 'd) platform \<Rightarrow> config \<Rightarrow> ('p, 'd) world \<Rightarrow> (('p, 'd) world store_handle result \<times> ('p, 'd) world) option" where
  "open_dynamo pf c w =
     (case dynamo_config (pf_aws_config pf) c of
        Some e \<Rightarrow> Some (Inl e, w)
      | None \<Rightarrow>
          (let h = dynamo_handle (pf_client pf) (cf_dynamo_table c) in
           if cf_dynamo_endpoint c = [] then Some (Inr h, w)
           else
             (case ensure_table (pf_describe pf) (pf_create pf) (pf_waits pf) (cf_dynamo_table c) (wd_dynamo w) of
                None \<Rightarrow> None
              | Some (Some e, d) \<Rightarrow> Some (Inl e, w\<lparr>wd_dynamo := d\<rparr>)
              | Some (None, d) \<Rightarrow> Some (Inr h, w\<lparr>wd_dynamo := d\<rparr>))))"

definition new_store ::
  "('p, 't, 'd) platform \<Rightarrow> go_context \<Rightarrow> mode \<Rightarrow> config \<Rightarrow> ('p, 'd) world
     \<Rightarrow> (('p, 'd) world store_handle result \<times> ('p, 'd) world) option" where
  "new_store pf ctx m c w =
     (if cf_store_driver c = [] \<or> cf_store_driver c = ''memory''
      then Some (Inr memory_handle, w\<lparr>wd_memory := mem_new_store\<rparr>)
      else if cf_store_driver c = ''ndjson'' then
        Some (if m \<noteq> ModeLocal
              then (Inl (Errorf ''NDJSON storage is supported only in combined local mode''), w)
              else (case pf_mkdir pf of
                      Some e \<Rightarrow> (Inl (Wrap ''create NDJSON store directory'' e), w)
                    | None \<Rightarrow>
                        (case pf_log pf (cf_store_path c) of
                           Inl e \<Rightarrow> (Inl e, w)
                         | Inr s \<Rightarrow> (Inr ndjson_handle, w\<lparr>wd_ndjson := s\<rparr>))))
      else if cf_store_driver c = ''postgres'' then Some (open_postgres pf ctx w)
      else if cf_store_driver c = ''dynamodb'' then open_dynamo pf c w
      else Some (Inl (Errorq ''store driver %q is not wired'' (cf_store_driver c)), w))"

subsection \<open>Serving\<close>

text \<open>
  One request with what the process draws for it: identifiers, the clock, a request identifier
  and the context of the readiness check. The probe's own effect on a server is left out.
\<close>

record exchange =
  ex_request :: http_request
  ex_ids :: "nat \<Rightarrow> go_string"
  ex_now :: gotime
  ex_rid :: go_string
  ex_probe :: go_context

definition serve_exchange ::
  "'w store_handle \<Rightarrow> config \<Rightarrow> exchange \<Rightarrow> 'w \<Rightarrow> http_response option \<times> 'w" where
  "serve_exchange h c x w =
     (let ready = ready_for_requests (Some (fst (handle_ready h (ex_probe x) w)));
          hl = api_handler c (sh_accept h) (ex_ids x) (ex_now x) (ex_rid x) ready
      in case serve_http hl (ex_request x) w of None \<Rightarrow> (None, w) | Some (rsp, w') \<Rightarrow> (Some rsp, w'))"

text \<open>
  The work of a process in the order of its effects: requests and batches of the worker. The
  publisher's state stands beside the store's.
\<close>

datatype work = Serve exchange | Batch round

definition handle_batch ::
  "'w store_handle \<Rightarrow> 'q publish_fn \<Rightarrow> round \<Rightarrow> 'w \<times> 'q \<Rightarrow> (go_error option \<times> dispatch_result) \<times> 'w \<times> 'q" where
  "handle_batch h publish =
     worker_batch (on_store_claim (sh_claim h)) (on_store_mark (sh_mark h)) (on_store_fail (sh_fail h))
       (on_publisher publish)"

fun run_work ::
  "'w store_handle \<Rightarrow> config \<Rightarrow> 'q publish_fn \<Rightarrow> work list \<Rightarrow> 'w \<times> 'q \<Rightarrow> http_response option list \<times> 'w \<times> 'q" where
  "run_work h c publish [] w = ([], w)"
| "run_work h c publish (Serve x # ws) w =
     (case serve_exchange h c x (fst w) of (rsp, s) \<Rightarrow>
        (case run_work h c publish ws (s, snd w) of (rs, w') \<Rightarrow> (rsp # rs, w')))"
| "run_work h c publish (Batch rd # ws) w = run_work h c publish ws (snd (handle_batch h publish rd w))"

subsection \<open>The starters\<close>

text \<open>
  How the program meets Kafka: making a writer from its settings, sending with it, closing it.
  A starter closes the writer and then the store on every way out; their errors are dropped.
\<close>

record 'q kafka =
  kf_new :: "writer_config \<Rightarrow> kafka_writer result"
  kf_send :: "kafka_writer \<Rightarrow> 'q message_writer"
  kf_close :: "kafka_writer \<Rightarrow> 'q \<Rightarrow> 'q"

definition with_store ::
  "('p, 't, 'd) platform \<Rightarrow> go_context \<Rightarrow> mode \<Rightarrow> config
     \<Rightarrow> (('p, 'd) world store_handle \<Rightarrow> ('p, 'd) world \<times> 'q \<Rightarrow> (go_error option \<times> ('p, 'd) world \<times> 'q) option)
     \<Rightarrow> ('p, 'd) world \<times> 'q \<Rightarrow> (go_error option \<times> ('p, 'd) world \<times> 'q) option" where
  "with_store pf ctx m c body w =
     (case new_store pf ctx m c (fst w) of
        None \<Rightarrow> None
      | Some (Inl e, s) \<Rightarrow> Some (Some e, s, snd w)
      | Some (Inr h, s) \<Rightarrow>
          map_option (\<lambda>(e, s', q). (e, snd (handle_close h s'), q)) (body h (s, snd w)))"

definition with_dispatcher ::
  "'q kafka \<Rightarrow> config \<Rightarrow> ('q publish_fn \<Rightarrow> 's \<times> 'q \<Rightarrow> (go_error option \<times> 's \<times> 'q) option)
     \<Rightarrow> 's \<times> 'q \<Rightarrow> (go_error option \<times> 's \<times> 'q) option" where
  "with_dispatcher kf c body w =
     (case new_dispatcher (kf_new kf) c of
        Inl e \<Rightarrow> Some (Some e, w)
      | Inr (writer, topic) \<Rightarrow>
          map_option (\<lambda>(e, s, q). (e, s, kf_close kf writer q)) (body (kafka_publish (kf_send kf writer) topic) w))"

definition start_api ::
  "('p, 't, 'd) platform \<Rightarrow> go_context \<Rightarrow> exchange list \<Rightarrow> go_error option \<Rightarrow> config \<Rightarrow> ('p, 'd) world \<times> 'q
     \<Rightarrow> (go_error option \<times> ('p, 'd) world \<times> 'q) option" where
  "start_api pf ctx xs listen c =
     with_store pf ctx ModeAPI c (\<lambda>h w.
       Some (serve_http_server listen, fold (\<lambda>x s. snd (serve_exchange h c x s)) xs (fst w), snd w))"

definition start_worker ::
  "('p, 't, 'd) platform \<Rightarrow> 'q kafka \<Rightarrow> go_context \<Rightarrow> (nat \<Rightarrow> round) \<Rightarrow> config \<Rightarrow> ('p, 'd) world \<times> 'q
     \<Rightarrow> (go_error option \<times> ('p, 'd) world \<times> 'q) option" where
  "start_worker pf kf ctx rounds c =
     with_store pf ctx ModeWorker c (\<lambda>h. with_dispatcher kf c (\<lambda>publish.
       worker_loop (handle_batch h publish) rounds 0))"

text \<open>\<open>ws\<close> is the work that took effect before the first of the three events ended the process.\<close>

definition start_local ::
  "('p, 't, 'd) platform \<Rightarrow> 'q kafka \<Rightarrow> go_context \<Rightarrow> work list \<Rightarrow> local_event \<Rightarrow> config \<Rightarrow> ('p, 'd) world \<times> 'q
     \<Rightarrow> (go_error option \<times> ('p, 'd) world \<times> 'q) option" where
  "start_local pf kf ctx ws ev c =
     with_store pf ctx ModeLocal c (\<lambda>h. with_dispatcher kf c (\<lambda>publish w.
       Some (local_result ev, snd (run_work h c publish ws w))))"

text \<open>\<open>productionStarters\<close>: every mode has a starter.\<close>

definition production_starters ::
  "(config \<Rightarrow> 'a) \<Rightarrow> (config \<Rightarrow> 'a) \<Rightarrow> (config \<Rightarrow> 'a) \<Rightarrow> mode \<Rightarrow> (config \<Rightarrow> 'a) option" where
  "production_starters api worker local m =
     Some (case m of ModeAPI \<Rightarrow> api | ModeWorker \<Rightarrow> worker | ModeLocal \<Rightarrow> local)"

text \<open>
  \<open>run\<close>, \<open>execute\<close> and \<open>main\<close>: the service with the production provider of secrets, and its exit code.
\<close>

definition run_production ::
  "go_context \<Rightarrow> (go_string \<Rightarrow> (go_string \<times> go_string) list result) \<Rightarrow> bool
     \<Rightarrow> (go_string \<Rightarrow> (go_string \<times> go_string) list result)
     \<Rightarrow> (mode \<Rightarrow> (config \<Rightarrow> 'q \<Rightarrow> go_error option \<times> 'q) option) \<Rightarrow> go_string list \<Rightarrow> lookup \<Rightarrow> 'q \<Rightarrow> go_error option \<times> 'q" where
  "run_production ctx load_file config_ok load_aws starters arguments lookup q =
     run_service load_file (Some (production_aws_provider ctx config_ok)) load_aws starters arguments lookup q"

definition service_main ::
  "go_context \<Rightarrow> (go_string \<Rightarrow> (go_string \<times> go_string) list result) \<Rightarrow> bool
     \<Rightarrow> (go_string \<Rightarrow> (go_string \<times> go_string) list result)
     \<Rightarrow> (mode \<Rightarrow> (config \<Rightarrow> 'q \<Rightarrow> go_error option \<times> 'q) option) \<Rightarrow> go_string list \<Rightarrow> lookup \<Rightarrow> 'q \<Rightarrow> int \<times> 'q" where
  "service_main ctx load_file config_ok load_aws starters arguments lookup q =
     (case run_production ctx load_file config_ok load_aws starters arguments lookup q of
        (e, q') \<Rightarrow> (if e \<noteq> None then 1 else 0, q'))"

subsection \<open>The command line of the topic bootstrap\<close>

definition topic_execute ::
  "(nat \<Rightarrow> nat \<Rightarrow> nat \<Rightarrow> nat) \<Rightarrow> (topic_settings \<Rightarrow> 'q \<Rightarrow> go_error option \<times> 'q) \<Rightarrow> lookup \<Rightarrow> 'q
     \<Rightarrow> topic_settings result \<times> 'q" where
  "topic_execute sf bootstrap lookup q =
     (case load_topic_settings sf lookup of
        Inl e \<Rightarrow> (Inl e, q)
      | Inr s \<Rightarrow> (case bootstrap s q of (Some e, q') \<Rightarrow> (Inl e, q') | (None, q') \<Rightarrow> (Inr s, q')))"

definition run_cli ::
  "(nat \<Rightarrow> nat \<Rightarrow> nat \<Rightarrow> nat) \<Rightarrow> (topic_settings \<Rightarrow> 'q \<Rightarrow> go_error option \<times> 'q) \<Rightarrow> lookup \<Rightarrow> 'q
     \<Rightarrow> go_error option \<times> 'q" where
  "run_cli sf bootstrap lookup q =
     (case topic_execute sf bootstrap lookup q of (Inl e, q') \<Rightarrow> (Some e, q') | (Inr _, q') \<Rightarrow> (None, q'))"

text \<open>\<open>main\<close>: the exit code of the production run.\<close>

definition topic_main ::
  "(lookup \<Rightarrow> lookup result) \<Rightarrow> (nat \<Rightarrow> nat \<Rightarrow> nat \<Rightarrow> nat) \<Rightarrow> (security_config \<Rightarrow> kafka_dialer result)
     \<Rightarrow> (kafka_dialer \<Rightarrow> topic_settings \<Rightarrow> 'q \<Rightarrow> go_error option \<times> 'q) \<Rightarrow> lookup \<Rightarrow> 'q \<Rightarrow> int \<times> 'q" where
  "topic_main config_lookup sf dialer bootstrap lookup q =
     (case run_production_cli config_lookup sf dialer bootstrap lookup q of (e, q') \<Rightarrow> (exit_code e, q'))"

text \<open>The production run is the plain one over the configured lookup, with the dialer checked first.\<close>

lemma run_production_cli_plain:
  assumes "config_lookup lookup0 = Inr lookup" "\<And>s. load_topic_settings sf lookup = Inr s \<Longrightarrow> dialer (ts_security s) = Inr d"
  shows "run_production_cli config_lookup sf dialer bootstrap lookup0 q = run_cli sf (bootstrap d) lookup q"
  using assms by (auto simp: run_production_cli_def secure_kafka_dial_def run_cli_def topic_execute_def split: sum.split option.split prod.split)

end
