(* ===== verification/RawMembers.thy ===== *)
theory RawMembers
  imports JsonPrefix
begin

text \<open>
  An object decoded into raw messages holds, under each name, the bytes of the value that a
  full parse of the object finds there. With it, \<open>Decode\<close> of a stream that holds one value is
  \<open>Unmarshal\<close> of the whole stream.
\<close>

subsection \<open>Nesting and fuel\<close>

text \<open>What parses at one nesting depth parses at every smaller one.\<close>

lemma parse_depth:
  shows "parse_value f d s = Inr v \<Longrightarrow> d' \<le> d \<Longrightarrow> parse_value f d' s = Inr v"
    and "parse_elems f d s = Inr vs \<Longrightarrow> d' \<le> d \<Longrightarrow> parse_elems f d' s = Inr vs"
    and "parse_members f d s = Inr kvs \<Longrightarrow> d' \<le> d \<Longrightarrow> parse_members f d' s = Inr kvs"
proof (induction f d s and f d s and f d s arbitrary: d' v and d' vs and d' kvs
    rule: parse_value_parse_elems_parse_members.induct)
  case (2 f d s)
  from "2.prems" obtain c cs where s: "skip_ws s = c # cs" by (cases "skip_ws s") auto
  consider "c = CHR ''{''" | "c = CHR ''[''" | "c \<noteq> CHR ''{''" "c \<noteq> CHR ''[''" by blast
  then show ?case
  proof cases
    case 1
    with "2.prems" s obtain x q where x: "skip_ws cs = x # q" and max: "\<not> max_depth \<le> d"
      by (auto split: if_splits list.splits)
    show ?thesis
    proof (cases "x = CHR ''}''")
      case False
      with "2.prems"(1) s x max 1 obtain m where "parse_members f (Suc d) (x # q) = Inr m"
        by (auto simp: and_then_Inr)
      with "2.IH"(1) [OF s 1 max x False this, of "Suc d'"] "2.prems" s x max 1 False show ?thesis by auto
    qed (use "2.prems" s x max 1 in simp)
  next
    case 2
    with "2.prems" s obtain x q where x: "skip_ws cs = x # q" and max: "\<not> max_depth \<le> d"
      by (auto split: if_splits list.splits)
    have ne: "c \<noteq> CHR ''{''" using 2 by simp
    show ?thesis
    proof (cases "x = CHR '']''")
      case False
      with "2.prems"(1) s x max 2 obtain m where "parse_elems f (Suc d) (x # q) = Inr m"
        by (auto simp: and_then_Inr)
      with "2.IH"(2) [OF s ne 2 max x False this, of "Suc d'"] "2.prems" s x max 2 False show ?thesis by auto
    qed (use "2.prems" s x max 2 in simp)
  next
    case 3
    with s have "parse_value (Suc f) d s = parse_value (Suc f) d' s" by simp
    with "2.prems"(1) show ?thesis by simp
  qed
next
  case (4 f d s)
  from "4.prems"(1) obtain v s1 where v: "parse_value f d s = Inr (v, s1)" by (auto simp: and_then_Inr)
  note v' = "4.IH"(1) [OF this "4.prems"(2)]
  from "4.prems"(1) v obtain x q where x: "skip_ws s1 = x # q" by (auto split: list.splits)
  show ?case
  proof (cases "x = CHR '',''")
    case True
    with "4.prems"(1) v x obtain m where "parse_elems f d q = Inr m" by (auto simp: and_then_Inr)
    with "4.IH"(2) [OF v refl x True this "4.prems"(2)] "4.prems"(1) v v' x True show ?thesis by simp
  qed (use "4.prems"(1) v v' x in simp)
next
  case (6 f d s)
  from "6.prems"(1) obtain s1 raw s2 s3 v s4
    where eqs: "expect_byte quote_char s = Inr s1" "scan_string s1 = Inr (raw, s2)"
      "expect_byte CHR '':'' s2 = Inr s3" "parse_value f d s3 = Inr (v, s4)"
    by (auto simp: and_then_Inr)
  note v' = "6.IH"(1) [OF eqs(1,2) refl eqs(3,4) "6.prems"(2)]
  from "6.prems"(1) eqs obtain x q where x: "skip_ws s4 = x # q" by (auto split: list.splits)
  show ?case
  proof (cases "x = CHR '',''")
    case True
    with "6.prems"(1) eqs x obtain m where "parse_members f d q = Inr m" by (auto simp: and_then_Inr)
    with "6.IH"(2) [OF eqs(1,2) refl eqs(3,4) refl x True this "6.prems"(2)] "6.prems"(1) eqs v' x True
    show ?thesis by simp
  qed (use "6.prems"(1) eqs v' x in simp)
qed auto

subsection \<open>The raw text of a value\<close>

text \<open>The text is exactly the value, without white space around it.\<close>

definition value_text :: "go_string \<Rightarrow> json \<Rightarrow> bool" where
  "value_text raw v \<longleftrightarrow> parse_json raw = Inr (v, []) \<and> skip_ws raw = raw"

lemma value_text_whole: "value_text raw v \<Longrightarrow> parse_whole raw = Inr v"
  by (simp add: value_text_def parse_whole_def skip_ws_def)

lemma value_text_nonempty: "value_text raw v \<Longrightarrow> raw \<noteq> []"
  using parse_value_consumes unfolding value_text_def parse_json_def by fastforce

lemma skip_ws_prefix: "skip_ws (p @ t) = p @ t \<Longrightarrow> skip_ws p = p"
proof (cases p)
  case (Cons c cs)
  assume "skip_ws (p @ t) = p @ t"
  with Cons have "\<not> is_ws c" using length_dropWhile_le [of is_ws "cs @ t"] by (auto simp: skip_ws_def)
  with Cons show ?thesis by simp
qed (simp add: skip_ws_def)

lemma parse_value_text:
  assumes v: "parse_value f d s = Inr (v, r)" and f: "2 * length s < f"
  shows "skip_ws s = take (length (skip_ws s) - length r) (skip_ws s) @ r"
    "value_text (take (length (skip_ws s) - length r) (skip_ws s)) v"
proof -
  have "parse_value f d (skip_ws s) = Inr (v, r)" using v by (simp add: parse_value_skip_ws)
  from parse_value_prefix [OF this] obtain p where p: "skip_ws s = p @ r"
    "\<And>t. number_end t \<Longrightarrow> parse_value f d (p @ t) = Inr (v, t)" by blast
  then show "skip_ws s = take (length (skip_ws s) - length r) (skip_ws s) @ r" by simp
  have "parse_value f d p = Inr (v, [])" using p(2) [of "[]"] by simp
  then have "parse_value f 0 p = Inr (v, [])" by (rule parse_depth(1)) simp
  moreover have "parse_value f 0 p = parse_value (json_fuel p) 0 p"
    using f skip_ws_length [of s] p(1) by (intro parse_value_fuel) (simp_all add: json_fuel_def)
  moreover have "skip_ws p = p" using skip_ws_prefix [of p r] p(1) by (metis skip_ws_idem)
  ultimately show "value_text (take (length (skip_ws s) - length r) (skip_ws s)) v"
    using p(1) by (simp add: value_text_def parse_json_def)
qed

subsection \<open>Raw members\<close>

definition same_members :: "(go_string \<times> go_string) list \<Rightarrow> (go_string \<times> json) list \<Rightarrow> bool" where
  "same_members raws kvs \<longleftrightarrow> list_all2 (\<lambda>(k, raw) (k', v). k = k' \<and> value_text raw v) raws kvs"

definition same_read ::
  "json_error + ((go_string \<times> go_string) list \<times> go_string)
     \<Rightarrow> json_error + ((go_string \<times> json) list \<times> go_string) \<Rightarrow> bool" where
  "same_read a b \<longleftrightarrow>
     (case (a, b) of
        (Inr (raws, r), Inr (kvs, r')) \<Rightarrow> r = r' \<and> same_members raws kvs
      | (Inl e, Inl e') \<Rightarrow> e = e'
      | _ \<Rightarrow> False)"

lemma same_read_Inl [simp]: "same_read (Inl e) (Inl e)"
  by (simp add: same_read_def)

lemma same_read_Inr [simp]: "same_read (Inr (raws, r)) (Inr (kvs, r')) \<longleftrightarrow> r = r' \<and> same_members raws kvs"
  by (simp add: same_read_def)

lemma same_read_cons:
  assumes "same_read a b" "value_text raw v"
  shows "same_read (and_then a (\<lambda>(m, r). Inr ((k, raw) # m, r))) (and_then b (\<lambda>(m, r). Inr ((k, v) # m, r)))"
  using assms by (cases a; cases b) (auto simp: same_read_def same_members_def)

lemma raw_members_read:
  "2 * length s + 1 < f \<Longrightarrow> same_read (parse_raw_members f d s) (parse_members f d s)"
proof (induction f d s rule: parse_raw_members.induct)
  case (2 f d s)
  show ?case
  proof (cases "expect_byte quote_char s")
    case 1: (Inr s1)
    show ?thesis
    proof (cases "scan_string s1")
      case (Inr p)
      then obtain raw s2 where 2: "scan_string s1 = Inr (raw, s2)" by (cases p) auto
      show ?thesis
      proof (cases "expect_byte CHR '':'' s2")
        case 3: (Inr s3)
        have l3: "length s3 < length s" using 1 2 3 by (auto dest!: expect_byte_length scan_string_length)
        show ?thesis
        proof (cases "parse_value f d s3")
          case (Inr q)
          then obtain v s4 where 4: "parse_value f d s3 = Inr (v, s4)" by (cases q) auto
          let ?val = "take (length (skip_ws s3) - length s4) (skip_ws s3)"
          have val: "value_text ?val v" using parse_value_text(2) [OF 4] l3 "2.prems" by simp
          have IH: "same_read (parse_raw_members f d r) (parse_members f d r)"
            if "skip_ws s4 = CHR '','' # r" for r
          proof -
            have "length r < length s"
              using that skip_ws_length [of s4] parse_value_consumes [OF 4] l3 by simp
            with "2.IH" [OF 1 2 refl 3 4 refl refl that refl] "2.prems" show ?thesis by simp
          qed
          show ?thesis using 1 2 3 4 val same_read_cons [OF IH val]
            by (simp add: Let_def same_members_def split: list.split)
        qed (use 1 2 3 in simp)
      qed (use 1 2 in simp)
    qed (use 1 in simp)
  qed simp
qed simp

text \<open>The last of several equal names wins on both sides.\<close>

lemma same_members_put:
  assumes "same_members raws kvs" "value_text raw v"
  shows "same_members (put_sorted k raw raws) (put_sorted k v kvs)"
  using assms(1) unfolding same_members_def
proof (induction raws kvs rule: list_all2_induct)
  case (Cons x xs y ys)
  then show ?case using assms(2) by (cases x; cases y) auto
qed (use assms(2) in simp)

lemma same_members_obj_of: "same_members raws kvs \<Longrightarrow> same_members (obj_of raws) (obj_of kvs)"
proof -
  assume "same_members raws kvs"
  then have "list_all2 (\<lambda>(k, raw) (k', v). k = k' \<and> value_text raw v) raws kvs" by (simp add: same_members_def)
  then have "same_members a b \<Longrightarrow>
      same_members (foldl (\<lambda>m (k, v). put_sorted k v m) a raws) (foldl (\<lambda>m (k, v). put_sorted k v m) b kvs)"
    for a b
    by (induction raws kvs arbitrary: a b rule: list_all2_induct)
       (auto split: prod.splits intro: same_members_put)
  from this [of "[]" "[]"] show ?thesis by (simp add: obj_of_def same_members_def)
qed

lemma same_members_lookup:
  "same_members raws kvs \<Longrightarrow> rel_option value_text (map_of raws k) (map_of kvs k)"
  unfolding same_members_def by (induction rule: list_all2_induct) (auto split: prod.splits)

subsection \<open>Decoding an object\<close>

lemma parse_object_start:
  assumes "parse_value (Suc f) d s = Inr (JObject m, r)"
  shows "\<exists>cs x q. skip_ws s = CHR ''{'' # cs \<and> skip_ws cs = x # q"
proof -
  from assms obtain c cs where s: "skip_ws s = c # cs" by (cases "skip_ws s") auto
  consider "c = CHR ''{''" | "c = CHR ''[''" | "c \<noteq> CHR ''{''" "c \<noteq> CHR ''[''" by blast
  then show ?thesis
  proof cases
    case 1
    with assms s show ?thesis by (auto split: list.splits if_splits)
  next
    case 2
    with assms s show ?thesis by (auto simp: and_then_Inr split: list.splits if_splits)
  next
    case 3
    with assms s show ?thesis by (auto simp: and_then_Inr split: if_splits)
  qed
qed

lemma unmarshal_raw_object:
  assumes "parse_whole s = Inr (JObject m)"
  shows "\<exists>raws. unmarshal_raw_map s = Inr (Some raws) \<and> same_members raws m"
proof (cases m)
  case Nil
  with assms show ?thesis by (simp add: unmarshal_raw_map_def same_members_def)
next
  case (Cons kv m')
  let ?f = "2 * length s + 1"
  from assms obtain rest where p: "parse_value (Suc ?f) 0 s = Inr (JObject m, rest)"
    by (auto simp: parse_whole_def parse_json_def json_fuel_def split: sum.splits if_splits)
  from parse_object_start [OF p] obtain cs x q where
    s: "skip_ws s = CHR ''{'' # cs" and x: "skip_ws cs = x # q" by blast
  with p Cons have "x \<noteq> CHR ''}''" by (auto split: if_splits)
  with p s x obtain kvs where kvs: "parse_members ?f 1 (x # q) = Inr (kvs, rest)" "m = obj_of kvs"
    by (auto simp: and_then_Inr split: if_splits)
  have "expect_byte b cs = expect_byte b (x # q)" for b
    using x unfolding expect_byte_def by (metis skip_ws_idem)
  then have "parse_members g 1 cs = parse_members g 1 (x # q)" for g by (cases g) simp_all
  moreover have len: "length cs < length s" using skip_ws_length [of s] s by simp
  then have "parse_members ?f 1 cs = parse_members (json_fuel s) 1 cs"
    by (intro parse_members_fuel) (simp_all add: json_fuel_def)
  ultimately have "parse_members (json_fuel s) 1 cs = Inr (kvs, rest)" using kvs(1) by simp
  moreover have "same_read (parse_raw_members (json_fuel s) 1 cs) (parse_members (json_fuel s) 1 cs)"
    using len by (intro raw_members_read) (simp add: json_fuel_def)
  ultimately obtain raws where raws: "parse_raw_members (json_fuel s) 1 cs = Inr (raws, rest)" "same_members raws kvs"
    by (auto simp: same_read_def split: sum.splits prod.splits)
  have "unmarshal_raw_map s = Inr (Some (obj_of raws))"
    using raws(1) s Cons assms by (simp add: unmarshal_raw_map_def)
  with same_members_obj_of [OF raws(2)] kvs(2) show ?thesis by blast
qed

lemma unmarshal_raw_map_parsed:
  assumes "unmarshal_raw_map s = Inr input"
  shows "parse_whole s = Inr JNull \<and> input = None
       \<or> (\<exists>m raws. parse_whole s = Inr (JObject m) \<and> input = Some raws \<and> same_members raws m)"
proof -
  from assms obtain v where v: "parse_whole s = Inr v" "v = JNull \<or> (\<exists>m. v = JObject m)"
  proof -
    from assms obtain v where "parse_whole s = Inr v" by (auto simp: unmarshal_raw_map_def and_then_Inr)
    with assms that show thesis by (cases v) (auto simp: unmarshal_raw_map_def)
  qed
  with assms unmarshal_raw_object [of s] show ?thesis
    by (auto simp: unmarshal_raw_map_def)
qed

text \<open>\<open>Decode\<close> followed by the check for the end reads exactly one value.\<close>

lemma decode_all:
  assumes "decode_raw_map e s = Inr (input, rest)" "read_value e rest = Inl DecodeEOF"
  shows "e = EndOfData"
    and "parse_whole s = Inr JNull \<and> input = None
       \<or> (\<exists>m raws. parse_whole s = Inr (JObject m) \<and> input = Some raws \<and> same_members raws m)"
proof -
  show e: "e = EndOfData"
    using assms(2) by (cases e) (auto simp: read_value_def split: sum.splits json_error.splits if_splits)
  from assms(1) obtain raw where raw: "read_value e s = Inr (raw, rest)" "unmarshal_raw_map raw = Inr input"
    unfolding decode_raw_map_def and_then_pair unfolding and_then_Inr by auto
  from raw(1) obtain v where v: "parse_json s = Inr (v, rest)" "s = raw @ rest" "parse_whole raw = Inr v"
    by (rule read_value_Inr)
  have "skip_ws rest = []" using assms(2) e by (simp add: read_value_EOF_iff)
  with v(1) have "parse_whole s = Inr v" by (simp add: parse_whole_def)
  with unmarshal_raw_map_parsed [OF raw(2)] v(3)
  show "parse_whole s = Inr JNull \<and> input = None
       \<or> (\<exists>m raws. parse_whole s = Inr (JObject m) \<and> input = Some raws \<and> same_members raws m)" by auto
qed

lemma decode_all_complete:
  assumes "parse_whole s = Inr (JObject m)"
  shows "\<exists>raws rest. decode_raw_map EndOfData s = Inr (Some raws, rest) \<and> read_value EndOfData rest = Inl DecodeEOF
           \<and> same_members raws m"
proof -
  from assms obtain rest where v: "parse_json s = Inr (JObject m, rest)" "skip_ws rest = []"
    by (auto simp: parse_whole_def split: sum.splits if_splits)
  then obtain raw where raw: "read_value EndOfData s = Inr (raw, rest)" by (auto simp: read_value_EndOfData)
  then have "parse_whole raw = Inr (JObject m)" using v(1) by (auto elim!: read_value_Inr)
  from unmarshal_raw_object [OF this] raw v(2) show ?thesis
    unfolding decode_raw_map_def by (auto simp: read_value_EOF_iff)
qed

end
