(* ===== verification/HttpFacts.thy ===== *)
theory HttpFacts
  imports HttpHandler RawMembers DomainFacts
begin

text \<open>
  The intake endpoint against a reference that reads no bytes: \<open>transaction_of\<close> maps the parsed
  JSON object of a body to the transaction it submits. The handler calls the intake service with
  that transaction, or refuses the request and leaves the store alone, so that the layout of a
  body (white space, order of the members, escapes) has no influence.
\<close>

subsection \<open>The reference\<close>

definition required_value :: "(go_string \<times> json) list \<Rightarrow> go_string \<Rightarrow> go_string option" where
  "required_value ms name = (case map_of ms name of Some (JString x) \<Rightarrow> Some x | _ \<Rightarrow> None)"

definition optional_value :: "(go_string \<times> json) list \<Rightarrow> go_string \<Rightarrow> go_string \<Rightarrow> go_string option" where
  "optional_value ms name cur =
     (case map_of ms name of
        None \<Rightarrow> Some cur | Some JNull \<Rightarrow> Some cur | Some (JString x) \<Rightarrow> Some x | _ \<Rightarrow> None)"

definition object_value :: "(go_string \<times> json) list \<Rightarrow> go_string \<Rightarrow> any_map option" where
  "object_value ms name =
     (case map_of ms name of
        None \<Rightarrow> Some None | Some (JObject m) \<Rightarrow> Some (Some m) | _ \<Rightarrow> None)"

definition plate_value :: "(go_string \<times> json) list \<Rightarrow> plate option option" where
  "plate_value ms =
     (case map_of ms ''plate'' of
        None \<Rightarrow> Some None
      | Some (JObject p) \<Rightarrow>
          (case (required_value p ''number'', required_value p ''jurisdiction'') of
             (Some n, Some j) \<Rightarrow> Some (Some \<lparr>plate_number = n, plate_jurisdiction = j\<rparr>)
           | _ \<Rightarrow> None)
      | _ \<Rightarrow> None)"

definition transaction_of :: "(go_string \<times> json) list \<Rightarrow> go_string \<Rightarrow> transaction option" where
  "transaction_of ms default_currency =
     Option.bind (required_value ms ''source'') (\<lambda>src.
     Option.bind (required_value ms ''source_reference'') (\<lambda>ref.
     Option.bind (required_value ms ''transaction_type'') (\<lambda>ty.
     Option.bind (required_value ms ''transaction_time_utc'') (\<lambda>timestamp.
     Option.bind (required_value ms ''base_amount'') (\<lambda>amount.
     Option.bind (parse_rfc3339 timestamp) (\<lambda>t.
     if t_zone t \<noteq> 0 then None else
     Option.bind (optional_value ms ''currency'' default_currency) (\<lambda>cur.
     if 8 < rune_count cur then None else
     Option.bind (optional_value ms ''transponder_number'' []) (\<lambda>tp.
     Option.bind (plate_value ms) (\<lambda>pl.
     Option.bind (object_value ms ''location'') (\<lambda>loc.
     Option.bind (object_value ms ''metadata'') (\<lambda>meta.
       Some \<lparr>tx_id = [], tx_source = src, tx_source_reference = ref, tx_type = ty,
             tx_time = t, tx_base_amount = amount, tx_currency = cur, tx_plate = pl,
             tx_transponder = tp, tx_location = loc, tx_metadata = meta,
             tx_location_raw = None, tx_metadata_raw = None\<rparr>)))))))))))"

text \<open>A transaction as the handler builds it: the parsed objects are those of the raw bytes.\<close>

definition raw_agrees :: "any_map \<Rightarrow> raw_message \<Rightarrow> bool" where
  "raw_agrees parsed raw \<longleftrightarrow>
     (case raw of None \<Rightarrow> parsed = None | Some b \<Rightarrow> (\<exists>m. parsed = Some m \<and> value_text b (JObject m)))"

definition without_raw :: "transaction \<Rightarrow> transaction" where
  "without_raw t = t\<lparr>tx_location_raw := None, tx_metadata_raw := None\<rparr>"

subsection \<open>Null\<close>

lemma decode_rune_ascii: "byte_val c < 128 \<Longrightarrow> decode_rune (c # cs) = (byte_val c, 1)"
  by simp

lemma chunks_ascii_Cons: "byte_val c < 128 \<Longrightarrow> chunks (c # cs) = [c] # chunks cs"
  by (simp add: decode_rune_ascii)

lemma trim_space_starts:
  assumes "byte_val c < 128" "\<not> space_chunk [c]"
  shows "\<exists>r. trim_space (c # cs) = c # r"
proof -
  have "dropWhile P (xs @ [x]) = dropWhile P xs @ [x]" if "\<not> P x" for P :: "go_string \<Rightarrow> bool" and xs x
    using that by (induction xs) auto
  then show ?thesis using assms by (simp add: trim_space_def chunks_ascii_Cons del: chunks.simps)
qed

lemma value_text_start:
  assumes "value_text raw v"
  shows "\<exists>c cs. raw = c # cs \<and> (c \<in> {CHR ''{'', CHR ''['', quote_char, CHR ''t'', CHR ''f'', CHR ''n'', CHR ''-''} \<or> is_digit c)
     \<and> (c = CHR ''n'' \<longleftrightarrow> v = JNull) \<and> (c = CHR ''n'' \<longrightarrow> raw = ''null'')"
proof -
  let ?f = "2 * length raw + 1"
  from assms have p: "parse_value (Suc ?f) 0 raw = Inr (v, [])" and trimmed: "skip_ws raw = raw"
    by (simp_all add: value_text_def parse_json_def json_fuel_def del: parse_value.simps)
  obtain c cs where raw: "raw = c # cs" using value_text_nonempty [OF assms] by (cases raw) auto
  from trimmed raw have ws: "skip_ws raw = c # cs" by simp
  consider (obj) "c = CHR ''{''" | (arr) "c = CHR ''[''" | (str) "c = quote_char"
    | (word) "c = CHR ''t'' \<or> c = CHR ''f'' \<or> c = CHR ''n''"
    | (num) "c \<notin> {CHR ''{'', CHR ''['', quote_char, CHR ''t'', CHR ''f'', CHR ''n''}" by blast
  then show ?thesis
  proof cases
    case obj
    with p ws have "v \<noteq> JNull" by (auto simp: and_then_Inr split: list.splits if_splits)
    with obj raw show ?thesis by simp
  next
    case arr
    with p ws have "v \<noteq> JNull" by (auto simp: and_then_Inr split: list.splits if_splits)
    with arr raw show ?thesis by simp
  next
    case str
    with p ws raw show ?thesis by (auto simp: and_then_Inr)
  next
    case word
    then show ?thesis
    proof (elim disjE)
      assume "c = CHR ''n''"
      with p ws have "expect_word ''ull'' cs = Inr []" "v = JNull" by (auto simp: and_then_Inr)
      with \<open>c = CHR ''n''\<close> raw show ?thesis by (auto dest: expect_word_split)
    qed (use p ws raw in \<open>auto simp: and_then_Inr\<close>)
  next
    case num
    with p ws obtain n r where n: "scan_number (c # cs) = Inr (n, r)" "v = JNumber n"
      by (auto simp: and_then_Inr)
    have "c = CHR ''-'' \<or> is_digit c"
    proof (rule ccontr)
      assume c: "\<not> (c = CHR ''-'' \<or> is_digit c)"
      then have "c \<noteq> CHR ''0''" by (auto simp: is_digit_def)
      with n(1) c show False by (auto simp: scan_number_def scan_int_def scan_digits_def Let_def)
    qed
    with raw n(2) num show ?thesis by auto
  qed
qed

lemma printable_no_space: "33 \<le> r \<Longrightarrow> r < 128 \<Longrightarrow> \<not> is_space_rune r"
  by (simp add: is_space_rune_def)

lemma value_start_printable:
  "c \<in> {CHR ''{'', CHR ''['', quote_char, CHR ''t'', CHR ''f'', CHR ''n'', CHR ''-''} \<or> is_digit c \<Longrightarrow>
     33 \<le> byte_val c \<and> byte_val c < 128"
  unfolding is_digit_def by (elim disjE insertE emptyE; simp)

lemma value_text_is_null:
  assumes "value_text raw v"
  shows "is_null raw \<longleftrightarrow> v = JNull"
proof -
  from value_text_start [OF assms] obtain c cs where raw: "raw = c # cs"
    and c: "c \<in> {CHR ''{'', CHR ''['', quote_char, CHR ''t'', CHR ''f'', CHR ''n'', CHR ''-''} \<or> is_digit c"
    and n: "c = CHR ''n'' \<longleftrightarrow> v = JNull" "c = CHR ''n'' \<longrightarrow> raw = ''null''" by blast
  note p = value_start_printable [OF c]
  then have "byte_val c < 128" "\<not> space_chunk [c]"
    using printable_no_space by (simp_all add: space_chunk_def decode_rune_ascii del: decode_rune.simps)
  then obtain r where r: "trim_space raw = c # r" using trim_space_starts raw by blast
  show ?thesis
  proof (cases "v = JNull")
    case True
    with n have "raw = ''null''" by blast
    moreover have "trim_space ''null'' = ''null''" by (simp add: trim_space_def chunks_ascii_Cons space_chunk_def
          is_space_rune_def decode_rune_ascii del: chunks.simps(2))
    ultimately show ?thesis using True by (simp add: is_null_def)
  next
    case False
    with n(1) r show ?thesis by (simp add: is_null_def)
  qed
qed

subsection \<open>Field by field\<close>

definition agrees :: "('a \<Rightarrow> 'b \<Rightarrow> bool) \<Rightarrow> 'a result \<Rightarrow> 'b option \<Rightarrow> bool" where
  "agrees R r o' \<longleftrightarrow> (case r of Inl e \<Rightarrow> o' = None | Inr x \<Rightarrow> \<exists>y. o' = Some y \<and> R x y)"

lemma agrees_simps [simp]:
  "agrees R (Inl e) o' \<longleftrightarrow> o' = None"
  "agrees R (Inr x) o' \<longleftrightarrow> (\<exists>y. o' = Some y \<and> R x y)"
  by (simp_all add: agrees_def)

lemma agrees_bind:
  assumes "agrees R r o'" "\<And>x y. R x y \<Longrightarrow> agrees S (f x) (g y)"
  shows "agrees S (and_then r f) (Option.bind o' g)"
  using assms by (cases r) auto

lemma field_cases:
  assumes "same_members raws ms"
  obtains "map_of raws k = None" "map_of ms k = None"
  | raw v where "map_of raws k = Some raw" "map_of ms k = Some v" "value_text raw v"
  using same_members_lookup [OF assms, of k] by (cases rule: option.rel_cases) auto

lemma unmarshal_value_text:
  assumes "value_text raw v"
  shows "agrees (=) (unmarshal_text name raw cur)
     (case v of JString x \<Rightarrow> Some x | JNull \<Rightarrow> Some cur | _ \<Rightarrow> None)"
  using value_text_whole [OF assms]
  by (simp add: unmarshal_text_def unmarshal_string_def split: json.split)

lemma required_agrees:
  assumes "same_members raws ms"
  shows "agrees (=) (required_string (Some raws) name) (required_value ms name)"
    "agrees (=) (required_raw_string raws name) (required_value ms name)"
proof -
  have "agrees (=) (required_string (Some raws) name) (required_value ms name)
      \<and> agrees (=) (required_raw_string raws name) (required_value ms name)"
    using field_cases [OF assms, of name]
  proof cases
    case (2 raw v)
    with unmarshal_value_text [OF 2(3), of _ "[]"] value_text_is_null [OF 2(3)] show ?thesis
      by (cases v) (simp_all add: required_string_def request_field_def required_raw_string_def required_value_def)
  qed (simp add: required_string_def request_field_def required_raw_string_def required_value_def)
  then show "agrees (=) (required_string (Some raws) name) (required_value ms name)"
    "agrees (=) (required_raw_string raws name) (required_value ms name)" by blast+
qed

lemma optional_agrees:
  assumes "same_members raws ms"
  shows "agrees (=) (optional_string (Some raws) name cur) (optional_value ms name cur)"
  using field_cases [OF assms, of name]
proof cases
  case (2 raw v)
  with unmarshal_value_text [OF 2(3), of name cur] value_text_is_null [OF 2(3)] show ?thesis
    by (cases v) (simp_all add: optional_string_def request_field_def optional_value_def)
qed (simp add: optional_string_def request_field_def optional_value_def)

lemma unmarshal_raw_other: "value_text raw v \<Longrightarrow> \<forall>m. v \<noteq> JObject m \<Longrightarrow> v \<noteq> JNull \<Longrightarrow>
    unmarshal_raw_map raw = Inl DecodeType"
  by (cases v) (simp_all add: unmarshal_raw_map_def value_text_whole)

lemma plate_agrees:
  assumes "same_members raws ms"
  shows "agrees (=) (optional_plate (Some raws)) (plate_value ms)"
  using field_cases [OF assms, of "''plate''"]
proof cases
  case (2 raw v)
  note null = value_text_is_null [OF 2(3)]
  consider (null) "v = JNull" | (obj) p where "v = JObject p" | (other) "v \<noteq> JNull" "\<forall>m. v \<noteq> JObject m" by blast
  then show ?thesis
  proof cases
    case null
    with 2 value_text_is_null [OF 2(3)] show ?thesis by (simp add: optional_plate_def request_field_def plate_value_def)
  next
    case obj
    from value_text_whole [OF 2(3)] obj unmarshal_raw_object obtain prs where
      p: "unmarshal_raw_map raw = Inr (Some prs)" "same_members prs p" by blast
    show ?thesis
      using 2 obj p(1) null required_agrees(2) [OF p(2), of "''number''"]
        required_agrees(2) [OF p(2), of "''jurisdiction''"]
      by (cases "required_raw_string prs ''number''"; cases "required_raw_string prs ''jurisdiction''")
        (auto simp: optional_plate_def request_field_def plate_value_def split: option.split)
  next
    case other
    with unmarshal_raw_other [OF 2(3) other(2,1)] 2 null show ?thesis
      by (cases v) (auto simp: optional_plate_def request_field_def plate_value_def)
  qed
qed (simp add: optional_plate_def request_field_def plate_value_def)

lemma object_agrees:
  assumes "same_members raws ms"
  shows "agrees (\<lambda>(m, raw) m'. m' = m \<and> raw_agrees m raw) (optional_object (Some raws) name) (object_value ms name)"
  using field_cases [OF assms, of name]
proof cases
  case (2 raw v)
  note null = value_text_is_null [OF 2(3)]
  from 2(3) have p: "parse_json raw = Inr (v, [])" by (simp add: value_text_def)
  show ?thesis
  proof (cases "\<exists>m. v = JObject m")
    case True
    then obtain m where v: "v = JObject m" by blast
    then have "decode_any_map EndOfData raw = Inr (Some m, [])" using p by (simp add: decode_any_map_Some)
    then have "optional_object (Some raws) name = Inr (Some m, Some raw)"
      using 2 null v value_text_nonempty [OF 2(3)] by (simp add: optional_object_def request_field_def)
    with 2 v show ?thesis by (simp add: object_value_def raw_agrees_def)
  next
    case False
    have "decode_any_map EndOfData raw \<noteq> Inr (Some m, r)" for m r
      using p False by (simp add: decode_any_map_Some)
    then have "\<exists>e. optional_object (Some raws) name = Inl e"
      using 2 by (auto simp: optional_object_def request_field_def split: sum.split option.split)
    moreover have "object_value ms name = None" using 2 False by (auto simp: object_value_def split: json.split)
    ultimately show ?thesis by auto
  qed
qed (simp add: optional_object_def request_field_def object_value_def raw_agrees_def)

text \<open>Both parsed objects of the transaction belong to their raw bytes.\<close>

definition raws_agree :: "transaction \<Rightarrow> bool" where
  "raws_agree t \<longleftrightarrow> raw_agrees (tx_location t) (tx_location_raw t) \<and> raw_agrees (tx_metadata t) (tx_metadata_raw t)"

lemma agrees_case_option:
  assumes "\<And>x. o' = Some x \<Longrightarrow> agrees S (f x) (g x)"
  shows "agrees S (case o' of None \<Rightarrow> Inl e | Some x \<Rightarrow> f x) (Option.bind o' g)"
  using assms by (cases o') auto

lemma agrees_guard: "(\<not> b \<Longrightarrow> agrees S r o') \<Longrightarrow> agrees S (if b then Inl e else r) (if b then None else o')"
  by simp

lemma agrees_bind_object:
  assumes "same_members raws ms" "\<And>m r. raw_agrees m r \<Longrightarrow> agrees S (f m r) (g m)"
  shows "agrees S (and_then (optional_object (Some raws) name) (\<lambda>(m, r). f m r)) (Option.bind (object_value ms name) g)"
  by (rule agrees_bind [OF object_agrees [OF assms(1)]]) (auto intro: assms(2))

lemma to_domain_agrees:
  assumes "same_members raws ms"
  shows "agrees (\<lambda>t t0. t0 = without_raw t \<and> raws_agree t) (to_domain (Some raws) partner cur) (transaction_of ms cur)"
  unfolding to_domain_def transaction_of_def
  apply (rule agrees_bind [OF required_agrees(1) [OF assms]], hypsubst)+
  apply (rule agrees_case_option agrees_guard agrees_bind [OF optional_agrees [OF assms]]
      agrees_bind [OF plate_agrees [OF assms]] | hypsubst)+
  apply (rule agrees_bind_object [OF assms])+
  apply (simp add: without_raw_def raws_agree_def)
  done

subsection \<open>The raw bytes have no influence\<close>

lemma canonical_object_agrees:
  assumes "raw_agrees p r"
  shows "canonical_object r p = canonical_object None p"
proof (cases r)
  case (Some b)
  with assms obtain m where m: "p = Some m" "value_text b (JObject m)" by (auto simp: raw_agrees_def)
  from m(2) have "parse_json b = Inr (JObject m, [])" by (simp add: value_text_def)
  then have "decode_any_map EndOfData b = Inr (Some m, [])" by (simp add: decode_any_map_Some)
  moreover have "read_value EndOfData [] = Inl DecodeEOF" by (simp add: read_value_EOF_iff skip_ws_def)
  ultimately show ?thesis
    using Some m(1) value_text_nonempty [OF m(2)] by (simp add: canonical_object_def raw_bytes_def)
qed simp

lemma without_raw_simps [simp]:
  "tx_id (without_raw t) = tx_id t" "tx_source (without_raw t) = tx_source t"
  "tx_source_reference (without_raw t) = tx_source_reference t" "tx_type (without_raw t) = tx_type t"
  "tx_time (without_raw t) = tx_time t" "tx_base_amount (without_raw t) = tx_base_amount t"
  "tx_currency (without_raw t) = tx_currency t" "tx_plate (without_raw t) = tx_plate t"
  "tx_transponder (without_raw t) = tx_transponder t" "tx_location (without_raw t) = tx_location t"
  "tx_metadata (without_raw t) = tx_metadata t" "tx_location_raw (without_raw t) = None"
  "tx_metadata_raw (without_raw t) = None"
  by (simp_all add: without_raw_def)

lemma canonical_objects_agree:
  assumes "raws_agree t"
  shows "canonical_object (tx_location_raw t) (tx_location t) = canonical_object None (tx_location t)"
    "canonical_object (tx_metadata_raw t) (tx_metadata t) = canonical_object None (tx_metadata t)"
  using assms by (auto simp: raws_agree_def intro: canonical_object_agrees)

lemma validate_without_raw: "raws_agree t \<Longrightarrow> validate (without_raw t) ts = validate t ts"
  unfolding validate_def without_raw_simps by (simp only: canonical_objects_agree)

lemma fingerprint_without_raw:
  assumes "raws_agree t"
  shows "fingerprint (without_raw t) ts = fingerprint t ts"
proof -
  have "fingerprint_payload (without_raw t) l m = fingerprint_payload t l m" for l m
    by (simp add: fingerprint_payload_def)
  with assms show ?thesis
    unfolding fingerprint_def without_raw_simps by (simp only: validate_without_raw canonical_objects_agree)
qed

subsection \<open>The submission of a request\<close>

text \<open>The transaction a request to the intake endpoint submits, if it passes every guard.\<close>

definition submission :: "'s handler \<Rightarrow> http_request \<Rightarrow> transaction option" where
  "submission hl rq =
     (if rq_method rq = ''POST'' \<and> check_api_key hl rq \<noteq> None
         \<and> parse_media_type (header_get (rq_header rq) ''Content-Type'') = Some ''application/json''
         \<and> rq_content_length rq \<le> 65536 \<and> length (rq_body rq) \<le> 65536 \<and> rq_body_end rq = EndOfData
      then (case parse_whole (rq_body rq) of
              Inr (JObject m) \<Rightarrow> transaction_of m (h_default_currency hl)
            | _ \<Rightarrow> None)
      else None)"

lemma to_domain_null: "to_domain None partner cur = Inl (Errorf ''source is required'')"
  by (simp add: to_domain_def required_string_def request_field_def)

lemma status_write_error [simp]: "rs_status (write_error h n m) = n"
  by (simp add: write_error_def write_json_def)

lemma submit_refuses:
  assumes "\<And>input rest. decode_raw_map (limited_end rq) (take max_request_body_bytes (rq_body rq)) = Inr (input, rest) \<Longrightarrow>
      ensure_json_end (limited_end rq) rest \<Longrightarrow> \<exists>e. to_domain input partner (h_default_currency hl) = Inl e"
  shows "\<exists>rsp. submit hl rq h rid partner s = (rsp, s) \<and> rs_status rsp \<in> {400, 413}"
  using assms unfolding submit_def by (fastforce split: sum.split prod.split)

lemma submit_submission:
  assumes k: "check_api_key hl rq = Some partner" and "rq_method rq = ''POST''"
    and "parse_media_type (header_get (rq_header rq) ''Content-Type'') = Some ''application/json''"
    and "rq_content_length rq \<le> 65536"
  shows "case submission hl rq of
      None \<Rightarrow> \<exists>rsp. submit hl rq h rid partner s = (rsp, s) \<and> rs_status rsp \<in> {400, 413}
    | Some t0 \<Rightarrow> \<exists>t. t0 = without_raw t \<and> raws_agree t
        \<and> submit hl rq h rid partner s = map_prod (accept_response h) id
            (h_intake hl (rq_context rq) \<lparr>cmd_transaction = t, cmd_correlation_id = rid\<rparr> s)"
proof (cases "length (rq_body rq) \<le> 65536 \<and> rq_body_end rq = EndOfData")
  case False
  then have n: "submission hl rq = None" by (auto simp: submission_def)
  have "\<exists>rsp. submit hl rq h rid partner s = (rsp, s) \<and> rs_status rsp \<in> {400, 413}"
  proof (rule submit_refuses)
    fix input rest
    assume "decode_raw_map (limited_end rq) (take max_request_body_bytes (rq_body rq)) = Inr (input, rest)"
      "ensure_json_end (limited_end rq) rest"
    then have "limited_end rq = EndOfData" unfolding ensure_json_end_def by (rule decode_all(1))
    with False show "\<exists>e. to_domain input partner (h_default_currency hl) = Inl e"
      by (auto simp: limited_end_def too_large_def max_request_body_bytes_def split: if_splits)
  qed
  with n show ?thesis by simp
next
  case True
  then have whole: "limited_end rq = EndOfData" "take max_request_body_bytes (rq_body rq) = rq_body rq"
    by (simp_all add: limited_end_def too_large_def max_request_body_bytes_def)
  have sub: "submission hl rq = (case parse_whole (rq_body rq) of
      Inr (JObject m) \<Rightarrow> transaction_of m (h_default_currency hl) | _ \<Rightarrow> None)"
    using assms True by (simp add: submission_def)
  show ?thesis
  proof (cases "\<exists>m. parse_whole (rq_body rq) = Inr (JObject m)")
    case False
    then have n: "submission hl rq = None" using sub by (simp split: sum.split json.split)
    have "\<exists>rsp. submit hl rq h rid partner s = (rsp, s) \<and> rs_status rsp \<in> {400, 413}"
    proof (rule submit_refuses)
      fix input rest
      assume "decode_raw_map (limited_end rq) (take max_request_body_bytes (rq_body rq)) = Inr (input, rest)"
        "ensure_json_end (limited_end rq) rest"
      with decode_all(2) [of EndOfData "rq_body rq" input rest] False whole have "input = None"
        by (auto simp: ensure_json_end_def)
      then show "\<exists>e. to_domain input partner (h_default_currency hl) = Inl e" by (simp add: to_domain_null)
    qed
    with n show ?thesis by simp
  next
    case True
    then obtain m where m: "parse_whole (rq_body rq) = Inr (JObject m)" by blast
    from decode_all_complete [OF m] obtain raws rest where
      d: "decode_raw_map EndOfData (rq_body rq) = Inr (Some raws, rest)" "ensure_json_end EndOfData rest"
        "same_members raws m" unfolding ensure_json_end_def by blast
    from to_domain_agrees [OF d(3), of partner "h_default_currency hl"] sub m d(1,2) whole show ?thesis
      by (cases "to_domain (Some raws) partner (h_default_currency hl)")
        (auto simp: submit_def split: prod.split)
  qed
qed

abbreviation intake_path :: go_string where
  "intake_path \<equiv> ''/ingest/v1/transactions''"

lemma transactions_submission:
  "case submission hl rq of
      None \<Rightarrow> \<exists>rsp. transactions hl h rq s = (rsp, s) \<and> rs_status rsp \<in> {400, 401, 405, 413, 415}
    | Some t0 \<Rightarrow> \<exists>t. t0 = without_raw t \<and> raws_agree t
        \<and> transactions hl h rq s = map_prod (accept_response (h(''X-Request-Id'' \<mapsto> request_id hl rq))) id
            (h_intake hl (rq_context rq) \<lparr>cmd_transaction = t, cmd_correlation_id = request_id hl rq\<rparr> s)"
proof -
  let ?mt = "parse_media_type (header_get (rq_header rq) ''Content-Type'')"
  consider (verb) "rq_method rq \<noteq> ''POST''" | (auth) "rq_method rq = ''POST''" "check_api_key hl rq = None"
    | (media) p where "rq_method rq = ''POST''" "check_api_key hl rq = Some p" "?mt \<noteq> Some ''application/json''"
    | (size) p where "rq_method rq = ''POST''" "check_api_key hl rq = Some p" "?mt = Some ''application/json''"
        "65536 < rq_content_length rq"
    | (body) p where "rq_method rq = ''POST''" "check_api_key hl rq = Some p" "?mt = Some ''application/json''"
        "rq_content_length rq \<le> 65536" by fastforce
  then show ?thesis
  proof cases
    case verb
    then show ?thesis by (simp add: submission_def transactions_def Let_def)
  next
    case auth
    then show ?thesis by (simp add: submission_def transactions_def Let_def)
  next
    case media
    then show ?thesis by (simp add: submission_def transactions_def Let_def)
  next
    case size
    then show ?thesis by (simp add: submission_def transactions_def Let_def max_request_body_bytes_def)
  next
    case body
    let ?h = "h(''X-Request-Id'' \<mapsto> request_id hl rq)"
    have "transactions hl h rq s = submit hl rq ?h (request_id hl rq) p s"
      using body by (simp add: transactions_def Let_def max_request_body_bytes_def)
    with submit_submission [OF body(2,1,3,4), of ?h "request_id hl rq" s] show ?thesis
      by (auto split: option.splits)
  qed
qed

end
