(* ===== verification/HttpSystem.thy ===== *)
theory HttpSystem
  imports SystemExample HttpFacts
begin

text \<open>
  The intake endpoint on top of the intake service and the in-memory store: what a request means
  to the system, and what a producer that repeats a request gets.
\<close>

subsection \<open>Types of the submitted transactions\<close>

lemma canonical_elems_iff: "canonical_elems vs d \<longleftrightarrow> (\<forall>v \<in> set vs. canonical v d)"
  by (induction vs) auto

lemma canonical_depth: "canonical v d \<Longrightarrow> d' \<le> d \<Longrightarrow> canonical v d'"
proof (induction v arbitrary: d d')
  case (JArray vs)
  then show ?case by (auto simp: canonical_elems_iff)
next
  case (JObject ms)
  then show ?case by (fastforce simp: canonical_members_iff)
qed auto

lemma canonical_field:
  assumes "canonical (JObject m) d" "map_of m k = Some v"
  shows "canonical v 0"
proof -
  from assms(1) have "canonical_members m (Suc d)" by simp
  with map_of_SomeD [OF assms(2)] have "canonical v (Suc d)" by (auto simp: canonical_members_iff)
  then show ?thesis by (rule canonical_depth) simp
qed

lemma required_value_valid:
  "canonical (JObject m) d \<Longrightarrow> required_value m k = Some x \<Longrightarrow> valid_string x"
  using canonical_field [of m d k "JString x"]
  by (auto simp: required_value_def split: option.splits json.splits)

lemma optional_value_valid:
  "canonical (JObject m) d \<Longrightarrow> optional_value m k cur = Some x \<Longrightarrow> valid_string cur \<Longrightarrow> valid_string x"
  using canonical_field [of m d k "JString x"]
  by (auto simp: optional_value_def split: option.splits json.splits)

lemma object_value_canonical:
  "canonical (JObject m) d \<Longrightarrow> object_value m k = Some p \<Longrightarrow> canonical_map p"
  using canonical_field [of m d k]
  by (auto simp: object_value_def split: option.splits json.splits simp del: canonical.simps)

lemma plate_value_valid:
  assumes "canonical (JObject m) d" "plate_value m = Some (Some p)"
  shows "valid_string (plate_number p) \<and> valid_string (plate_jurisdiction p)"
proof -
  from assms(2) obtain q where q: "map_of m ''plate'' = Some (JObject q)"
    "required_value q ''number'' = Some (plate_number p)"
    "required_value q ''jurisdiction'' = Some (plate_jurisdiction p)"
    by (auto simp: plate_value_def split: option.splits json.splits)
  with canonical_field [OF assms(1) q(1)] show ?thesis by (blast intro: required_value_valid)
qed

lemma transaction_of_typed:
  assumes "canonical (JObject m) d" "valid_string cur" "transaction_of m cur = Some t"
  shows "valid_texts t \<and> decoded_maps t \<and> t_zone (tx_time t) = 0 \<and> rune_count (tx_currency t) \<le> 8
     \<and> tx_id t = [] \<and> tx_location_raw t = None \<and> tx_metadata_raw t = None"
  using assms(3) required_value_valid [OF assms(1)] optional_value_valid [OF assms(1)] assms(2)
    object_value_canonical [OF assms(1)] plate_value_valid [OF assms(1)]
  by (auto simp: transaction_of_def Option.bind_eq_Some_conv valid_texts_def decoded_maps_def valid_string_def [of "[]"]
      simp del: canonical.simps split: if_splits option.split)

subsection \<open>A concrete request\<close>

definition example_members :: "(go_string \<times> json) list" where
  "example_members =
     [(''base_amount'', JString ''12.50''),
      (''plate'', JObject [(''jurisdiction'', JString ''CA''), (''number'', JString ''ABC123'')]),
      (''source'', JString ''roadside''), (''source_reference'', JString ''r-1''),
      (''transaction_time_utc'', JString ''2026-08-16T20:30:00Z''), (''transaction_type'', JString ''toll'')]"

definition http_transaction :: transaction where
  "http_transaction = example_transaction\<lparr>tx_time := \<lparr>t_ns = 63922509000000000000, t_zone = 0\<rparr>\<rparr>"

definition http_example :: "go_string \<Rightarrow> http_request" where
  "http_example body =
     \<lparr>rq_method = ''POST'', rq_path = intake_path,
      rq_header = [''Content-Type'' \<mapsto> ''application/json'', ''X-Api-Key'' \<mapsto> ''secret''],
      rq_content_length = int (length body), rq_body = body, rq_body_end = EndOfData, rq_context = None\<rparr>"

definition http_example_handler :: "mem_store handler" where
  "http_example_handler = new_handler (intake_accept example_service mem_accept example_id example_now)
     (Some (authenticate (new_static_api_keys [(''partner'', ''secret'')]))) ''req-1'' True []"

lemma example_members_canonical: "canonical (JObject example_members) 0"
  by (simp add: example_members_def max_depth_def sorted_keys_def valid_string_ascii)

lemma example_transaction_of: "transaction_of example_members ''USD'' = Some http_transaction"
  by (simp add: transaction_of_def required_value_def optional_value_def plate_value_def object_value_def
      example_members_def parse_rfc3339_example http_transaction_def example_transaction_def rune_count_ascii)

lemma example_submission:
  assumes "parse_whole body = Inr (JObject example_members)" "length body \<le> 65536"
  shows "submission http_example_handler (http_example body) = Some http_transaction"
proof -
  have "parse_media_type ''application/json'' = Some ''application/json''"
    by (simp add: parse_media_type_plain)
  with assms example_transaction_of show ?thesis
    by (simp add: submission_def http_example_def http_example_handler_def new_handler_def check_api_key_def
        header_get_def authenticate_def new_static_api_keys_def)
qed

lemma example_short: "length (marshal (JObject example_members)) \<le> 65535"
  by (simp add: example_members_def quote_json_def chunks_ascii quote_chunk_def bad_chunk_def rune_error_def
      quote_ascii_def Let_def)

lemma example_body:
  "parse_whole (marshal (JObject example_members)) = Inr (JObject example_members)"
  "length (marshal (JObject example_members)) \<le> 65536"
proof -
  show "parse_whole (marshal (JObject example_members)) = Inr (JObject example_members)"
    by (rule parse_whole_marshal [OF example_members_canonical])
  show "length (marshal (JObject example_members)) \<le> 65536"
    using example_short by simp
qed

lemmas example_request_submission = example_submission [OF example_body]

subsection \<open>The endpoint\<close>

text \<open>Every submission is well typed.\<close>

lemma submission_types:
  assumes "submission hl rq = Some t" "valid_string (h_default_currency hl)"
  shows "valid_texts t \<and> decoded_maps t \<and> t_zone (tx_time t) = 0 \<and> rune_count (tx_currency t) \<le> 8 \<and> tx_id t = []"
proof -
  from assms(1) obtain m where m: "parse_whole (rq_body rq) = Inr (JObject m)"
    "transaction_of m (h_default_currency hl) = Some t"
    by (auto simp: submission_def split: if_splits sum.splits json.splits)
  from transaction_of_typed [OF parse_whole_canonical [OF m(1)] assms(2) m(2)] show ?thesis by blast
qed

text \<open>
  C13: the endpoint is equivalent to its reference: a request whose method, key, media type, size
  and body are in order reaches the intake service with the transaction of its JSON object, and
  the response is that of the service; every other request is refused with a client error and
  leaves the store as it was. In particular no byte beyond 64 KiB is ever part of a submission.
\<close>

theorem endpoint_reference:
  assumes "rq_path rq = intake_path"
  shows "case submission hl rq of
      None \<Rightarrow> \<exists>rsp. serve_http hl rq s = Some (rsp, s) \<and> rs_status rsp \<in> {400, 401, 405, 413, 415}
    | Some t0 \<Rightarrow> \<exists>t. t0 = without_raw t \<and> raws_agree t
        \<and> serve_http hl rq s = Some (map_prod
            (accept_response (security_headers(''X-Request-Id'' \<mapsto> request_id hl rq))) id
            (h_intake hl (rq_context rq) \<lparr>cmd_transaction = t, cmd_correlation_id = request_id hl rq\<rparr> s))"
  using transactions_submission [of hl security_headers rq s] assms
  by (auto simp: serve_http_def split: option.splits)

theorem endpoint_reference_witness:
  "\<exists>t. without_raw t = http_transaction
     \<and> serve_http http_example_handler (http_example (marshal (JObject example_members))) mem_new_store
       = Some (map_prod (accept_response (security_headers(''X-Request-Id'' \<mapsto> ''req-1''))) id
           (intake_accept example_service mem_accept example_id example_now None
              \<lparr>cmd_transaction = t, cmd_correlation_id = ''req-1''\<rparr> mem_new_store))"
proof -
  let ?rq = "http_example (marshal (JObject example_members))"
  have "rq_path ?rq = intake_path" "rq_context ?rq = None" "request_id http_example_handler ?rq = ''req-1''"
    "h_intake http_example_handler = intake_accept example_service mem_accept example_id example_now"
    by (simp_all add: http_example_def request_id_def header_get_def request_id_matches_def
        http_example_handler_def new_handler_def)
  with endpoint_reference [of ?rq http_example_handler mem_new_store] example_request_submission
  show ?thesis by (simp del: marshal.simps) metis
qed

lemma endpoint_case:
  assumes "rq_path rq = intake_path" "submission hl rq = Some t0"
  shows "\<exists>t. t0 = without_raw t \<and> raws_agree t
        \<and> serve_http hl rq s = Some (map_prod
            (accept_response (security_headers(''X-Request-Id'' \<mapsto> request_id hl rq))) id
            (h_intake hl (rq_context rq) \<lparr>cmd_transaction = t, cmd_correlation_id = request_id hl rq\<rparr> s))"
  using transactions_submission [of hl security_headers rq s] assms by (auto simp: serve_http_def)

subsection \<open>Repeating a request\<close>

text \<open>The body of the answer to an accepted or repeated submission.\<close>

definition receipt :: "bool \<Rightarrow> go_string \<Rightarrow> go_string" where
  "receipt duplicate i =
     marshal (JObject [(''association_status'', JString ''received''), (''duplicate'', JBool duplicate),
                       (''id'', JString i), (''settlement_status'', JString ''priced'')]) @ [CHR 0x0A]"

lemma accept_response_receipt:
  "rs_status (accept_response h r) \<in> {200, 201} \<longleftrightarrow> (\<exists>res. r = Inr res)"
  "rs_status (accept_response h (Inr res)) = (if res_kind res = Replayed then 200 else 201)"
  "rs_body (accept_response h (Inr res)) = receipt (res_kind res = Replayed) (res_id res)"
  "res_kind res = Replayed \<Longrightarrow> rs_header (accept_response h (Inr res)) ''Idempotent-Replay'' = Some ''true''"
  by (auto simp: accept_response_def write_json_def receipt_def Let_def simp del: marshal.simps split: sum.split)

lemma intake_result_id:
  assumes "intake_accept svc accept new_id now ctx cmd s = (Inr res, s')"
    and "new_id 1 \<noteq> [] \<or> tx_id (cmd_transaction cmd) \<noteq> []"
  shows "res_id res \<noteq> []"
proof -
  from assms(1) obtain fp out where "accept ctx (build_acceptance new_id now cmd fp) s = (Inr out, s')"
    "interpret_outcome (build_acceptance new_id now cmd fp) out = Inr res"
    by (auto simp: intake_accept_def Let_def split: option.splits sum.splits prod.splits)
  with assms(2) show ?thesis
    by (auto simp: interpret_outcome_def split: store_outcome_kind.splits if_splits)
qed

text \<open>
  C12: end to end: once a request was answered 201 or 200, any later request that submits the same
  transaction, whatever its layout and its request identifier, and whatever the system did in
  between, is answered 200 with the same transaction identifier, marked as a duplicate, and
  changes nothing.
\<close>

theorem http_retry:
  assumes "0 < cfg_batch_size cfg" "mem_inv (sys_store S)" "mem_abs (sys_store S) (new_id 0) = None" "new_id 1 \<noteq> []"
    and hl: "h_intake hl = intake_accept svc mem_accept new_id now"
      "h_intake hl' = intake_accept svc mem_accept new_id' now'"
    and rq: "rq_path rq = intake_path" "rq_path rq' = intake_path" "rq_context rq' = None"
    and sub: "submission hl rq = Some t0" "submission hl' rq' = Some t0"
    and first: "serve_http hl rq (sys_store S) = Some (rsp, s1)" "rs_status rsp \<in> {200, 201}"
    and steps: "(sys_step svc' cfg mem_abs mem_accept mem_claim mem_mark mem_record_failure)\<^sup>*\<^sup>*
           (S\<lparr>sys_store := s1\<rparr>) S'"
  shows "\<exists>i rsp'. rs_body rsp = receipt (rs_status rsp = 200) i
     \<and> serve_http hl' rq' (sys_store S') = Some (rsp', sys_store S')
     \<and> rs_status rsp' = 200 \<and> rs_body rsp' = receipt True i
     \<and> rs_header rsp' ''Idempotent-Replay'' = Some ''true''"
proof -
  let ?h = "security_headers(''X-Request-Id'' \<mapsto> request_id hl rq)"
  let ?h' = "security_headers(''X-Request-Id'' \<mapsto> request_id hl' rq')"
  from endpoint_case [OF rq(1) sub(1), of "sys_store S"] obtain t where
    t: "t0 = without_raw t" "raws_agree t" "serve_http hl rq (sys_store S) = Some (map_prod (accept_response ?h) id
      (intake_accept svc mem_accept new_id now (rq_context rq)
        \<lparr>cmd_transaction = t, cmd_correlation_id = request_id hl rq\<rparr> (sys_store S)))" unfolding hl by blast
  from endpoint_case [OF rq(2) sub(2), of "sys_store S'"] obtain t' where
    t': "t0 = without_raw t'" "raws_agree t'" "serve_http hl' rq' (sys_store S') = Some (map_prod (accept_response ?h') id
      (intake_accept svc mem_accept new_id' now' None
        \<lparr>cmd_transaction = t', cmd_correlation_id = request_id hl' rq'\<rparr> (sys_store S')))" unfolding hl rq(3) by blast
  let ?cmd = "\<lparr>cmd_transaction = t, cmd_correlation_id = request_id hl rq\<rparr>"
  from first t(3) obtain res where
    run: "intake_accept svc mem_accept new_id now (rq_context rq) ?cmd (sys_store S) = (Inr res, s1)"
    and rsp: "rsp = accept_response ?h (Inr res)"
    using accept_response_receipt(1) by (cases "intake_accept svc mem_accept new_id now (rq_context rq) ?cmd (sys_store S)") auto
  have id_ne: "res_id res \<noteq> []" using intake_result_id [OF run] assms(4) by simp
  from mem_tx.intake_recorded [OF assms(1-3) run steps] obtain fp where
    fp: "fingerprint t [Some (svc_allowed_types svc)] = Inr fp" and
    known: "mem_idents (sys_store S') (mem_key t) = Some
      \<lparr>idn_fingerprint = fp, idn_transaction_id = res_id res, idn_event_id = res_event_id res\<rparr>" by auto
  have same: "fingerprint t' [Some (svc_allowed_types svc)] = Inr fp" "mem_key t' = mem_key t"
    using fp fingerprint_without_raw [OF t(2)] fingerprint_without_raw [OF t'(2)] t(1) t'(1)
    by (auto simp: mem_key_def dest!: arg_cong [where f = "\<lambda>t. (tx_source t, tx_source_reference t)"])
  let ?res' = "\<lparr>res_kind = Replayed, res_id = res_id res, res_event_id = res_event_id res\<rparr>"
  have "intake_accept svc mem_accept new_id' now' None
        \<lparr>cmd_transaction = t', cmd_correlation_id = request_id hl' rq'\<rparr> (sys_store S') = (Inr ?res', sys_store S')"
    using mem_intake_known [where cmd = "\<lparr>cmd_transaction = t', cmd_correlation_id = request_id hl' rq'\<rparr>"]
      same known id_ne by simp
  with t'(3) have "serve_http hl' rq' (sys_store S') = Some (accept_response ?h' (Inr ?res'), sys_store S')" by simp
  then show ?thesis unfolding rsp by (auto simp: accept_response_receipt simp del: fun_upd_apply)
qed

lemma example_spaced_body:
  "parse_whole ('' '' @ marshal (JObject example_members)) = Inr (JObject example_members)"
proof -
  let ?b = "marshal (JObject example_members)"
  have "parse_json ('' '' @ ?b) = parse_json (skip_ws ('' '' @ ?b))" by (simp only: parse_json_skip_ws)
  also have "skip_ws ('' '' @ ?b) = skip_ws ?b" by (simp add: skip_ws_def is_ws_def)
  also have "parse_json (skip_ws ?b) = parse_json ?b" by (rule parse_json_skip_ws)
  finally show ?thesis using example_body(1) by (simp only: parse_whole_def)
qed

lemma http_transaction_valid: "validate http_transaction [Some {''toll''}] = None"
proof -
  have "is_zero_time (tx_time http_transaction) = False"
    by (simp add: http_transaction_def is_zero_time_def)
  with example_valid show ?thesis
    unfolding validate_None_iff by (simp add: http_transaction_def)
qed

lemma example_serves:
  assumes "parse_whole body = Inr (JObject example_members)" "length body \<le> 65536"
  shows "serve_http http_example_handler (http_example body) s
     = Some (map_prod (accept_response (security_headers(''X-Request-Id'' \<mapsto> ''req-1''))) id
         (intake_accept example_service mem_accept example_id example_now None
            \<lparr>cmd_transaction = http_transaction, cmd_correlation_id = ''req-1''\<rparr> s))"
proof -
  let ?rq = "http_example body"
  have rq: "rq_path ?rq = intake_path" "rq_context ?rq = None" "request_id http_example_handler ?rq = ''req-1''"
    "h_intake http_example_handler = intake_accept example_service mem_accept example_id example_now"
    by (simp_all add: http_example_def request_id_def header_get_def request_id_matches_def
        http_example_handler_def new_handler_def)
  from endpoint_case [OF rq(1) example_submission [OF assms], of s] rq(2-4) obtain t where
    t: "http_transaction = without_raw t" "raws_agree t" and
    serve: "serve_http http_example_handler ?rq s
     = Some (map_prod (accept_response (security_headers(''X-Request-Id'' \<mapsto> ''req-1''))) id
         (intake_accept example_service mem_accept example_id example_now None
            \<lparr>cmd_transaction = t, cmd_correlation_id = ''req-1''\<rparr> s))" by auto
  have "tx_location t = None" "tx_metadata t = None"
    using arg_cong [OF t(1), of tx_location] arg_cong [OF t(1), of tx_metadata]
    by (simp_all add: http_transaction_def example_transaction_def)
  with t(2) have "tx_location_raw t = None" "tx_metadata_raw t = None"
    by (auto simp: raws_agree_def raw_agrees_def split: option.splits)
  then have "without_raw t = t" by (simp add: without_raw_def)
  with t(1) serve show ?thesis by simp
qed

lemma example_first_answer:
  "\<exists>rsp s1. serve_http http_example_handler (http_example (marshal (JObject example_members))) mem_new_store = Some (rsp, s1)
     \<and> rs_status rsp = 201"
proof -
  let ?cmd = "\<lparr>cmd_transaction = http_transaction, cmd_correlation_id = ''req-1''\<rparr>"
  obtain fp where fp: "fingerprint http_transaction [Some {''toll''}] = Inr fp"
    using fingerprint_plain [OF http_transaction_valid] by (auto simp: http_transaction_def example_transaction_def)
  then have fp': "fingerprint (cmd_transaction ?cmd) [Some (svc_allowed_types example_service)] = Inr fp"
    by (simp add: example_service_types)
  have "\<exists>res s1. intake_accept example_service mem_accept example_id example_now None ?cmd mem_new_store = (Inr res, s1)
      \<and> res_kind res = Accepted"
    unfolding intake_accept_valid [OF fp']
    by (simp add: Let_def mem_accept_def mem_new_store_def interpret_outcome_def)
  then show ?thesis unfolding example_serves [OF example_body]
    by (auto simp: accept_response_receipt simp del: marshal.simps)
qed

theorem http_retry_witness:
  "\<exists>rsp s1 rsp'. serve_http http_example_handler (http_example (marshal (JObject example_members))) mem_new_store
       = Some (rsp, s1) \<and> rs_status rsp = 201
     \<and> serve_http http_example_handler (http_example ('' '' @ marshal (JObject example_members))) s1 = Some (rsp', s1)
     \<and> rs_status rsp' = 200"
proof -
  let ?b = "marshal (JObject example_members)"
  have short: "length ('' '' @ ?b) \<le> 65536" by (simp add: example_short del: marshal.simps)
  from example_first_answer obtain rsp s1 where
    first: "serve_http http_example_handler (http_example ?b) mem_new_store = Some (rsp, s1)" "rs_status rsp = 201" by blast
  have h: "h_intake http_example_handler = intake_accept example_service mem_accept example_id example_now"
    "rq_path (http_example b) = intake_path" "rq_context (http_example b) = None" for b
    by (simp_all add: http_example_handler_def new_handler_def http_example_def)
  have "\<exists>i rsp'. rs_body rsp = receipt (rs_status rsp = 200) i
     \<and> serve_http http_example_handler (http_example ('' '' @ ?b)) s1 = Some (rsp', s1)
     \<and> rs_status rsp' = 200 \<and> rs_body rsp' = receipt True i
     \<and> rs_header rsp' ''Idempotent-Replay'' = Some ''true''"
    using http_retry [where S = "initial_system mem_new_store" and cfg = default_dispatcher_config
        and svc' = example_service and S' = "initial_system mem_new_store\<lparr>sys_store := s1\<rparr>",
        OF _ _ _ _ h(1) h(1) h(2) h(2) h(3) example_request_submission
          example_submission [OF example_spaced_body short] _ _ rtranclp.rtrancl_refl] first
    by (simp add: default_dispatcher_config_def example_id_def del: marshal.simps fun_upd_apply)
  with first show ?thesis by blast
qed

end
