(* ===== verification/StarterFacts.thy ===== *)
theory StarterFacts
  imports Starters SystemExample HttpSystem
begin

text \<open>
  The work of a started process is a run of the system of \<open>OutboxSystem\<close>, on the part of the state
  that the opened store keeps.
\<close>

subsection \<open>A store behind its handle\<close>

text \<open>Reading one part back after writing it.\<close>

definition part_of :: "('w \<Rightarrow> 's) \<Rightarrow> (('s \<Rightarrow> 's) \<Rightarrow> 'w \<Rightarrow> 'w) \<Rightarrow> bool" where
  "part_of get upd \<longleftrightarrow> (\<forall>f w. get (upd f w) = f (get w))"

lemma on_part_get:
  assumes "part_of get upd" "on_part get upd f w = (r, w')"
  shows "f (get w) = (r, get w')"
  using assms by (auto simp: part_of_def on_part_def split: prod.splits)

lemma handle_on_simps [simp]:
  "sh_accept (handle_on get upd accept claim mark rf ready close) = (\<lambda>ctx a. on_part get upd (accept ctx a))"
  "sh_claim (handle_on get upd accept claim mark rf ready close)
     = (\<lambda>ctx tokens now lease limit. on_part get upd (claim ctx tokens now lease limit))"
  "sh_mark (handle_on get upd accept claim mark rf ready close) = (\<lambda>ctx eid tok at. on_part get upd (mark ctx eid tok at))"
  "sh_fail (handle_on get upd accept claim mark rf ready close) = (\<lambda>ctx f. on_part get upd (rf ctx f))"
  by (simp_all add: handle_on_def)

context transaction_store begin

text \<open>The handle keeps the laws of the store it holds.\<close>

lemma behind_handle:
  assumes part: "part_of get upd"
    and h: "h = handle_on get upd accept claim mark record_failure ready close"
  shows "transaction_store key_of stored (\<lambda>w. idents (get w)) (\<lambda>w. abs (get w)) (\<lambda>w. inv (get w))
     (sh_accept h) (sh_claim h) (sh_mark h) (sh_fail h)"
proof (unfold_locales, goal_cases)
  case 1
  then show ?case by (rule stored_id)
next
  case 2
  then show ?case by (rule stored_transaction_id)
next
  case 3
  then show ?case by (rule key_of_id)
next
  case (4 s a ctx e s')
  then show ?case unfolding h handle_on_simps by (meson accept_err on_part_get [OF part])
next
  case (5 s ctx a out s' i)
  then show ?case unfolding h handle_on_simps by (meson accept_known on_part_get [OF part])
next
  case (6 s a ctx out s')
  then show ?case unfolding h handle_on_simps by (meson accept_new on_part_get [OF part])
next
  case (7 s)
  then show ?case by (rule abs_wf)
next
  case (8 s limit ctx tokens now lease ps s')
  then show ?case unfolding h handle_on_simps by (meson claim_ok on_part_get [OF part])
next
  case (9 s limit ctx tokens now lease e s')
  then show ?case unfolding h handle_on_simps by (meson claim_err on_part_get [OF part])
next
  case (10 s ctx eid tok at s')
  then show ?case unfolding h handle_on_simps by (meson mark_ok on_part_get [OF part])
next
  case (11 s ctx eid tok at e s')
  then show ?case unfolding h handle_on_simps by (meson mark_err on_part_get [OF part])
next
  case (12 s ctx f s')
  then show ?case unfolding h handle_on_simps by (meson fail_ok on_part_get [OF part])
next
  case (13 s ctx f e s')
  then show ?case unfolding h handle_on_simps by (meson fail_err on_part_get [OF part])
next
  case (14 s ctx tokens now lease limit cr s')
  then show ?case unfolding h handle_on_simps by (meson claim_idents on_part_get [OF part])
next
  case (15 s ctx eid tok at r s')
  then show ?case unfolding h handle_on_simps by (meson mark_idents on_part_get [OF part])
next
  case (16 s ctx f r s')
  then show ?case unfolding h handle_on_simps by (meson fail_idents on_part_get [OF part])
qed

end

interpretation opened_memory: transaction_store mem_key clone_event "\<lambda>w. mem_idents (wd_memory w)"
  "\<lambda>w. mem_abs (wd_memory w)" "\<lambda>w. mem_inv (wd_memory w)" "sh_accept memory_handle" "sh_claim memory_handle"
  "sh_mark memory_handle" "sh_fail memory_handle"
  by (rule mem_tx.behind_handle [OF _ memory_handle_def]) (simp add: part_of_def)

interpretation opened_ndjson: transaction_store mem_key "\<lambda>ev. ev" "\<lambda>w. nd_idents (wd_ndjson w)"
  "\<lambda>w. nd_abs (wd_ndjson w)" "\<lambda>w. nd_inv (wd_ndjson w)" "sh_accept ndjson_handle" "sh_claim ndjson_handle"
  "sh_mark ndjson_handle" "sh_fail ndjson_handle"
  by (rule nd_tx.behind_handle [OF _ ndjson_handle_def]) (simp add: part_of_def)

subsection \<open>The work of a process\<close>

text \<open>A request leaves the store alone, or is one submission to the intake service.\<close>

lemma serve_exchange_effect:
  assumes "serve_exchange h c x w = (rsp, w')"
  shows "w' = w \<or> (\<exists>cmd r. intake_accept (new_intake_service [Some (cf_transaction_types c)]) (sh_accept h)
       (ex_ids x) (ex_now x) (rq_context (ex_request x)) cmd w = (r, w'))"
proof -
  define hl where "hl = api_handler c (sh_accept h) (ex_ids x) (ex_now x) (ex_rid x)
    (ready_for_requests (Some (fst (handle_ready h (ex_probe x) w))))"
  have intake: "h_intake hl = intake_accept (new_intake_service [Some (cf_transaction_types c)]) (sh_accept h) (ex_ids x) (ex_now x)"
    by (simp add: hl_def api_handler_def new_handler_def)
  show ?thesis
  proof (cases "rq_path (ex_request x) = intake_path")
    case True
    then have "serve_http hl (ex_request x) w = Some (transactions hl security_headers (ex_request x) w)"
      by (simp add: serve_http_def)
    with assms have run: "transactions hl security_headers (ex_request x) w = (the rsp, w')"
      by (auto simp: serve_exchange_def hl_def [symmetric] split: prod.splits)
    from transactions_submission [of hl security_headers "ex_request x" w] run show ?thesis
      unfolding intake by (auto split: option.splits simp: map_prod_def prod.case_eq_if intro: prod.collapse [symmetric])
  next
    case False
    then have "\<forall>rsp' w''. serve_http hl (ex_request x) w = Some (rsp', w'') \<longrightarrow> w'' = w"
      by (simp add: serve_http_def)
    with assms show ?thesis by (auto simp: serve_exchange_def hl_def [symmetric] split: option.splits)
  qed
qed

text \<open>
  What a process draws from \<open>rand.Text\<close> is new when it is drawn: the event identifier of a request
  in the store, the tokens of a batch among all tokens drawn so far.
\<close>

fun fresh_run ::
  "('w \<Rightarrow> outbox) \<Rightarrow> 'w store_handle \<Rightarrow> config \<Rightarrow> 'q publish_fn \<Rightarrow> go_string set \<Rightarrow> work list \<Rightarrow> 'w \<times> 'q \<Rightarrow> bool" where
  "fresh_run view h c publish used [] w \<longleftrightarrow> True"
| "fresh_run view h c publish used (Serve x # ws) w \<longleftrightarrow>
     view (fst w) (ex_ids x 0) = None
     \<and> fresh_run view h c publish used ws (snd (serve_exchange h c x (fst w)), snd w)"
| "fresh_run view h c publish used (Batch rd # ws) w \<longleftrightarrow>
     fresh_tokens (rd_tokens rd) used
     \<and> fresh_run view h c publish (used \<union> range (rd_tokens rd)) ws (snd (handle_batch h publish rd w))"

abbreviation process_step ::
  "('w \<Rightarrow> outbox) \<Rightarrow> 'w store_handle \<Rightarrow> config \<Rightarrow> 'w system \<Rightarrow> 'w system \<Rightarrow> bool" where
  "process_step view h c \<equiv> sys_step (new_intake_service [Some (cf_transaction_types c)]) default_dispatcher_config view
     (sh_accept h) (sh_claim h) (sh_mark h) (sh_fail h)"

context transaction_store begin

lemma run_work_steps:
  assumes h: "sh_accept h = accept" "sh_claim h = claim" "sh_mark h = mark" "sh_fail h = record_failure"
    and "log_publisher publish" "inv (sys_store S)" "fresh_run abs h c publish (sys_used S) ws (sys_store S, sys_log S)"
    and "run_work h c publish ws (sys_store S, sys_log S) = (rs, s', l')"
  shows "\<exists>S'. (process_step abs h c)\<^sup>*\<^sup>* S S' \<and> sys_store S' = s' \<and> sys_log S' = l'"
  using assms(6-8)
proof (induction ws arbitrary: S rs)
  case Nil
  then show ?case by auto
next
  case (Cons wk ws)
  note steps = steps_idents [of "new_intake_service [Some (cf_transaction_types c)]" default_dispatcher_config]
  have batch: "0 < cfg_batch_size default_dispatcher_config" by (simp add: default_dispatcher_config_def)
  have IH: "\<exists>S'. (process_step abs h c)\<^sup>*\<^sup>* S S' \<and> sys_store S' = s' \<and> sys_log S' = l'"
    if "(process_step abs h c)\<^sup>*\<^sup>* S S1" "fresh_run abs h c publish (sys_used S1) ws (sys_store S1, sys_log S1)"
      "run_work h c publish ws (sys_store S1, sys_log S1) = (rs', s', l')" for S1 rs'
  proof -
    have "inv (sys_store S1)" using steps [OF that(1) [unfolded h] batch Cons.prems(1)] by simp
    from Cons.IH [OF this that(2,3)] obtain S' where
      "(process_step abs h c)\<^sup>*\<^sup>* S1 S'" "sys_store S' = s'" "sys_log S' = l'" by blast
    with rtranclp_trans [OF that(1)] show ?thesis by blast
  qed
  show ?case
  proof (cases wk)
    case (Serve x)
    obtain rsp s1 where x: "serve_exchange h c x (sys_store S) = (rsp, s1)" by fastforce
    with Cons.prems(3) Serve obtain rs' where rest: "run_work h c publish ws (s1, sys_log S) = (rs', s', l')"
      by (auto split: prod.splits)
    have fresh: "abs (sys_store S) (ex_ids x 0) = None" "fresh_run abs h c publish (sys_used S) ws (s1, sys_log S)"
      using Cons.prems(2) Serve x by simp_all
    let ?S1 = "S\<lparr>sys_store := s1\<rparr>"
    have "(process_step abs h c)\<^sup>*\<^sup>* S ?S1"
    proof (cases "s1 = sys_store S")
      case True
      then show ?thesis by simp
    next
      case False
      with serve_exchange_effect [OF x] have "\<exists>cmd r. intake_accept (new_intake_service [Some (cf_transaction_types c)])
          (sh_accept h) (ex_ids x) (ex_now x) (rq_context (ex_request x)) cmd (sys_store S) = (r, s1)" by simp
      then obtain cmd r where "intake_accept (new_intake_service [Some (cf_transaction_types c)])
          (sh_accept h) (ex_ids x) (ex_now x) (rq_context (ex_request x)) cmd (sys_store S) = (r, s1)" by (elim exE)
      from step_accept [where view = abs and S = S and new_id = "ex_ids x", OF fresh(1) this]
      show ?thesis by (rule r_into_rtranclp)
    qed
    from IH [OF this] fresh(2) rest show ?thesis by simp
  next
    case (Batch rd)
    obtain r s1 l1 where b: "handle_batch h publish rd (sys_store S, sys_log S) = (r, s1, l1)" by (metis prod.exhaust)
    have fresh: "fresh_tokens (rd_tokens rd) (sys_used S)"
      "fresh_run abs h c publish (sys_used S \<union> range (rd_tokens rd)) ws (s1, l1)"
      using Cons.prems(2) Batch b by simp_all
    from run_batch_steps [OF assms(5) Cons.prems(1) batch fresh(1) b [unfolded handle_batch_def worker_batch_def h]]
    obtain S1 where S1: "(process_step abs h c)\<^sup>*\<^sup>* S S1" "sys_store S1 = s1" "sys_log S1 = l1"
      "sys_used S1 = sys_used S \<union> range (rd_tokens rd)" unfolding h by blast
    show ?thesis by (rule IH [OF S1(1)]) (use S1(2-4) fresh(2) Cons.prems(3) Batch b in auto)
  qed
qed

text \<open>What holds in every reachable state of the system holds after the work of a process.\<close>

lemma run_work_event:
  assumes h: "sh_accept h = accept" "sh_claim h = claim" "sh_mark h = mark" "sh_fail h = record_failure"
    and "log_publisher publish" "inv s0" "abs s0 = (\<lambda>_. None)" "idents s0 = (\<lambda>_. None)"
    and "fresh_run abs h c publish {} ws (s0, [])" "run_work h c publish ws (s0, []) = (rs, s', l')"
    and "abs s' eid = Some e"
  shows "\<exists>S. sys_store S = s' \<and> sys_log S = l' \<and> event_ok default_dispatcher_config S eid e"
proof -
  have "inv (sys_store (initial_system s0))"
    "fresh_run abs h c publish (sys_used (initial_system s0)) ws (sys_store (initial_system s0), sys_log (initial_system s0))"
    "run_work h c publish ws (sys_store (initial_system s0), sys_log (initial_system s0)) = (rs, s', l')"
    using assms(6,9,10) by simp_all
  from run_work_steps [OF assms(1-5) this] obtain S where
    S: "(process_step abs h c)\<^sup>*\<^sup>* (initial_system s0) S" "sys_store S = s'" "sys_log S = l'" by blast
  from reachable_steps [OF reach_init S(1)] have "sys_reachable (process_step abs h c) s0 S" .
  from reachable_event [OF this [unfolded h] _ _ assms(6-8)] assms(11) S show ?thesis
    by (auto simp: default_dispatcher_config_def)
qed

end

subsection \<open>Repeating a request\<close>

definition exchange_handler :: "'w store_handle \<Rightarrow> config \<Rightarrow> exchange \<Rightarrow> 'w \<Rightarrow> 'w handler" where
  "exchange_handler h c x w =
     api_handler c (sh_accept h) (ex_ids x) (ex_now x) (ex_rid x)
       (ready_for_requests (Some (fst (handle_ready h (ex_probe x) w))))"

text \<open>The transaction that a request submits, if it is a well-formed submission.\<close>

definition submits :: "'w store_handle \<Rightarrow> config \<Rightarrow> exchange \<Rightarrow> 'w \<Rightarrow> transaction \<Rightarrow> bool" where
  "submits h c x w t \<longleftrightarrow>
     rq_path (ex_request x) = intake_path \<and> submission (exchange_handler h c x w) (ex_request x) = Some t"

definition answer_headers :: "'w store_handle \<Rightarrow> config \<Rightarrow> exchange \<Rightarrow> 'w \<Rightarrow> go_string \<Rightarrow> go_string option" where
  "answer_headers h c x w =
     security_headers(''X-Request-Id'' \<mapsto> request_id (exchange_handler h c x w) (ex_request x))"

lemma submits_serve:
  assumes "submits h c x w t0"
  shows "\<exists>t cmd. t0 = without_raw t \<and> raws_agree t \<and> cmd_transaction cmd = t
     \<and> serve_exchange h c x w = map_prod (\<lambda>r. Some (accept_response (answer_headers h c x w) r)) id
         (intake_accept (new_intake_service [Some (cf_transaction_types c)]) (sh_accept h) (ex_ids x) (ex_now x)
           (rq_context (ex_request x)) cmd w)"
proof -
  let ?hl = "exchange_handler h c x w"
  from endpoint_case [of "ex_request x" ?hl t0 w] assms obtain t where
    t: "t0 = without_raw t" "raws_agree t" "serve_http ?hl (ex_request x) w = Some (map_prod
      (accept_response (answer_headers h c x w)) id (h_intake ?hl (rq_context (ex_request x))
        \<lparr>cmd_transaction = t, cmd_correlation_id = request_id ?hl (ex_request x)\<rparr> w))"
    unfolding submits_def answer_headers_def by blast
  have "h_intake ?hl = intake_accept (new_intake_service [Some (cf_transaction_types c)]) (sh_accept h) (ex_ids x) (ex_now x)"
    by (simp add: exchange_handler_def api_handler_def new_handler_def)
  with t show ?thesis
    by (intro exI [of _ t] exI [of _ "\<lparr>cmd_transaction = t, cmd_correlation_id = request_id ?hl (ex_request x)\<rparr>"])
       (auto simp: serve_exchange_def exchange_handler_def map_prod_def Let_def split: prod.splits)
qed

text \<open>The business fields of two submissions of one transaction agree.\<close>

lemma without_raw_same:
  assumes "without_raw t = without_raw t'" "raws_agree t" "raws_agree t'"
  shows "fingerprint t ts = fingerprint t' ts" "mem_key t = mem_key t'"
proof -
  show "fingerprint t ts = fingerprint t' ts"
    using fingerprint_without_raw [OF assms(2)] fingerprint_without_raw [OF assms(3)] assms(1) by metis
  from assms(1) have "(tx_source (without_raw t), tx_source_reference (without_raw t))
      = (tx_source (without_raw t'), tx_source_reference (without_raw t'))" by simp
  then show "mem_key t = mem_key t'" by (simp add: mem_key_def without_raw_def)
qed

context transaction_store begin

text \<open>
  A store that answers every known identity when the context is live: whatever work lies between
  two submissions of one transaction, the second is answered as a replay of the first.
\<close>

lemma retry_answered:
  assumes h: "sh_accept h = accept" "sh_claim h = claim" "sh_mark h = mark" "sh_fail h = record_failure"
    and key: "\<And>t t'. mem_key t = mem_key t' \<Longrightarrow> key_of t = key_of t'"
    and live: "\<And>a s i. idents s (key_of (acc_transaction a)) = Some i \<Longrightarrow> \<exists>out. accept None a s = (Inr out, s)"
    and "log_publisher publish" "inv s" "abs s (ex_ids x 0) = None" "ex_ids x 1 \<noteq> []"
    and sub: "submits h c x s t0" "submits h c y s2 t0" "rq_context (ex_request y) = None"
    and first: "serve_exchange h c x s = (Some rsp, s1)" "rs_status rsp \<in> {200, 201}"
    and between: "fresh_run abs h c publish used ws (s1, l)" "run_work h c publish ws (s1, l) = (rs, s2, l2)"
  shows "\<exists>i rsp'. rs_body rsp = receipt (rs_status rsp = 200) i
     \<and> serve_exchange h c y s2 = (Some rsp', s2) \<and> rs_status rsp' = 200 \<and> rs_body rsp' = receipt True i
     \<and> rs_header rsp' ''Idempotent-Replay'' = Some ''true''"
proof -
  let ?svc = "new_intake_service [Some (cf_transaction_types c)]"
  have batch: "0 < cfg_batch_size default_dispatcher_config" by (simp add: default_dispatcher_config_def)
  from submits_serve [OF sub(1)] obtain t cmd where t: "t0 = without_raw t" "raws_agree t" "cmd_transaction cmd = t"
    "serve_exchange h c x s = map_prod (\<lambda>r. Some (accept_response (answer_headers h c x s) r)) id
       (intake_accept ?svc accept (ex_ids x) (ex_now x) (rq_context (ex_request x)) cmd s)" unfolding h by blast
  from submits_serve [OF sub(2)] obtain t' cmd' where t': "t0 = without_raw t'" "raws_agree t'" "cmd_transaction cmd' = t'"
    "serve_exchange h c y s2 = map_prod (\<lambda>r. Some (accept_response (answer_headers h c y s2) r)) id
       (intake_accept ?svc accept (ex_ids y) (ex_now y) None cmd' s2)" unfolding h sub(3) by blast
  from first t(4) obtain res where
    run: "intake_accept ?svc accept (ex_ids x) (ex_now x) (rq_context (ex_request x)) cmd s = (Inr res, s1)"
    and rsp: "rsp = accept_response (answer_headers h c x s) (Inr res)"
    using accept_response_receipt(1)
    by (cases "intake_accept ?svc accept (ex_ids x) (ex_now x) (rq_context (ex_request x)) cmd s") auto
  have id_ne: "res_id res \<noteq> []" using intake_result_id [OF run] assms(10) by simp
  let ?S = "\<lparr>sys_store = s, sys_log = l, sys_flight = {}, sys_used = used, sys_done = []\<rparr>"
  have at: "inv (sys_store ?S)" "abs (sys_store ?S) (ex_ids x 0) = None"
    "intake_accept ?svc accept (ex_ids x) (ex_now x) (rq_context (ex_request x)) cmd (sys_store ?S) = (Inr res, s1)"
    using assms(8,9) run by simp_all
  have "inv s1" using intake_recorded [OF batch at rtranclp.rtrancl_refl] by auto
  then have "\<exists>S'. (process_step abs h c)\<^sup>*\<^sup>* (?S\<lparr>sys_store := s1\<rparr>) S' \<and> sys_store S' = s2 \<and> sys_log S' = l2"
    using between by (intro run_work_steps [OF h assms(7), where rs = rs]) simp_all
  then obtain S' where S': "(process_step abs h c)\<^sup>*\<^sup>* (?S\<lparr>sys_store := s1\<rparr>) S'" "sys_store S' = s2" by blast
  from intake_recorded [OF batch at S'(1) [unfolded h]] S'(2) t(3) obtain fp where
    fp: "fingerprint t [Some (svc_allowed_types ?svc)] = Inr fp" and inv2: "inv s2" and
    known: "idents s2 (key_of t) = Some \<lparr>idn_fingerprint = fp, idn_transaction_id = res_id res, idn_event_id = res_event_id res\<rparr>"
    by auto
  note same = without_raw_same [OF _ t(2) t'(2)]
  have fp': "fingerprint (cmd_transaction cmd') [Some (svc_allowed_types ?svc)] = Inr fp" using same(1) fp t(1) t'(1,3) by simp
  have known': "idents s2 (key_of (cmd_transaction cmd'))
      = Some \<lparr>idn_fingerprint = fp, idn_transaction_id = res_id res, idn_event_id = res_event_id res\<rparr>"
    using key [OF same(2)] known t(1) t'(1,3) by simp
  let ?a = "build_acceptance (ex_ids y) (ex_now y) cmd' fp"
  from live [of s2 ?a] known' obtain out where out: "accept None ?a s2 = (Inr out, s2)" by auto
  from accept_known [OF inv2 out] known' have "out = replay_outcome
      \<lparr>idn_fingerprint = fp, idn_transaction_id = res_id res, idn_event_id = res_event_id res\<rparr> fp" by simp
  with out fp' id_ne have "intake_accept ?svc accept (ex_ids y) (ex_now y) None cmd' s2
      = (Inr \<lparr>res_kind = Replayed, res_id = res_id res, res_event_id = res_event_id res\<rparr>, s2)"
    by (simp add: intake_accept_valid Let_def interpret_outcome_def replay_outcome_def)
  with t'(4) show ?thesis unfolding rsp by (auto simp: accept_response_receipt simp del: fun_upd_apply)
qed

end

end
