(* ===== verification/ServiceProperties.thy ===== *)
theory ServiceProperties
  imports HttpSystem Runtime DynamoTable
begin

text \<open>
  Properties of the service as it is configured and started: what a loaded configuration
  guarantees to the parts that are built from it, and that its loops end.
\<close>

subsection \<open>A concrete environment\<close>

definition example_settings :: "(go_string \<times> go_string) list" where
  "example_settings =
     [(''AUTH_MODE'', ''api_key''), (''PARTNER_ID'', ''partner''), (''API_KEY'', ''secret''),
      (''KAFKA_BROKERS'', ''broker:9092''), (''KAFKA_TLS'', ''true''),
      (''KAFKA_SASL_USERNAME'', ''user''), (''KAFKA_SASL_PASSWORD'', ''password'')]"

definition example_lookup :: lookup where
  "example_lookup k = (case map_of example_settings k of None \<Rightarrow> [] | Some v \<Rightarrow> v)"

lemma example_lookups [simp]:
  "example_lookup ''AUTH_MODE'' = ''api_key''" "example_lookup ''PARTNER_ID'' = ''partner''"
  "example_lookup ''API_KEY'' = ''secret''" "example_lookup ''KAFKA_BROKERS'' = ''broker:9092''"
  "example_lookup ''KAFKA_TLS'' = ''true''" "example_lookup ''KAFKA_SASL_USERNAME'' = ''user''"
  "example_lookup ''KAFKA_SASL_PASSWORD'' = ''password''" "example_lookup ''DEFAULT_CURRENCY'' = []"
  "example_lookup ''STORE_DRIVER'' = []" "example_lookup ''KAFKA_TOPIC'' = []"
  "example_lookup ''KAFKA_TOPIC_PARTITIONS'' = []" "example_lookup ''KAFKA_TOPIC_REPLICATION'' = []"
  "example_lookup ''KAFKA_TOPIC_RETENTION'' = []" "example_lookup ''KAFKA_CA_FILE'' = []"
  by (simp_all add: example_lookup_def example_settings_def)

lemma trim_plain:
  assumes "ascii s" "s \<noteq> []" "byte_val (hd s) > 32" "byte_val (last s) > 32"
  shows "trim_space s = s"
proof -
  have no: "\<not> space_chunk [c]" if "byte_val c < 128" "byte_val c > 32" for c
    using that printable_no_space [of "byte_val c"] by (simp add: space_chunk_def)
  let ?c = "map (\<lambda>c. [c]) s"
  have hd: "dropWhile space_chunk ?c = ?c"
    using assms no [of "hd s"] by (cases s) (auto simp: ascii_def)
  have "dropWhile space_chunk (rev ?c) = rev ?c"
    using assms no [of "last s"] by (cases s rule: rev_cases) (auto simp: ascii_def)
  with hd assms(1) show ?thesis by (simp add: trim_space_def chunks_ascii)
qed

lemma example_brokers: "configured_brokers example_lookup = [''broker:9092'']"
  by (simp add: configured_brokers_def comma_items_def default_to_def trim_plain)

lemma example_config: "load_config example_lookup = Inr (config_of example_lookup)"
  unfolding load_config_def config_error_def
  by (simp add: config_of_def example_brokers default_to_def valid_string_ascii rune_count_ascii parse_bool_def)

subsection \<open>Authentication\<close>

text \<open>
  C18: an API key is accepted exactly when a partner is configured with a key of the same SHA-256
  digest; empty keys and entries with an empty partner or key never count.
\<close>

theorem api_key_accepted:
  "(\<exists>p. authenticate (new_static_api_keys keys) key = Some p)
     \<longleftrightarrow> key \<noteq> [] \<and> (\<exists>p k. (p, k) \<in> set keys \<and> p \<noteq> [] \<and> k \<noteq> [] \<and> sha256 k = sha256 key)"
proof
  assume "\<exists>p. authenticate (new_static_api_keys keys) key = Some p"
  with authenticate_sound show "key \<noteq> [] \<and> (\<exists>p k. (p, k) \<in> set keys \<and> p \<noteq> [] \<and> k \<noteq> [] \<and> sha256 k = sha256 key)"
    by blast
next
  assume r: "key \<noteq> [] \<and> (\<exists>p k. (p, k) \<in> set keys \<and> p \<noteq> [] \<and> k \<noteq> [] \<and> sha256 k = sha256 key)"
  then obtain p k where k: "(p, k) \<in> set keys" "p \<noteq> []" "k \<noteq> []" and "sha256 k = sha256 key" by blast
  then have sha: "authenticate (new_static_api_keys keys) key = authenticate (new_static_api_keys keys) k"
    using r by (simp add: authenticate_def)
  from authenticate_complete [OF k] show "\<exists>p. authenticate (new_static_api_keys keys) key = Some p"
    using sha by auto
qed

text \<open>
  C17: with API keys configured, the handler the service runs refuses every submission whose key
  is missing or has another digest than the configured one, before it looks at the body, and the
  store is not touched.
\<close>

theorem wrong_key_refused:
  assumes "load_config lookup = Inr c" "cf_auth_mode c = ''api_key''"
    and "rq_path rq = intake_path" "rq_method rq = ''POST''"
    and "header_get (rq_header rq) ''X-Api-Key'' = []
       \<or> sha256 (header_get (rq_header rq) ''X-Api-Key'') \<noteq> sha256 (lookup ''API_KEY'')"
  shows "\<exists>rsp. serve_http (api_handler c store_accept new_id now rid ready) rq s = Some (rsp, s) \<and> rs_status rsp = 401"
proof -
  let ?key = "header_get (rq_header rq) ''X-Api-Key''"
  from assms(1) have c: "c = config_of lookup" by (simp add: load_config_Inr)
  have key: "cf_api_key c = lookup ''API_KEY''" by (simp add: c config_of_def)
  have "authenticate (new_static_api_keys [(cf_partner_id c, cf_api_key c)]) ?key \<noteq> Some p" for p
    using assms(5) authenticate_sound [of "[(cf_partner_id c, cf_api_key c)]" ?key p] key by auto
  then have "authenticate (new_static_api_keys [(cf_partner_id c, cf_api_key c)]) ?key = None" by auto
  then have "check_api_key (api_handler c store_accept new_id now rid ready) rq = None"
    using assms(2) by (simp add: check_api_key_def api_handler_def new_handler_def)
  with assms(3,4) show ?thesis by (simp add: serve_http_def transactions_def Let_def)
qed

theorem wrong_key_refused_witness:
  "\<exists>rsp. serve_http (api_handler (config_of example_lookup) mem_accept example_id example_now ''r'' True)
       ((http_example [])\<lparr>rq_header := Map.empty\<rparr>) mem_new_store = Some (rsp, mem_new_store) \<and> rs_status rsp = 401"
  by (rule wrong_key_refused [OF example_config])
    (simp_all add: config_of_def default_to_def http_example_def header_get_def)

subsection \<open>Configuration\<close>




text \<open>
  C19: a configuration that loads is complete: authentication is off or has a partner and a key,
  there is a broker and a transaction type, no type is empty, the default currency is short, the
  store is one of the four and PostgreSQL has a URL.
\<close>

theorem loaded_config:
  assumes "load_config lookup = Inr c"
  shows "(cf_auth_mode c = ''disabled'' \<or> cf_auth_mode c = ''api_key'' \<and> cf_partner_id c \<noteq> [] \<and> cf_api_key c \<noteq> [])
     \<and> cf_kafka_brokers c \<noteq> [] \<and> cf_kafka_topic c \<noteq> []
     \<and> cf_transaction_types c \<noteq> {} \<and> [] \<notin> cf_transaction_types c
     \<and> cf_default_currency c \<noteq> [] \<and> rune_count (cf_default_currency c) \<le> 8
     \<and> cf_store_driver c \<in> {''memory'', ''ndjson'', ''dynamodb'', ''postgres''}
     \<and> (cf_store_driver c = ''postgres'' \<longrightarrow> cf_postgres_url c \<noteq> [])"
proof -
  from assms have both: "config_error lookup c = None \<and> c = config_of lookup" unfolding load_config_Inr .
  note e = both [THEN conjunct1] and c = both [THEN conjunct2]
  have "cf_kafka_topic c \<noteq> []" "cf_default_currency c \<noteq> []"
    by (simp_all add: c config_of_simps default_to_def)
  moreover have "cf_transaction_types c \<noteq> {}" "[] \<notin> cf_transaction_types c"
    using configured_types_ok [of lookup] by (simp_all add: c config_of_simps)
  ultimately show ?thesis using config_error_None [OF e] by blast
qed

theorem loaded_config_witness: "cf_kafka_topic (config_of example_lookup) \<noteq> []"
  using loaded_config [OF example_config] by blast

subsection \<open>Kafka\<close>

text \<open>
  C20: SASL credentials are only ever used over TLS of version 1.2 or later, and they are used
  whenever both are set: no configuration sends them in clear text or drops them silently.
\<close>

theorem credentials_over_tls:
  assumes "new_writer read_file has_certificates scram_err wc = Inr w"
  shows "(kw_sasl w \<noteq> None \<longleftrightarrow> sc_sasl_username (wc_security wc) \<noteq> [] \<and> sc_sasl_password (wc_security wc) \<noteq> [])
     \<and> (kw_sasl w = None \<or> (\<exists>t. kw_tls w = Some t \<and> 771 \<le> tls_min_version t))"
proof -
  from assms obtain tls sasl where
    k: "kafka_security read_file has_certificates scram_err (wc_security wc) = Inr (tls, sasl)"
    and w: "kw_tls w = tls" "kw_sasl w = sasl"
    by (auto simp: new_writer_def and_then_Inr split: if_splits)
  from kafka_security_tls [OF k] w show ?thesis by (cases tls) (auto simp: tls_version12_def)
qed

theorem credentials_over_tls_witness:
  "\<exists>w. new_writer (\<lambda>_. Inr []) (\<lambda>_. True) (\<lambda>_ _. None)
        \<lparr>wc_brokers = [''broker:9092''], wc_topic = ''t'',
         wc_security = \<lparr>sc_tls = True, sc_ca_file = [], sc_sasl_username = ''user'', sc_sasl_password = ''password''\<rparr>\<rparr> = Inr w
     \<and> kw_sasl w \<noteq> None"
proof -
  let ?wc = "\<lparr>wc_brokers = [''broker:9092''], wc_topic = ''t'',
     wc_security = \<lparr>sc_tls = True, sc_ca_file = [], sc_sasl_username = ''user'', sc_sasl_password = ''password''\<rparr>\<rparr>"
  obtain w where w: "new_writer (\<lambda>_. Inr []) (\<lambda>_. True) (\<lambda>_ _. None) ?wc = Inr w"
    by (simp add: new_writer_def kafka_security_def Let_def)
  from credentials_over_tls [OF this] w show ?thesis by auto
qed



subsection \<open>Loops that end\<close>

text \<open>
  C22: the bootstrap of the DynamoDB table ends as soon as one poll sees the table active or the
  context cuts a wait short, and it reports success only if the table was seen active.
\<close>

theorem table_bootstrap_ends:
  assumes "\<forall>d. \<exists>k. fst (describe table (poll_state describe table k d)) = Inr (Some TableActive) \<or> waits k \<noteq> None"
  shows "\<exists>e d'. ensure_table describe create waits table d = Some (e, d')
     \<and> (e = None \<longrightarrow> (\<exists>d0. describe table d0 = (Inr (Some TableActive), d')))"
proof -
  have await: "\<exists>e d'. await_table describe waits table 0 d = Some (e, d')
      \<and> (e = None \<longrightarrow> (\<exists>d0. describe table d0 = (Inr (Some TableActive), d')))" for d
  proof -
    from assms obtain k where
      "fst (describe table (poll_state describe table k d)) = Inr (Some TableActive) \<or> waits k \<noteq> None" by blast
    with await_table_returns [of describe table k d waits 0] await_table_active [of describe waits table 0 d]
    show ?thesis by fastforce
  qed
  show ?thesis using await
    by (auto simp: ensure_table_def split: prod.split sum.split describe_error.split option.split create_error.split)
qed

theorem table_bootstrap_ends_witness:
  "\<exists>e d'. ensure_table (\<lambda>_ d. (if 2 \<le> d then Inr (Some TableActive) else Inr (Some TableOther), d + 1))
       (\<lambda>_ d. (None, d)) (\<lambda>_. None) ''table'' (0::nat) = Some (e, d')"
proof -
  let ?describe = "\<lambda>_ d. (if (2::nat) \<le> d then Inr (Some TableActive) else Inr (Some TableOther), d + 1)"
  have poll: "poll_state ?describe ''table'' n d = d + n" for n d by (induction n arbitrary: d) simp_all
  have "\<forall>d. \<exists>k. fst (?describe ''table'' (poll_state ?describe ''table'' k d)) = Inr (Some TableActive) \<or> None \<noteq> None"
    by (intro allI exI [of _ 2]) (simp only: poll, simp)
  from table_bootstrap_ends [where describe = ?describe and waits = "\<lambda>_. None" and create = "\<lambda>_ d. (None, d)" and d = 0, OF this]
  show ?thesis by blast
qed

text \<open>
  C23: the worker ends once a round finds the context done or fails, and it ends no sooner: the
  rounds before ran to their end, one after the other, and the result is that of the last one,
  an error only if its batch failed while the context was live.
\<close>

theorem worker_ends_properly:
  assumes "rd_done (rounds n) \<or> fst (fst (batch (rounds n) (worker_state batch rounds 0 n w))) \<noteq> None"
  shows "\<exists>r k. worker_loop batch rounds 0 w = Some r \<and> worker_run batch rounds 0 w r k \<and> k \<le> n"
proof -
  from worker_loop_returns [of rounds 0 n batch w] assms obtain r where r: "worker_loop batch rounds 0 w = Some r"
    by auto
  from worker_loop_result [OF r] obtain k where k: "worker_run batch rounds 0 w r k" ..
  have "k \<le> n"
  proof (rule ccontr)
    assume "\<not> k \<le> n"
    with k have "worker_goes_on batch (rounds n) (worker_state batch rounds 0 n w)"
      by (auto simp: worker_run_def)
    with assms show False by (simp add: worker_goes_on_def)
  qed
  with r k show ?thesis by blast
qed

theorem worker_ends_properly_witness:
  "\<exists>r. worker_loop (\<lambda>rd w. ((None, \<lparr>dr_claimed = 0, dr_published = 0, dr_failed = 0\<rparr>), w + 1))
        (\<lambda>i. \<lparr>rd_ctxs = \<lambda>_. None, rd_tokens = example_token, rd_clock = example_now, rd_ctx_ended = False,
              rd_done = (i = 2)\<rparr>) 0 (0::nat) = Some r"
  using worker_ends_properly [where n = 2
      and rounds = "\<lambda>i. \<lparr>rd_ctxs = \<lambda>_. None, rd_tokens = example_token, rd_clock = example_now,
         rd_ctx_ended = False, rd_done = (i = 2)\<rparr>"
      and batch = "\<lambda>rd w. ((None, \<lparr>dr_claimed = 0, dr_published = 0, dr_failed = 0\<rparr>), w + 1)" and w = "0::nat"]
  by auto

end
