(* ===== verification/PostgresFacts.thy ===== *)
theory PostgresFacts
  imports PostgresStore
begin

text \<open>
  What the PostgreSQL store guarantees on a server that behaves as documented, while other
  processes use the same tables. The committed tables are read by \<open>view\<close>, the uncommitted writes
  of a transaction by \<open>writes\<close>. Between any two moments other processes may change the tables, as
  long as they keep what \<open>pg_keeps\<close> says (the rely); every operation of the store keeps it too
  (the guarantee), so that any number of stores can run side by side.
\<close>

subsection \<open>The tables\<close>

text \<open>Times are kept in the resolution of the server, which the function \<open>micros\<close> reads.\<close>

record pg_event =
  pv_status :: go_string
  pv_attempts :: int
  pv_retry :: "int option"
  pv_lease :: "int option"
  pv_token :: "go_string option"
  pv_published :: "int option"

record pg_tables =
  pt_identities :: "go_string \<times> go_string \<Rightarrow> identity_row option"
  pt_events :: "go_string \<Rightarrow> pg_event option"

definition settled :: "pg_event \<Rightarrow> bool" where
  "settled x \<longleftrightarrow> pv_status x = ''published'' \<or> pv_status x = ''failed''"

definition rows_linked :: "pg_tables \<Rightarrow> bool" where
  "rows_linked v \<longleftrightarrow> (\<forall>k tid fp eid. pt_identities v k = Some (tid, fp, eid) \<longrightarrow> pt_events v eid \<noteq> None)"

definition pg_keeps :: "pg_tables \<Rightarrow> pg_tables \<Rightarrow> bool" where
  "pg_keeps v w \<longleftrightarrow> (\<forall>k i. pt_identities v k = Some i \<longrightarrow> pt_identities w k = Some i)
     \<and> (\<forall>e x. pt_events v e = Some x \<longrightarrow> (\<exists>y. pt_events w e = Some y \<and> (settled x \<longrightarrow> y = x)))
     \<and> (rows_linked v \<longrightarrow> rows_linked w)"

lemma pg_keeps_refl [simp, intro]: "pg_keeps v v"
  by (auto simp: pg_keeps_def)

lemma pg_keeps_identity: "pg_keeps v w \<Longrightarrow> pt_identities v k = Some i \<Longrightarrow> pt_identities w k = Some i"
  unfolding pg_keeps_def by blast

lemma pg_keeps_row: "pg_keeps v w \<Longrightarrow> pt_events v e = Some x \<Longrightarrow> \<exists>y. pt_events w e = Some y \<and> (settled x \<longrightarrow> y = x)"
  unfolding pg_keeps_def by blast

lemma pg_keeps_linked: "pg_keeps v w \<Longrightarrow> rows_linked v \<Longrightarrow> rows_linked w"
  unfolding pg_keeps_def by blast

lemma pg_keeps_trans [trans]:
  assumes "pg_keeps u v" "pg_keeps v w"
  shows "pg_keeps u w"
  unfolding pg_keeps_def
proof (intro conjI allI impI)
  show "pt_identities w k = Some i" if "pt_identities u k = Some i" for k i
    using that assms pg_keeps_identity by metis
  show "\<exists>y. pt_events w e = Some y \<and> (settled x \<longrightarrow> y = x)" if "pt_events u e = Some x" for e x
    using that assms pg_keeps_row by metis
  show "rows_linked w" if "rows_linked u"
    using that assms pg_keeps_linked by metis
qed

lemma pg_keeps_new: "pg_keeps v w \<Longrightarrow> pt_identities w k = None \<Longrightarrow> pt_identities v k = None"
  by (cases "pt_identities v k") (auto dest: pg_keeps_identity)

lemma pg_keeps_event: "pg_keeps v w \<Longrightarrow> pt_events v e \<noteq> None \<Longrightarrow> pt_events w e \<noteq> None"
  by (metis not_None_eq pg_keeps_row)

lemma pg_keeps_settled: "pg_keeps v w \<Longrightarrow> pt_events v e = Some x \<Longrightarrow> settled x \<Longrightarrow> pt_events w e = Some x"
  by (metis pg_keeps_row)

text \<open>Changing events that are not settled keeps the tables.\<close>

lemma pg_keeps_events:
  assumes "\<And>e x. pt_events v e = Some x \<Longrightarrow> \<exists>y. f e = Some y \<and> (settled x \<longrightarrow> y = x)"
  shows "pg_keeps v (v\<lparr>pt_events := f\<rparr>)"
proof -
  have "rows_linked (v\<lparr>pt_events := f\<rparr>)" if "rows_linked v"
    using that assms by (fastforce simp: rows_linked_def)
  with assms show ?thesis by (simp add: pg_keeps_def)
qed

subsection \<open>Statements\<close>

datatype pg_write = InsertIdentity "go_string \<times> go_string" identity_row | InsertEvent go_string

definition fresh_pg_event :: pg_event where
  "fresh_pg_event =
     \<lparr>pv_status = ''pending'', pv_attempts = 0, pv_retry = None, pv_lease = None, pv_token = None, pv_published = None\<rparr>"

text \<open>The insertions of a transaction, under the unique constraints of the tables.\<close>

fun apply_writes :: "pg_write list \<Rightarrow> pg_tables \<Rightarrow> pg_tables option" where
  "apply_writes [] v = Some v"
| "apply_writes (InsertIdentity k row # ws) v =
     (if pt_identities v k = None then apply_writes ws (v\<lparr>pt_identities := (pt_identities v)(k \<mapsto> row)\<rparr>) else None)"
| "apply_writes (InsertEvent e # ws) v =
     (if pt_events v e = None then apply_writes ws (v\<lparr>pt_events := (pt_events v)(e \<mapsto> fresh_pg_event)\<rparr>) else None)"

text \<open>The conditional updates, with the number of rows they change.\<close>

definition held_row :: "go_string \<Rightarrow> pg_event \<Rightarrow> bool" where
  "held_row token x \<longleftrightarrow> pv_status x = ''pending'' \<and> pv_token x = Some token"

definition update_held ::
  "go_string \<Rightarrow> go_string \<Rightarrow> (pg_event \<Rightarrow> pg_event) \<Rightarrow> pg_tables \<Rightarrow> int \<times> pg_tables" where
  "update_held eid token f v =
     (case pt_events v eid of
        Some x \<Rightarrow> if held_row token x then (1, v\<lparr>pt_events := (pt_events v)(eid \<mapsto> f x)\<rparr>) else (0, v)
      | None \<Rightarrow> (0, v))"

definition set_published :: "int \<Rightarrow> pg_event \<Rightarrow> pg_event" where
  "set_published at x = x\<lparr>pv_status := ''published'', pv_published := Some at, pv_lease := None, pv_token := None\<rparr>"

definition set_failure :: "(gotime \<Rightarrow> int) \<Rightarrow> publish_failure \<Rightarrow> pg_event \<Rightarrow> pg_event" where
  "set_failure micros f x =
     x\<lparr>pv_status := (if pf_terminal f then ''failed'' else ''pending''), pv_attempts := pf_attempts f,
       pv_retry := Some (micros (pf_retry_at f)), pv_lease := None, pv_token := None\<rparr>"

definition row_due :: "int \<Rightarrow> pg_event \<Rightarrow> bool" where
  "row_due now x \<longleftrightarrow> pv_status x = ''pending'' \<and> (\<forall>t. pv_retry x = Some t \<longrightarrow> t \<le> now) \<and> (\<forall>t. pv_lease x = Some t \<longrightarrow> t \<le> now)"

definition set_leases :: "go_string list \<Rightarrow> int \<Rightarrow> go_string \<Rightarrow> pg_tables \<Rightarrow> pg_tables" where
  "set_leases es until token v =
     v\<lparr>pt_events := (\<lambda>e. if e \<in> set es
        then map_option (\<lambda>x. x\<lparr>pv_lease := Some until, pv_token := Some token\<rparr>) (pt_events v e) else pt_events v e)\<rparr>"

lemma update_held_keeps: "pg_keeps v (snd (update_held eid token f v))"
proof (cases "\<exists>x. pt_events v eid = Some x \<and> held_row token x")
  case True
  then obtain x where x: "pt_events v eid = Some x" "held_row token x" by blast
  then have "\<not> settled x" by (auto simp: held_row_def settled_def)
  with x show ?thesis by (auto simp: update_held_def intro!: pg_keeps_events)
next
  case False
  then show ?thesis by (auto simp: update_held_def split: option.splits)
qed

lemma update_held_one:
  "fst (update_held eid token f v) = 1 \<Longrightarrow>
     \<exists>x. pt_events v eid = Some x \<and> held_row token x \<and> pt_events (snd (update_held eid token f v)) eid = Some (f x)"
  by (auto simp: update_held_def split: option.splits if_splits)

lemma update_held_settled: "pt_events v eid = Some x \<Longrightarrow> settled x \<Longrightarrow> update_held eid token f v = (0, v)"
  by (auto simp: update_held_def held_row_def settled_def)

lemma set_leases_keeps:
  assumes "\<forall>e \<in> set es. \<exists>x. pt_events v e = Some x \<and> row_due now x"
  shows "pg_keeps v (set_leases es until token v)"
  unfolding set_leases_def
proof (rule pg_keeps_events)
  fix e x assume "pt_events v e = Some x"
  with assms show "\<exists>y. (if e \<in> set es then map_option (\<lambda>x. x\<lparr>pv_lease := Some until, pv_token := Some token\<rparr>) (pt_events v e)
      else pt_events v e) = Some y \<and> (settled x \<longrightarrow> y = x)"
    by (auto simp: row_due_def settled_def)
qed

lemma acceptance_keeps:
  assumes "apply_writes [InsertIdentity k (tid, fp, eid), InsertEvent eid] v = Some w"
  shows "pg_keeps v w \<and> pt_identities v k = None \<and> pt_identities w k = Some (tid, fp, eid) \<and> pt_events w eid = Some fresh_pg_event"
proof -
  from assms have n: "pt_identities v k = None" "pt_events v eid = None"
    and w: "w = v\<lparr>pt_identities := (pt_identities v)(k \<mapsto> (tid, fp, eid)), pt_events := (pt_events v)(eid \<mapsto> fresh_pg_event)\<rparr>"
    by (auto split: if_splits)
  have "rows_linked w" if "rows_linked v"
    using that unfolding w rows_linked_def by (auto split: if_splits)
  with n show ?thesis by (auto simp: w pg_keeps_def)
qed

subsection \<open>The documented behaviour\<close>

type_synonym 'd pg_view = "'d \<Rightarrow> pg_tables"
type_synonym ('d, 't) pg_pending = "'t \<Rightarrow> 'd \<Rightarrow> pg_write list"

definition pg_connects :: "('d, 't) sql_db \<Rightarrow> 'd pg_view \<Rightarrow> ('d, 't) pg_pending \<Rightarrow> bool" where
  "pg_connects db view writes \<longleftrightarrow>
     (\<forall>ctx d r d'. db_begin db ctx True d = (r, d') \<longrightarrow>
        pg_keeps (view d) (view d') \<and> (\<forall>t. r = Inr t \<longrightarrow> writes t d' = []))
   \<and> (\<forall>t d. pg_keeps (view d) (view (tx_rollback db t d)))"

definition pg_reads :: "('d, 't) sql_db \<Rightarrow> 'd pg_view \<Rightarrow> ('d, 't) pg_pending \<Rightarrow> bool" where
  "pg_reads db view writes \<longleftrightarrow>
     (\<forall>ctx s r d x d'. db_query_row db ctx read_identity_sql [SqlText s, SqlText r] d = (x, d') \<longrightarrow>
        pg_keeps (view d) (view d') \<and> (\<forall>row. x = Inr row \<longrightarrow> pt_identities (view d') (s, r) = Some row))
   \<and> (\<forall>t ctx s r d x d'. tx_query_row db t ctx select_identity_sql [SqlText s, SqlText r] d = (x, d') \<longrightarrow>
        writes t d = [] \<longrightarrow>
        pg_keeps (view d) (view d') \<and> writes t d' = [] \<and> (\<forall>row. x = Inr row \<longrightarrow> pt_identities (view d') (s, r) = Some row))"

text \<open>An insertion is pending until the commit; a statement that fails leaves the transaction to be rolled back.\<close>

definition pg_inserts :: "('d, 't) sql_db \<Rightarrow> 'd pg_view \<Rightarrow> ('d, 't) pg_pending \<Rightarrow> bool" where
  "pg_inserts db view writes \<longleftrightarrow>
     (\<forall>t ctx a p d x d'. tx_exec db t ctx insert_transaction_sql (transaction_args a p) d = (x, d') \<longrightarrow>
        pg_keeps (view d) (view d')
        \<and> (\<forall>n. x = Inr n \<longrightarrow> writes t d' = writes t d @ [InsertIdentity
               (tx_source (acc_transaction a), tx_source_reference (acc_transaction a))
               (tx_id (acc_transaction a), acc_fingerprint a, ev_id (acc_event a))]))
   \<and> (\<forall>t ctx a p d x d'. tx_exec db t ctx insert_outbox_sql (outbox_args a p) d = (x, d') \<longrightarrow>
        pg_keeps (view d) (view d')
        \<and> (\<forall>n. x = Inr n \<longrightarrow> writes t d' = writes t d @ [InsertEvent (ev_id (acc_event a))]))"

text \<open>
  A commit makes all the writes visible at one moment, or none. Only a failure other than a
  conflict (a lost connection, say) leaves it open whether it took place.
\<close>

definition committed :: "'d pg_view \<Rightarrow> pg_write list \<Rightarrow> 'd \<Rightarrow> 'd \<Rightarrow> bool" where
  "committed view ws d d' \<longleftrightarrow>
     (\<exists>v w. pg_keeps (view d) v \<and> apply_writes ws v = Some w \<and> pg_keeps w (view d'))"

definition pg_commits :: "('d, 't) sql_db \<Rightarrow> 'd pg_view \<Rightarrow> ('d, 't) pg_pending \<Rightarrow> bool" where
  "pg_commits db view writes \<longleftrightarrow>
     (\<forall>t d e d'. tx_commit db t d = (e, d') \<longrightarrow>
        (case e of
           None \<Rightarrow> committed view (writes t d) d d'
         | Some x \<Rightarrow> pg_keeps (view d) (view d')
             \<or> \<not> is_concurrency_conflict x \<and> committed view (writes t d) d d'))"

definition updates_rows ::
  "('d, 't) sql_db \<Rightarrow> 'd pg_view \<Rightarrow> go_string \<Rightarrow> sql_value list \<Rightarrow> (pg_tables \<Rightarrow> int \<times> pg_tables) \<Rightarrow> bool" where
  "updates_rows db view sql args upd \<longleftrightarrow>
     (\<forall>ctx d r d'. db_exec db ctx sql args d = (r, d') \<longrightarrow>
        (\<exists>v. pg_keeps (view d) v
           \<and> (case r of
                Inl e \<Rightarrow> pg_keeps v (view d') \<or> pg_keeps (snd (upd v)) (view d')
              | Inr res \<Rightarrow> pg_keeps (snd (upd v)) (view d') \<and> (\<forall>n. res = Inr n \<longrightarrow> n = fst (upd v)))))"

definition pg_updates :: "('d, 't) sql_db \<Rightarrow> 'd pg_view \<Rightarrow> (gotime \<Rightarrow> int) \<Rightarrow> bool" where
  "pg_updates db view micros \<longleftrightarrow>
     (\<forall>at eid token. updates_rows db view mark_published_sql (mark_args at eid token)
        (update_held eid token (set_published (micros at))))
   \<and> (\<forall>f. updates_rows db view record_failure_sql (failure_args f)
        (update_held (pf_event_id f) (pf_claim_token f) (set_failure micros f)))"

definition pg_leases :: "('d, 't) sql_db \<Rightarrow> 'd pg_view \<Rightarrow> (gotime \<Rightarrow> int) \<Rightarrow> bool" where
  "pg_leases db view micros \<longleftrightarrow>
     (\<forall>ctx now limit lease token d r d'. db_query db ctx claim_pending_sql (claim_args now limit lease token) d = (r, d') \<longrightarrow>
        (\<exists>v es. pg_keeps (view d) v \<and> (\<forall>e \<in> set es. \<exists>x. pt_events v e = Some x \<and> row_due (micros now) x)
           \<and> pg_keeps (set_leases es (micros (time_add now lease)) token v) (view d')
           \<and> int (length es) \<le> max 0 limit
           \<and> (\<forall>rows err. r = Inr (rows, err) \<longrightarrow> length rows \<le> length es \<and> (\<forall>row. Inr row \<in> set rows \<longrightarrow> cr_token row = token))))"

definition pg_documented :: "('d, 't) sql_db \<Rightarrow> 'd pg_view \<Rightarrow> ('d, 't) pg_pending \<Rightarrow> (gotime \<Rightarrow> int) \<Rightarrow> bool" where
  "pg_documented db view writes micros \<longleftrightarrow>
     pg_connects db view writes \<and> pg_reads db view writes \<and> pg_inserts db view writes
     \<and> pg_commits db view writes \<and> pg_updates db view micros \<and> pg_leases db view micros"

subsection \<open>Accept\<close>

abbreviation pg_key :: "acceptance \<Rightarrow> go_string \<times> go_string" where
  "pg_key a \<equiv> (tx_source (acc_transaction a), tx_source_reference (acc_transaction a))"

text \<open>What the answer of an acceptance says of the tables after it.\<close>

definition answered :: "'d pg_view \<Rightarrow> acceptance \<Rightarrow> 'd \<Rightarrow> store_outcome \<Rightarrow> 'd \<Rightarrow> bool" where
  "answered view a d out d' \<longleftrightarrow>
     (\<exists>row. pt_identities (view d') (pg_key a) = Some row \<and> out = row_outcome (acc_fingerprint a) row)
     \<or> (pt_identities (view d) (pg_key a) = None
        \<and> pt_identities (view d') (pg_key a) = Some (tx_id (acc_transaction a), acc_fingerprint a, ev_id (acc_event a))
        \<and> pt_events (view d') (ev_id (acc_event a)) \<noteq> None
        \<and> out = \<lparr>so_kind = StoreAccepted, so_transaction_id = tx_id (acc_transaction a), so_event_id = ev_id (acc_event a)\<rparr>)"

definition accept_ok :: "'d pg_view \<Rightarrow> acceptance \<Rightarrow> 'd \<Rightarrow> store_outcome result \<times> 'd \<Rightarrow> bool" where
  "accept_ok view a d r \<longleftrightarrow>
     pg_keeps (view d) (view (snd r)) \<and> (\<forall>out. fst r = Inr out \<longrightarrow> answered view a d out (snd r))"

lemma accept_ok_error [simp]: "accept_ok view a d (Inl e, d') \<longleftrightarrow> pg_keeps (view d) (view d')"
  by (simp add: accept_ok_def)

lemma accept_ok_known:
  assumes "pg_keeps (view d) (view d')" "pt_identities (view d') (pg_key a) = Some row"
  shows "accept_ok view a d (Inr (row_outcome (acc_fingerprint a) row), d')"
  using assms by (auto simp: accept_ok_def answered_def)

lemma accept_ok_before:
  assumes "pg_keeps (view d) (view d1)" "accept_ok view a d1 r"
  shows "accept_ok view a d r"
  using assms pg_keeps_trans pg_keeps_new unfolding accept_ok_def answered_def by blast

lemma committed_keeps:
  assumes "committed view [] d d'"
  shows "pg_keeps (view d) (view d')"
  using assms by (auto simp: committed_def intro: pg_keeps_trans)

lemma committed_acceptance:
  assumes "committed view [InsertIdentity (pg_key a) (tx_id (acc_transaction a), acc_fingerprint a, ev_id (acc_event a)),
      InsertEvent (ev_id (acc_event a))] d d'"
  shows "accept_ok view a d (Inr \<lparr>so_kind = StoreAccepted, so_transaction_id = tx_id (acc_transaction a),
      so_event_id = ev_id (acc_event a)\<rparr>, d')"
proof -
  from assms obtain v w where v: "pg_keeps (view d) v" "pg_keeps w (view d')"
    and w: "apply_writes [InsertIdentity (pg_key a) (tx_id (acc_transaction a), acc_fingerprint a, ev_id (acc_event a)),
      InsertEvent (ev_id (acc_event a))] v = Some w" by (auto simp only: committed_def)
  note k = acceptance_keeps [OF w]
  have "pg_keeps (view d) (view d')" using v k pg_keeps_trans by blast
  moreover have "pt_identities (view d) (pg_key a) = None" using v(1) k pg_keeps_new by blast
  moreover have "pt_identities (view d') (pg_key a) = Some (tx_id (acc_transaction a), acc_fingerprint a, ev_id (acc_event a))"
    using v(2) k pg_keeps_identity by blast
  moreover have "pt_events (view d') (ev_id (acc_event a)) \<noteq> None" using v(2) k pg_keeps_event by fastforce
  ultimately show ?thesis by (simp add: accept_ok_def answered_def)
qed

text \<open>The documented behaviour of each call that an acceptance makes.\<close>

lemma pg_read_known:
  assumes "pg_reads db view writes" "db_query_row db ctx read_identity_sql (identity_args a) d = (x, d')"
  shows "pg_keeps (view d) (view d')" "x = Inr row \<Longrightarrow> pt_identities (view d') (pg_key a) = Some row"
  using assms(1) [unfolded pg_reads_def, THEN conjunct1, rule_format, OF assms(2) [unfolded identity_args_def]] by blast+

lemma pg_select_known:
  assumes "pg_reads db view writes" "tx_query_row db t ctx select_identity_sql (identity_args a) d = (x, d')" "writes t d = []"
  shows "pg_keeps (view d) (view d')" "writes t d' = []" "x = Inr row \<Longrightarrow> pt_identities (view d') (pg_key a) = Some row"
  using assms(1) [unfolded pg_reads_def, THEN conjunct2, rule_format, OF assms(2) [unfolded identity_args_def] assms(3)] by blast+

lemma pg_insert_identity:
  assumes "pg_inserts db view writes" "tx_exec db t ctx insert_transaction_sql (transaction_args a p) d = (x, d')"
  shows "pg_keeps (view d) (view d')"
    and "x = Inr n \<Longrightarrow> writes t d' = writes t d @ [InsertIdentity (pg_key a) (tx_id (acc_transaction a), acc_fingerprint a, ev_id (acc_event a))]"
  using assms(1) [unfolded pg_inserts_def, THEN conjunct1, rule_format, OF assms(2)] by blast+

lemma pg_insert_event:
  assumes "pg_inserts db view writes" "tx_exec db t ctx insert_outbox_sql (outbox_args a p) d = (x, d')"
  shows "pg_keeps (view d) (view d')" and "x = Inr n \<Longrightarrow> writes t d' = writes t d @ [InsertEvent (ev_id (acc_event a))]"
  using assms(1) [unfolded pg_inserts_def, THEN conjunct2, rule_format, OF assms(2)] by blast+

lemma pg_rollback_keeps: "pg_connects db view writes \<Longrightarrow> pg_keeps (view d) (view (tx_rollback db t d))"
  unfolding pg_connects_def by (elim conjE allE)

lemma pg_begin_fresh:
  assumes "pg_connects db view writes" "db_begin db ctx True d = (r, d')"
  shows "pg_keeps (view d) (view d')" "r = Inr t \<Longrightarrow> writes t d' = []"
  using assms(1) [unfolded pg_connects_def, THEN conjunct1, rule_format, OF assms(2)] by blast+

lemma classify_ok:
  assumes "pg_reads db view writes"
  shows "accept_ok view a d (classify_existing db ctx a d)"
proof -
  obtain x d' where x: "db_query_row db ctx read_identity_sql (identity_args a) d = (x, d')" by fastforce
  note k = pg_read_known [OF assms x]
  show ?thesis
  proof (cases x)
    case (Inl e)
    with x k(1) show ?thesis by (simp add: classify_existing_def)
  next
    case (Inr row)
    with x accept_ok_known [where view = view, OF k(1) k(2) [OF Inr]] show ?thesis by (simp add: classify_existing_def)
  qed
qed

abbreviation acceptance_writes :: "acceptance \<Rightarrow> pg_write list" where
  "acceptance_writes a \<equiv> [InsertIdentity (pg_key a) (tx_id (acc_transaction a), acc_fingerprint a, ev_id (acc_event a)),
     InsertEvent (ev_id (acc_event a))]"

lemma commit_acceptance_ok:
  assumes "pg_reads db view writes" "pg_commits db view writes"
    and "writes t d = acceptance_writes a" "tx_commit db t d = (e, d')"
  shows "case e of
      None \<Rightarrow> accept_ok view a d (Inr \<lparr>so_kind = StoreAccepted, so_transaction_id = tx_id (acc_transaction a),
                so_event_id = ev_id (acc_event a)\<rparr>, d')
    | Some x \<Rightarrow> pg_keeps (view d) (view d') \<and> accept_ok view a d (classify_existing db ctx a d')"
proof -
  note com = assms(2) [unfolded pg_commits_def, rule_format, OF assms(4), unfolded assms(3)]
  show ?thesis
  proof (cases e)
    case None
    with com committed_acceptance [of view a d d'] show ?thesis by simp
  next
    case (Some x)
    with com have k: "pg_keeps (view d) (view d')"
      using committed_acceptance [of view a d d'] by (auto simp: accept_ok_def)
    with Some accept_ok_before [where view = view, OF k classify_ok [OF assms(1)]] show ?thesis by simp
  qed
qed

lemma insert_acceptance_ok:
  assumes "pg_reads db view writes" "pg_inserts db view writes" "pg_commits db view writes" "pg_connects db view writes"
    and "writes t d = []"
  shows "accept_ok view a d (insert_acceptance db ctx a tp ep t d)"
proof -
  obtain y d2 where y: "tx_exec db t ctx insert_transaction_sql (transaction_args a tp) d = (y, d2)" by fastforce
  note 2 = pg_insert_identity [OF assms(2) y, unfolded assms(5) append_Nil]
  show ?thesis
  proof (cases y)
    case (Inl e)
    have "pg_keeps (view d) (view (tx_rollback db t d2))"
      by (rule pg_keeps_trans [OF 2(1) pg_rollback_keeps [OF assms(4)]])
    from accept_ok_before [where view = view, OF this classify_ok [OF assms(1)]] 2(1) y Inl show ?thesis
      by (simp add: insert_acceptance_def)
  next
    case (Inr n)
    obtain z d3 where z: "tx_exec db t ctx insert_outbox_sql (outbox_args a ep) d2 = (z, d3)" by fastforce
    note ins = pg_insert_event [OF assms(2) z, unfolded 2(2) [OF Inr] append_Cons append_Nil]
    have d3: "pg_keeps (view d) (view d3)" using 2(1) ins(1) by (rule pg_keeps_trans)
    show ?thesis
    proof (cases z)
      case (Inl e)
      with y \<open>y = Inr n\<close> z d3 show ?thesis by (simp add: insert_acceptance_def)
    next
      case (Inr m)
      obtain e d4 where c: "tx_commit db t d3 = (e, d4)" by fastforce
      note com = commit_acceptance_ok [OF assms(1,3) ins(2) [OF Inr] c, of ctx]
      show ?thesis
      proof (cases e)
        case None
        with com accept_ok_before [where view = view, OF d3] y \<open>y = Inr n\<close> z Inr c show ?thesis
          by (simp add: insert_acceptance_def)
      next
        case (Some x)
        with com have "accept_ok view a d (classify_existing db ctx a d4)" "pg_keeps (view d) (view d4)"
          using accept_ok_before [where view = view, OF d3] pg_keeps_trans [OF d3] by simp_all
        with Some y \<open>y = Inr n\<close> z Inr c show ?thesis by (simp add: insert_acceptance_def)
      qed
    qed
  qed
qed

lemma accept_in_tx_ok:
  assumes "pg_reads db view writes" "pg_inserts db view writes" "pg_commits db view writes" "pg_connects db view writes"
    and "writes t d = []"
  shows "accept_ok view a d (accept_in_tx db ctx a tp ep t d)"
proof -
  obtain x d1 where x: "tx_query_row db t ctx select_identity_sql (identity_args a) d = (x, d1)" by fastforce
  note k1 = pg_select_known(1) [OF assms(1) x assms(5)] and w1 = pg_select_known(2) [OF assms(1) x assms(5)]
    and row1 = pg_select_known(3) [OF assms(1) x assms(5)]
  show ?thesis
  proof (cases x)
    case (Inr row)
    obtain e d2 where c: "tx_commit db t d1 = (e, d2)" by fastforce
    have "pg_keeps (view d1) (view d2)"
      using assms(3) [unfolded pg_commits_def, rule_format, OF c] w1 committed_keeps [of view d1 d2]
      by (auto split: option.splits)
    with k1 have k: "pg_keeps (view d) (view d2)" "pt_identities (view d2) (pg_key a) = Some row"
      using row1 [OF Inr] by (auto intro: pg_keeps_trans pg_keeps_identity)
    from k(1) accept_ok_known [where view = view, OF k] show ?thesis
      using x Inr c by (simp add: accept_in_tx_def split: option.split)
  next
    case (Inl e)
    with x k1 accept_ok_before [where view = view, OF k1 insert_acceptance_ok [OF assms(1-4) w1]] show ?thesis
      by (simp add: accept_in_tx_def)
  qed
qed

lemma pg_documentedD:
  assumes "pg_documented db view writes micros"
  shows "pg_connects db view writes" "pg_reads db view writes" "pg_inserts db view writes"
    "pg_commits db view writes" "pg_updates db view micros" "pg_leases db view micros"
  using assms by (simp_all add: pg_documented_def)

lemma pg_accept_ok:
  assumes "pg_documented db view writes micros"
  shows "accept_ok view a d (pg_accept db ctx a d)"
proof (cases "\<exists>tp ep. marshal_transaction (acc_transaction a) = Inr tp \<and> marshal_event (acc_event a) = Inr ep")
  case False
  then show ?thesis by (auto simp: pg_accept_def split: sum.split)
next
  case True
  then obtain tp ep where m: "marshal_transaction (acc_transaction a) = Inr tp" "marshal_event (acc_event a) = Inr ep" by blast
  note doc = pg_documentedD [OF assms]
  obtain r d1 where b: "db_begin db ctx True d = (r, d1)" by fastforce
  note k = pg_begin_fresh(1) [OF doc(1) b] and w = pg_begin_fresh(2) [OF doc(1) b]
  show ?thesis
  proof (cases r)
    case (Inl e)
    with m b k show ?thesis by (simp add: pg_accept_def)
  next
    case (Inr t)
    obtain q d2 where q: "accept_in_tx db ctx a tp ep t d1 = (q, d2)" by fastforce
    from accept_ok_before [where view = view, OF k accept_in_tx_ok [OF doc(2-4,1) w [OF Inr]]] q
    have ok: "accept_ok view a d (q, d2)" by metis
    note pg_rollback_keeps [OF doc(1), of d2 t]
    with ok have "pg_keeps (view d) (view (tx_rollback db t d2))" by (auto simp: accept_ok_def intro: pg_keeps_trans)
    with ok m b Inr q show ?thesis by (cases q) (simp_all add: pg_accept_def)
  qed
qed

subsection \<open>Outcomes and claims\<close>

lemma updates_rowsD:
  assumes "updates_rows db view sql args upd" "\<And>v. pg_keeps v (snd (upd v))" "db_exec db ctx sql args d = (r, d')"
  shows "pg_keeps (view d) (view d')"
    and "r = Inr (Inr 1) \<Longrightarrow> \<exists>v. pg_keeps (view d) v \<and> fst (upd v) = 1 \<and> pg_keeps (snd (upd v)) (view d')"
proof -
  from assms(1,3) obtain v where v: "pg_keeps (view d) v"
    "case r of Inl e \<Rightarrow> pg_keeps v (view d') \<or> pg_keeps (snd (upd v)) (view d')
       | Inr res \<Rightarrow> pg_keeps (snd (upd v)) (view d') \<and> (\<forall>n. res = Inr n \<longrightarrow> n = fst (upd v))"
    unfolding updates_rows_def by blast
  then have "pg_keeps v (view d')" using assms(2) [of v] by (auto split: sum.splits intro: pg_keeps_trans)
  with v(1) show "pg_keeps (view d) (view d')" by (rule pg_keeps_trans)
  show "\<exists>v. pg_keeps (view d) v \<and> fst (upd v) = 1 \<and> pg_keeps (snd (upd v)) (view d')" if "r = Inr (Inr 1)"
    using v that by (intro exI [of _ v]) auto
qed

lemma require_one: "require_claim_updated res eid = None \<longleftrightarrow> res = Inr 1"
  by (auto simp: require_claim_updated_def split: sum.splits)

text \<open>An update that reports success changed the one row that was held with the token.\<close>

definition changed_row :: "'d pg_view \<Rightarrow> go_string \<Rightarrow> go_string \<Rightarrow> (pg_event \<Rightarrow> pg_event) \<Rightarrow> 'd \<Rightarrow> 'd \<Rightarrow> bool" where
  "changed_row view eid token f d d' \<longleftrightarrow>
     (\<exists>v w x. pg_keeps (view d) v \<and> pt_events v eid = Some x \<and> held_row token x
        \<and> pt_events w eid = Some (f x) \<and> pg_keeps w (view d'))"

lemma held_update:
  assumes "updates_rows db view sql args (update_held eid token f)" "db_exec db ctx sql args d = (r, d')"
  shows "pg_keeps (view d) (view d')" and "r = Inr (Inr 1) \<Longrightarrow> changed_row view eid token f d d'"
proof -
  note u = updates_rowsD [OF assms(1) update_held_keeps assms(2)]
  show "pg_keeps (view d) (view d')" by (rule u(1))
  assume "r = Inr (Inr 1)"
  from u(2) [OF this] obtain v where v: "pg_keeps (view d) v" "fst (update_held eid token f v) = 1"
    "pg_keeps (snd (update_held eid token f v)) (view d')" by blast
  with update_held_one [OF v(2)] show "changed_row view eid token f d d'" unfolding changed_row_def by blast
qed

lemma pg_mark_effect:
  assumes "pg_documented db view writes micros" "pg_mark db ctx eid token at d = (e, d')"
  shows "pg_keeps (view d) (view d')"
    and "e = None \<Longrightarrow> changed_row view eid token (set_published (micros at)) d d'"
proof -
  obtain r d1 where r: "db_exec db ctx mark_published_sql (mark_args at eid token) d = (r, d1)" by fastforce
  have "updates_rows db view mark_published_sql (mark_args at eid token) (update_held eid token (set_published (micros at)))"
    using pg_documentedD(5) [OF assms(1)] unfolding pg_updates_def by blast
  note u = held_update [OF this r]
  from assms(2) r have "d' = d1" "e = None \<longrightarrow> r = Inr (Inr 1)"
    by (auto simp: pg_mark_def require_one split: sum.splits)
  with u show "pg_keeps (view d) (view d')" "e = None \<Longrightarrow> changed_row view eid token (set_published (micros at)) d d'" by auto
qed

lemma pg_failure_effect:
  assumes "pg_documented db view writes micros" "pg_record_failure db ctx f d = (e, d')"
  shows "pg_keeps (view d) (view d')"
    and "e = None \<Longrightarrow> changed_row view (pf_event_id f) (pf_claim_token f) (set_failure micros f) d d'"
proof -
  obtain r d1 where r: "db_exec db ctx record_failure_sql (failure_args f) d = (r, d1)" by fastforce
  have "updates_rows db view record_failure_sql (failure_args f) (update_held (pf_event_id f) (pf_claim_token f) (set_failure micros f))"
    using pg_documentedD(5) [OF assms(1)] unfolding pg_updates_def by blast
  note u = held_update [OF this r]
  from assms(2) r have "d' = d1" "e = None \<longrightarrow> r = Inr (Inr 1)"
    by (auto simp: pg_record_failure_def require_one split: sum.splits)
  with u show "pg_keeps (view d) (view d')"
    "e = None \<Longrightarrow> changed_row view (pf_event_id f) (pf_claim_token f) (set_failure micros f) d d'" by auto
qed

lemma scan_rows_ok:
  assumes "scan_rows rows evs = Inr ps"
  shows "\<exists>new. ps = evs @ new \<and> length new = length rows
     \<and> (\<forall>p \<in> set new. \<exists>row. Inr row \<in> set rows \<and> decode_row row = Inr p)"
  using assms
proof (induction rows evs rule: scan_rows.induct)
  case (3 r rs events)
  then obtain p where p: "decode_row r = Inr p" "scan_rows rs (events @ [p]) = Inr ps" by (auto split: sum.splits)
  from "3.IH" [OF p] obtain new where "ps = (events @ [p]) @ new" "length new = length rs"
    "\<forall>q \<in> set new. \<exists>row. Inr row \<in> set rs \<and> decode_row row = Inr q" by blast
  with p(1) show ?case by (intro exI [of _ "p # new"]) auto
qed auto

lemma decode_row_token: "decode_row row = Inr p \<Longrightarrow> pe_claim_token p = cr_token row"
  by (auto simp: decode_row_def Let_def split: sum.splits)

lemma pg_claim_effect:
  assumes "pg_documented db view writes micros" "pg_claim db ctx tokens now lease limit d = (r, d')"
  shows "pg_keeps (view d) (view d')"
    and "r = Inr ps \<Longrightarrow> int (length ps) \<le> max 0 limit \<and> (\<forall>p \<in> set ps. pe_claim_token p = tokens 0)"
proof -
  obtain x d1 where x: "db_query db ctx claim_pending_sql (claim_args now limit lease (tokens 0)) d = (x, d1)" by fastforce
  from pg_documentedD(6) [OF assms(1), unfolded pg_leases_def, rule_format, OF x] obtain v es where v:
    "pg_keeps (view d) v" "\<forall>e \<in> set es. \<exists>x. pt_events v e = Some x \<and> row_due (micros now) x"
    "pg_keeps (set_leases es (micros (time_add now lease)) (tokens 0) v) (view d1)" "int (length es) \<le> max 0 limit"
    and rows: "\<And>rows err. x = Inr (rows, err) \<Longrightarrow> length rows \<le> length es \<and> (\<forall>row. Inr row \<in> set rows \<longrightarrow> cr_token row = tokens 0)"
    by blast
  have d1: "d' = d1" using assms(2) x by (auto simp: pg_claim_def split: sum.splits)
  show "pg_keeps (view d) (view d')" unfolding d1
    using v(1) set_leases_keeps [OF v(2)] v(3) by (blast intro: pg_keeps_trans)
  assume "r = Inr ps"
  with assms(2) x obtain rows err where q: "x = Inr (rows, err)" "scan_rows rows [] = Inr ps"
    by (auto simp: pg_claim_def split: sum.splits if_splits option.splits)
  from scan_rows_ok [OF q(2)] rows [OF q(1)] v(4)
  show "int (length ps) \<le> max 0 limit \<and> (\<forall>p \<in> set ps. pe_claim_token p = tokens 0)"
    using decode_row_token by fastforce
qed

subsection \<open>Steps\<close>

inductive pg_step :: "('d, 't) sql_db \<Rightarrow> 'd \<Rightarrow> 'd \<Rightarrow> bool" for db where
  pg_accepts: "pg_accept db ctx a d = (r, d') \<Longrightarrow> pg_step db d d'"
| pg_claims: "pg_claim db ctx tokens now lease limit d = (r, d') \<Longrightarrow> pg_step db d d'"
| pg_marks: "pg_mark db ctx eid token at d = (e, d') \<Longrightarrow> pg_step db d d'"
| pg_fails: "pg_record_failure db ctx f d = (e, d') \<Longrightarrow> pg_step db d d'"

lemma pg_step_keeps:
  assumes "pg_documented db view writes micros" "pg_step db d d'"
  shows "pg_keeps (view d) (view d')"
  using assms(2)
proof cases
  case (pg_accepts ctx a r)
  with pg_accept_ok [OF assms(1), of a d ctx] show ?thesis by (simp add: accept_ok_def)
next
  case (pg_claims ctx tokens now lease limit r)
  from pg_claim_effect(1) [OF assms(1) this] show ?thesis .
next
  case (pg_marks ctx eid token at e)
  from pg_mark_effect(1) [OF assms(1) this] show ?thesis .
next
  case (pg_fails ctx f e)
  from pg_failure_effect(1) [OF assms(1) this] show ?thesis .
qed

lemma pg_steps_keep:
  assumes "pg_documented db view writes micros" "(pg_step db)\<^sup>*\<^sup>* d d'"
  shows "pg_keeps (view d) (view d')"
  using assms(2) by induction (auto intro: pg_keeps_trans pg_step_keeps [OF assms(1)])

end
