(* ===== verification/DynamoProperties.thy ===== *)
theory DynamoProperties
  imports DynamoSystem
begin

text \<open>
  Properties of the DynamoDB store, over every service that behaves as documented and every
  sequence of its operations. The witnesses run it on the table in memory.
\<close>

subsection \<open>A run on the table in memory\<close>

definition sample_acceptance :: acceptance where
  "sample_acceptance = build_acceptance example_id example_now example_command ''fp-1''"

definition sample_outcome :: store_outcome where
  "sample_outcome = \<lparr>so_kind = StoreAccepted, so_transaction_id = ''t-1'', so_event_id = ''e-1''\<rparr>"

lemma sample_years: "marshal_time \<lparr>t_ns = 1, t_zone = 0\<rparr> = Inr (quote_char # format_rfc3339nano \<lparr>t_ns = 1, t_zone = 0\<rparr> @ [quote_char])"
  "marshal_time \<lparr>t_ns = 100, t_zone = 0\<rparr> = Inr (quote_char # format_rfc3339nano \<lparr>t_ns = 100, t_zone = 0\<rparr> @ [quote_char])"
proof -
  have "time_year \<lparr>t_ns = 1, t_zone = 0\<rparr> = 1" "time_year \<lparr>t_ns = 100, t_zone = 0\<rparr> = 1"
    by (simp_all add: time_year_def go_eval)
  then show "marshal_time \<lparr>t_ns = 1, t_zone = 0\<rparr> = Inr (quote_char # format_rfc3339nano \<lparr>t_ns = 1, t_zone = 0\<rparr> @ [quote_char])"
    "marshal_time \<lparr>t_ns = 100, t_zone = 0\<rparr> = Inr (quote_char # format_rfc3339nano \<lparr>t_ns = 100, t_zone = 0\<rparr> @ [quote_char])"
    by (simp_all add: marshal_time_def)
qed

lemma sample_parts:
  "tx_time (acc_transaction sample_acceptance) = \<lparr>t_ns = 1, t_zone = 0\<rparr>"
  "tx_location_raw (acc_transaction sample_acceptance) = None" "tx_metadata_raw (acc_transaction sample_acceptance) = None"
  "ev_occurred_at (acc_event sample_acceptance) = \<lparr>t_ns = 100, t_zone = 0\<rparr>"
  "ev_payload (acc_event sample_acceptance) = acc_transaction sample_acceptance"
  by (simp_all add: sample_acceptance_def build_acceptance_def Let_def example_command_def example_transaction_def
      example_now_def time_utc_def)

lemma sample_transaction_marshals: "\<exists>tp. marshal_transaction (acc_transaction sample_acceptance) = Inr tp"
  unfolding marshal_transaction_def sample_parts sample_years marshal_raw_def by simp

lemma sample_event_marshals: "\<exists>ep. marshal_event (acc_event sample_acceptance) = Inr ep"
  using sample_transaction_marshals unfolding marshal_event_def sample_parts sample_years by auto

lemma sample_run: "\<exists>d'. dynamo_accept sample_store None sample_acceptance [] = (Inr sample_outcome, d')"
proof -
  obtain tp ep where m: "marshal_transaction (acc_transaction sample_acceptance) = Inr tp"
    "marshal_event (acc_event sample_acceptance) = Inr ep"
    using sample_transaction_marshals sample_event_marshals by blast
  have out: "\<lparr>so_kind = StoreAccepted, so_transaction_id = tx_id (acc_transaction sample_acceptance),
      so_event_id = ev_id (acc_event sample_acceptance)\<rparr> = sample_outcome"
    by (simp add: sample_outcome_def sample_acceptance_def example_command_def example_transaction_def example_id_def)
  have "sample_get ctx r [] = (Inr [], [])" for ctx r by (simp add: sample_get_def)
  then have read: "read_identity sample_store None k fp [] = (Inr None, [])" for k fp
    by (simp add: read_identity_def sample_store_def)
  have "\<exists>d'. dc_transact (ds_client sample_store) None
      [put_new sample_store (transaction_item sample_acceptance tp), put_new sample_store (outbox_item sample_acceptance ep)] []
      = (None, d')"
    by (simp add: sample_store_def sample_transact_def Let_def)
  then show ?thesis using m read out by (auto simp: dynamo_accept_def Let_def)
qed

text \<open>A table whose only event is held with the token \<open>k\<close>.\<close>

definition sample_held :: sample_table where
  "sample_held = [(event_key ''e-1'', [(''status'', AttrS ''pending''), (''claim_token'', AttrS ''k'')])]"



text \<open>An acceptance that was written, as a change of the table.\<close>

lemma accept_written_table:
  assumes "accept_written view a d r d'"
  shows "view d' \<noteq> view d"
    and "\<exists>tp. view d' (dynamo_identity_key (acc_transaction a), ''TRANSACTION'') = Some (transaction_item a tp)"
proof -
  from assms obtain tp where n: "view d (dynamo_identity_key (acc_transaction a), ''TRANSACTION'') = None"
    and v: "view d' (dynamo_identity_key (acc_transaction a), ''TRANSACTION'') = Some (transaction_item a tp)"
    unfolding accept_written_def by fastforce
  from n v show "view d' \<noteq> view d" by auto
  from v show "\<exists>tp. view d' (dynamo_identity_key (acc_transaction a), ''TRANSACTION'') = Some (transaction_item a tp)" by blast
qed

lemma documented_accept:
  assumes "dynamo_documented st view" "dynamo_accept st ctx a d = (r, d')"
  shows "accept_unchanged view a d r d' \<or> accept_written view a d r d'"
  by (rule dynamo_accept_cases [OF _ _ assms(2)]) (use assms(1) in \<open>simp_all add: dynamo_documented_def\<close>)

lemma accepted_written:
  assumes "dynamo_documented st view" "dynamo_accept st ctx a d = (Inr out, d')" "so_kind out = StoreAccepted"
  shows "accept_written view a d (Inr out) d'"
  using documented_accept [OF assms(1,2)] assms(3) by (auto simp: accept_unchanged_def known_outcome_def split: if_splits)

lemma sample_written:
  "\<exists>d'. dynamo_accept sample_store None sample_acceptance [] = (Inr sample_outcome, d')
     \<and> accept_written map_of sample_acceptance [] (Inr sample_outcome) d'"
proof -
  from sample_run obtain d' where "dynamo_accept sample_store None sample_acceptance [] = (Inr sample_outcome, d')" ..
  with accepted_written [OF sample_documented this] show ?thesis by (simp add: sample_outcome_def)
qed

subsection \<open>Properties\<close>



text \<open>
  C25: an acceptance that reached the table, even when it was reported as an error, is final: after
  any further operations, a submission of the same identity key changes nothing, and gets the
  replay of that acceptance, or a conflict when its fingerprint differs, or an error.
\<close>

theorem dynamo_resubmission:
  assumes "dynamo_documented st view" "queries_forward st view rank"
    and "dynamo_accept st ctx a d = (r, d1)" "view d1 \<noteq> view d"
    and "(dynamo_step st)\<^sup>*\<^sup>* d1 d2" "dynamo_accept st ctx' a' d2 = (r', d3)"
    and "dynamo_identity_key (acc_transaction a') = dynamo_identity_key (acc_transaction a)"
  shows "view d3 = view d2
     \<and> (r' = Inr (if acc_fingerprint a' = acc_fingerprint a
                  then \<lparr>so_kind = StoreReplay, so_transaction_id = tx_id (acc_transaction a), so_event_id = ev_id (acc_event a)\<rparr>
                  else \<lparr>so_kind = StoreConflict, so_transaction_id = [], so_event_id = []\<rparr>)
        \<or> (\<exists>e. r' = Inl e))"
proof -
  let ?k = "(dynamo_identity_key (acc_transaction a), ''TRANSACTION'')"
  have reads: "reads_items st view" using assms(1) by (simp add: dynamo_documented_def)
  from documented_accept [OF assms(1,3)] assms(4) have "accept_written view a d r d1" by (auto simp: accept_unchanged_def)
  from accept_written_table(2) [OF this] obtain tp where "view d1 ?k = Some (transaction_item a tp)" ..
  then have "view d2 ?k = Some (transaction_item a tp)" by (rule steps_keep(1) [OF assms(1,2), OF assms(5)])
  from dynamo_accept_known [OF reads assms(6), OF this [folded assms(7)] transaction_item_identity]
  show ?thesis by (auto simp: known_outcome_def)
qed

theorem dynamo_resubmission_witness:
  "\<exists>d1. dynamo_accept sample_store None sample_acceptance [] = (Inr sample_outcome, d1) \<and> map_of d1 \<noteq> map_of []
     \<and> map_of (snd (dynamo_accept sample_store None sample_acceptance d1)) = map_of d1"
proof -
  from sample_written obtain d1 where r: "dynamo_accept sample_store None sample_acceptance [] = (Inr sample_outcome, d1)"
    and w: "accept_written map_of sample_acceptance [] (Inr sample_outcome) d1" by blast
  note n = accept_written_table(1) [OF w]
  obtain r' d3 where again: "dynamo_accept sample_store None sample_acceptance d1 = (r', d3)" by fastforce
  from dynamo_resubmission [OF sample_documented sample_forward, OF r n rtranclp.rtrancl_refl again refl] r n again
  show ?thesis by simp
qed

text \<open>
  C26: in every table that the operations lead to from an empty one, each stored transaction names
  an outbox event that is still in the dispatch queue, or is published or has failed for good:
  no accepted transaction is ever without its event, whatever calls failed on the way.
\<close>

theorem dynamo_event_tracked:
  assumes "dynamo_documented st view" "queries_forward st view rank"
    and "\<forall>k. view d k = None" "(dynamo_step st)\<^sup>*\<^sup>* d d'"
    and "view d' (k, ''TRANSACTION'') = Some it"
  shows "\<exists>fp tid eid ev. identity_item it fp tid eid \<and> view d' (event_key eid) = Some ev \<and> (queued ev \<or> final_item ev)"
proof -
  from assms(4) have "tracked (view d')"
  proof induction
    case base
    show ?case using assms(3) by (simp add: tracked_def)
  next
    case (step d1 d2)
    from tracked_step [OF assms(1,2) step.hyps(2) step.IH] show ?case .
  qed
  from trackedD [OF this assms(5)] show ?thesis .
qed

theorem dynamo_event_tracked_witness:
  "\<exists>d' it fp tid eid ev. (dynamo_step sample_store)\<^sup>*\<^sup>* [] d' \<and> map_of d' (''TX#roadside#r-1'', ''TRANSACTION'') = Some it
     \<and> identity_item it fp tid eid \<and> map_of d' (event_key eid) = Some ev \<and> (queued ev \<or> final_item ev)"
proof -
  from sample_written obtain d1 where r: "dynamo_accept sample_store None sample_acceptance [] = (Inr sample_outcome, d1)"
    and w: "accept_written map_of sample_acceptance [] (Inr sample_outcome) d1" by blast
  have k: "dynamo_identity_key (acc_transaction sample_acceptance) = ''TX#roadside#r-1''"
    by (simp add: dynamo_identity_key_def sample_acceptance_def example_command_def example_transaction_def)
  from accept_written_table(2) [OF w] k obtain it where it: "map_of d1 (''TX#roadside#r-1'', ''TRANSACTION'') = Some it"
    by auto
  have "(dynamo_step sample_store)\<^sup>*\<^sup>* [] d1" by (rule r_into_rtranclp) (rule dyn_accept [OF r])
  moreover from dynamo_event_tracked [OF sample_documented sample_forward, OF _ this it]
  have "\<exists>fp tid eid ev. identity_item it fp tid eid \<and> map_of d1 (event_key eid) = Some ev \<and> (queued ev \<or> final_item ev)"
    by simp
  ultimately show ?thesis using it by blast
qed



text \<open>
  C28: \<open>ClaimPending\<close> on DynamoDB ends whenever the pages of the query move forward. It returns at
  most \<open>limit\<close> events, each with the token of another call of \<open>rand.Text\<close>, and it changes nothing
  in the table but the leases and tokens of pending outbox items, even when it fails half-way.
\<close>

theorem dynamo_claim_ends:
  assumes "dynamo_documented st view" "queries_forward st view rank"
  shows "\<exists>r d'. dynamo_claim st ctx tokens now lease limit d = Some (r, d') \<and> only_leases view d d'
     \<and> (\<forall>ps. r = Inr ps \<longrightarrow> int (length ps) \<le> max 0 limit
          \<and> (\<exists>ns. map pe_claim_token ps = map tokens ns \<and> sorted_wrt (<) ns))"
proof -
  have u: "understands_updates st view" using assms(1) by (simp add: dynamo_documented_def)
  have "\<exists>x. dynamo_claim st ctx tokens now lease limit d = Some x"
    using claim_pages_returns [OF assms(2)] by (simp add: dynamo_claim_def)
  then obtain r d' where x: "dynamo_claim st ctx tokens now lease limit d = Some (r, d')" by auto
  from dynamo_claim_ok [OF u assms(2) x] x show ?thesis by (auto simp: claimed_with_def)
qed

theorem dynamo_claim_ends_witness:
  "\<exists>r d'. dynamo_claim sample_store None example_token example_now (seconds_dur 30) 10 sample_held = Some (r, d')
     \<and> only_leases map_of sample_held d'"
  using dynamo_claim_ends [OF sample_documented sample_forward] by blast


end
