(* ===== verification/PostgresProperties.thy ===== *)
theory PostgresProperties
  imports PostgresFacts DynamoProperties
begin

text \<open>
  Properties of the PostgreSQL store, over every server that behaves as documented and whatever
  other processes do beside it. The witnesses run it on tables in memory.
\<close>

subsection \<open>Tables in memory\<close>

type_synonym memory_tables = "pg_tables \<times> pg_write list"

definition memory_row :: "sql_value list \<Rightarrow> memory_tables \<Rightarrow> (sql_error + identity_row) \<times> memory_tables" where
  "memory_row args d =
     (case args of
        [SqlText s, SqlText r] \<Rightarrow>
          (case pt_identities (fst d) (s, r) of None \<Rightarrow> (Inl NoRows, d) | Some row \<Rightarrow> (Inr row, d))
      | _ \<Rightarrow> (Inl NoRows, d))"

definition memory_insert :: "sql_value list \<Rightarrow> memory_tables \<Rightarrow> (sql_error + sql_result) \<times> memory_tables" where
  "memory_insert args d =
     (case args of
        [SqlText i, SqlText s, SqlText r, SqlText fp, _, _, _, SqlText e] \<Rightarrow>
          (Inr (Inr 1), fst d, snd d @ [InsertIdentity (s, r) (i, fp, e)])
      | [SqlText e, _, _, _, SqlTime _] \<Rightarrow> (Inr (Inr 1), fst d, snd d @ [InsertEvent e])
      | _ \<Rightarrow> (Inr (Inr 0), d))"

definition memory_commit :: "memory_tables \<Rightarrow> sql_error option \<times> memory_tables" where
  "memory_commit d =
     (case apply_writes (snd d) (fst d) of
        None \<Rightarrow> (Some (SqlState ''23505''), fst d, []) | Some w \<Rightarrow> (None, w, []))"

definition memory_micros :: "gotime \<Rightarrow> int" where
  "memory_micros t = t_ns t div 1000"

definition memory_update :: "sql_value list \<Rightarrow> memory_tables \<Rightarrow> (sql_error + sql_result) \<times> memory_tables" where
  "memory_update args d =
     (case args of
        [SqlTime at, SqlText e, SqlText tok] \<Rightarrow>
          (case update_held e tok (set_published (memory_micros at)) (fst d) of (n, w) \<Rightarrow> (Inr (Inr n), w, snd d))
      | [SqlText st, SqlInt n, SqlTime at, SqlText reason, SqlText e, SqlText tok] \<Rightarrow>
          (case update_held e tok (\<lambda>x. x\<lparr>pv_status := st, pv_attempts := n, pv_retry := Some (memory_micros at),
                                       pv_lease := None, pv_token := None\<rparr>) (fst d) of
             (n, w) \<Rightarrow> (Inr (Inr n), w, snd d))
      | _ \<Rightarrow> (Inr (Inr 0), d))"

text \<open>Only the event \<open>e-1\<close> is ever claimed here.\<close>

definition memory_claim ::
  "sql_value list \<Rightarrow> memory_tables \<Rightarrow> (sql_error + (sql_error + claimed_row) list \<times> sql_error option) \<times> memory_tables" where
  "memory_claim args d =
     (case args of
        [SqlTime now, SqlInt limit, SqlTime until, SqlText tok] \<Rightarrow>
          (case pt_events (fst d) ''e-1'' of
             Some x \<Rightarrow>
               if 1 \<le> limit \<and> row_due (memory_micros now) x
               then (Inr ([Inr \<lparr>cr_payload = ''null'', cr_location = None, cr_metadata = None,
                                cr_attempts = pv_attempts x, cr_token = tok\<rparr>], None),
                     set_leases [''e-1''] (memory_micros until) tok (fst d), snd d)
               else (Inr ([], None), d)
           | None \<Rightarrow> (Inr ([], None), d))
      | _ \<Rightarrow> (Inr ([], None), d))"

definition memory_db :: "(memory_tables, unit) sql_db" where
  "memory_db =
     \<lparr>db_ping = (\<lambda>ctx d. (None, d)), db_begin = (\<lambda>ctx serializable d. (Inr (), fst d, [])),
      db_query_row = (\<lambda>ctx sql args d. memory_row args d), db_query = (\<lambda>ctx sql args d. memory_claim args d),
      db_exec = (\<lambda>ctx sql args d. memory_update args d), tx_query_row = (\<lambda>t ctx sql args d. memory_row args d),
      tx_exec = (\<lambda>t ctx sql args d. memory_insert args d), tx_commit = (\<lambda>t d. memory_commit d),
      tx_rollback = (\<lambda>t d. (fst d, []))\<rparr>"

abbreviation memory_writes :: "unit \<Rightarrow> memory_tables \<Rightarrow> pg_write list" where
  "memory_writes t d \<equiv> snd d"

lemma memory_documented: "pg_documented memory_db fst memory_writes memory_micros"
  unfolding pg_documented_def
proof (intro conjI)
  show "pg_connects memory_db fst memory_writes" by (auto simp: pg_connects_def memory_db_def)
  show "pg_reads memory_db fst memory_writes"
    by (auto simp: pg_reads_def memory_db_def memory_row_def split: option.splits)
  show "pg_inserts memory_db fst memory_writes"
    by (auto simp: pg_inserts_def memory_db_def memory_insert_def transaction_args_def outbox_args_def Let_def)
  show "pg_commits memory_db fst memory_writes"
    unfolding pg_commits_def
  proof (intro allI impI)
    fix t d e d' assume c: "tx_commit memory_db t d = (e, d')"
    show "case e of None \<Rightarrow> committed fst (memory_writes t d) d d'
       | Some x \<Rightarrow> pg_keeps (fst d) (fst d') \<or> \<not> is_concurrency_conflict x \<and> committed fst (memory_writes t d) d d'"
    proof (cases "apply_writes (snd d) (fst d)")
      case None
      with c show ?thesis by (auto simp: memory_db_def memory_commit_def)
    next
      case (Some w)
      with c have "e = None" "fst d' = w" by (auto simp: memory_db_def memory_commit_def)
      with Some pg_keeps_refl show ?thesis unfolding committed_def by fastforce
    qed
  qed
  have u: "updates_rows memory_db fst sql args upd"
    if "\<And>d. memory_update args d = (case upd (fst d) of (n, w) \<Rightarrow> (Inr (Inr n), w, snd d))" for sql args upd
    unfolding updates_rows_def
  proof (intro allI impI)
    fix ctx d r d' assume "db_exec memory_db ctx sql args d = (r, d')"
    then have "r = Inr (Inr (fst (upd (fst d))))" "fst d' = snd (upd (fst d))"
      by (auto simp: memory_db_def that split: prod.splits)
    then show "\<exists>v. pg_keeps (fst d) v \<and> (case r of Inl e \<Rightarrow> pg_keeps v (fst d') \<or> pg_keeps (snd (upd v)) (fst d')
        | Inr res \<Rightarrow> pg_keeps (snd (upd v)) (fst d') \<and> (\<forall>n. res = Inr n \<longrightarrow> n = fst (upd v)))"
      by (intro exI [of _ "fst d"]) simp
  qed
  show "pg_updates memory_db fst memory_micros"
    unfolding pg_updates_def
  proof (intro conjI allI)
    show "updates_rows memory_db fst mark_published_sql (mark_args at eid token)
        (update_held eid token (set_published (memory_micros at)))" for at eid token
      by (rule u) (simp add: memory_update_def mark_args_def)
    show "updates_rows memory_db fst record_failure_sql (failure_args f)
        (update_held (pf_event_id f) (pf_claim_token f) (set_failure memory_micros f))" for f
      by (rule u) (simp add: memory_update_def failure_args_def set_failure_def [abs_def])
  qed
  show "pg_leases memory_db fst memory_micros"
    unfolding pg_leases_def
  proof (intro allI impI)
    fix ctx now limit lease token d r d'
    assume "db_query memory_db ctx claim_pending_sql (claim_args now limit lease token) d = (r, d')"
    then have run: "memory_claim (claim_args now limit lease token) d = (r, d')" by (simp add: memory_db_def)
    let ?until = "memory_micros (time_add now lease)"
    show "\<exists>v es. pg_keeps (fst d) v \<and> (\<forall>e \<in> set es. \<exists>x. pt_events v e = Some x \<and> row_due (memory_micros now) x)
        \<and> pg_keeps (set_leases es ?until token v) (fst d') \<and> int (length es) \<le> max 0 limit
        \<and> (\<forall>rows err. r = Inr (rows, err) \<longrightarrow> length rows \<le> length es \<and> (\<forall>row. Inr row \<in> set rows \<longrightarrow> cr_token row = token))"
    proof (cases "\<exists>x. pt_events (fst d) ''e-1'' = Some x \<and> 1 \<le> limit \<and> row_due (memory_micros now) x")
      case True
      with run show ?thesis
        by (intro exI [of _ "fst d"] exI [of _ "[''e-1'']"]) (auto simp: memory_claim_def claim_args_def)
    next
      case False
      with run have "r = Inr ([], None)" "d' = d" by (auto simp: memory_claim_def claim_args_def split: option.splits if_splits)
      then show ?thesis by (intro exI [of _ "fst d"] exI [of _ "[]"]) (auto simp: set_leases_def)
    qed
  qed
qed

definition empty_tables :: memory_tables where
  "empty_tables = (\<lparr>pt_identities = Map.empty, pt_events = Map.empty\<rparr>, [])"

lemma memory_run: "\<exists>d'. pg_accept memory_db None sample_acceptance empty_tables = (Inr sample_outcome, d')"
proof -
  obtain tp ep where m: "marshal_transaction (acc_transaction sample_acceptance) = Inr tp"
    "marshal_event (acc_event sample_acceptance) = Inr ep"
    using sample_transaction_marshals sample_event_marshals by blast
  have out: "\<lparr>so_kind = StoreAccepted, so_transaction_id = tx_id (acc_transaction sample_acceptance),
      so_event_id = ev_id (acc_event sample_acceptance)\<rparr> = sample_outcome"
    by (simp add: sample_outcome_def sample_acceptance_def example_command_def example_transaction_def example_id_def)
  show ?thesis
    unfolding pg_accept_def m accept_in_tx_def insert_acceptance_def
    by (simp add: memory_db_def empty_tables_def memory_row_def memory_insert_def memory_commit_def identity_args_def
        transaction_args_def outbox_args_def Let_def out)
qed



subsection \<open>Properties\<close>

text \<open>
  C30: \<open>Accept\<close> on PostgreSQL, with other processes at work on the same tables and whatever the
  server answers, keeps every identity and every settled event. An acceptance is reported only if
  the identity was new and now is stored, together with its event; a replay or a conflict is the
  comparison with the fingerprint of the identity that is stored.
\<close>

theorem pg_accept_atomic:
  assumes "pg_documented db view writes micros" "pg_accept db ctx a d = (r, d')"
  shows "pg_keeps (view d) (view d')
     \<and> (\<forall>out. r = Inr out \<longrightarrow>
          (if so_kind out = StoreAccepted
           then pt_identities (view d) (pg_key a) = None
              \<and> pt_identities (view d') (pg_key a) = Some (so_transaction_id out, acc_fingerprint a, so_event_id out)
              \<and> pt_events (view d') (so_event_id out) \<noteq> None
           else \<exists>tid fp eid. pt_identities (view d') (pg_key a) = Some (tid, fp, eid)
              \<and> out = (if fp = acc_fingerprint a then \<lparr>so_kind = StoreReplay, so_transaction_id = tid, so_event_id = eid\<rparr>
                       else \<lparr>so_kind = StoreConflict, so_transaction_id = [], so_event_id = []\<rparr>)))"
proof -
  have ok: "accept_ok view a d (r, d')" using pg_accept_ok [OF assms(1), of a d ctx] assms(2) by simp
  show ?thesis
  proof (intro conjI allI impI)
    show "pg_keeps (view d) (view d')" using ok by (simp add: accept_ok_def)
    fix out assume "r = Inr out"
    with ok have "answered view a d out d'" by (simp add: accept_ok_def)
    then show "if so_kind out = StoreAccepted
        then pt_identities (view d) (pg_key a) = None
           \<and> pt_identities (view d') (pg_key a) = Some (so_transaction_id out, acc_fingerprint a, so_event_id out)
           \<and> pt_events (view d') (so_event_id out) \<noteq> None
        else \<exists>tid fp eid. pt_identities (view d') (pg_key a) = Some (tid, fp, eid)
           \<and> out = (if fp = acc_fingerprint a then \<lparr>so_kind = StoreReplay, so_transaction_id = tid, so_event_id = eid\<rparr>
                    else \<lparr>so_kind = StoreConflict, so_transaction_id = [], so_event_id = []\<rparr>)"
      unfolding answered_def row_outcome_def
    proof
      assume "\<exists>row. pt_identities (view d') (pg_key a) = Some row
          \<and> out = (case row of (tid, stored, eid) \<Rightarrow> if stored = acc_fingerprint a
                then \<lparr>so_kind = StoreReplay, so_transaction_id = tid, so_event_id = eid\<rparr>
                else \<lparr>so_kind = StoreConflict, so_transaction_id = [], so_event_id = []\<rparr>)"
      then obtain tid fp eid where "pt_identities (view d') (pg_key a) = Some (tid, fp, eid)"
        "out = (if fp = acc_fingerprint a then \<lparr>so_kind = StoreReplay, so_transaction_id = tid, so_event_id = eid\<rparr>
                    else \<lparr>so_kind = StoreConflict, so_transaction_id = [], so_event_id = []\<rparr>)" by auto
      then show ?thesis by simp
    qed simp
  qed
qed

theorem pg_accept_atomic_witness:
  "\<exists>d'. pg_accept memory_db None sample_acceptance empty_tables = (Inr sample_outcome, d')
     \<and> pt_identities (fst d') (pg_key sample_acceptance) = Some (''t-1'', ''fp-1'', ''e-1'') \<and> pt_events (fst d') ''e-1'' \<noteq> None"
proof -
  from memory_run obtain d' where r: "pg_accept memory_db None sample_acceptance empty_tables = (Inr sample_outcome, d')" ..
  have "acc_fingerprint sample_acceptance = ''fp-1''" by (simp add: sample_acceptance_def)
  with pg_accept_atomic [OF memory_documented r] r show ?thesis by (simp add: sample_outcome_def)
qed

text \<open>
  C31: after PostgreSQL answered a submission, any later submission of the same source and
  reference is answered from the stored identity: a replay with the same two identifiers, or a
  conflict when the fingerprint differs, or an error. It is never accepted twice.
\<close>

theorem pg_resubmission:
  assumes "pg_documented db view writes micros"
    and "pg_accept db ctx a d = (Inr out, d1)" "so_kind out = StoreAccepted" "(pg_step db)\<^sup>*\<^sup>* d1 d2"
    and "pg_accept db ctx' a' d2 = (Inr out', d3)" "pg_key a' = pg_key a"
  shows "out' = (if acc_fingerprint a' = acc_fingerprint a
                 then \<lparr>so_kind = StoreReplay, so_transaction_id = so_transaction_id out, so_event_id = so_event_id out\<rparr>
                 else \<lparr>so_kind = StoreConflict, so_transaction_id = [], so_event_id = []\<rparr>)"
proof -
  have "accept_ok view a d (Inr out, d1)" using pg_accept_ok [OF assms(1), of a d ctx] assms(2) by simp
  with assms(3) have "pt_identities (view d1) (pg_key a) = Some (so_transaction_id out, acc_fingerprint a, so_event_id out)"
    by (auto simp: accept_ok_def answered_def row_outcome_def split: if_splits)
  from pg_keeps_identity [OF pg_steps_keep [OF assms(1,4)] this]
  have d2: "pt_identities (view d2) (pg_key a) = Some (so_transaction_id out, acc_fingerprint a, so_event_id out)" .
  have ok: "accept_ok view a' d2 (Inr out', d3)" using pg_accept_ok [OF assms(1), of a' d2 ctx'] assms(5) by simp
  then have d3: "pt_identities (view d3) (pg_key a) = Some (so_transaction_id out, acc_fingerprint a, so_event_id out)"
    using d2 by (auto simp: accept_ok_def intro: pg_keeps_identity)
  have "answered view a' d2 out' d3" using ok by (simp add: accept_ok_def)
  with d2 d3 assms(6) show ?thesis by (auto simp: answered_def row_outcome_def)
qed

theorem pg_resubmission_witness:
  "\<exists>d1. pg_accept memory_db None sample_acceptance empty_tables = (Inr sample_outcome, d1)
     \<and> (\<forall>out' d3. pg_accept memory_db None sample_acceptance d1 = (Inr out', d3) \<longrightarrow>
          out' = \<lparr>so_kind = StoreReplay, so_transaction_id = ''t-1'', so_event_id = ''e-1''\<rparr>)"
proof -
  from memory_run obtain d1 where r: "pg_accept memory_db None sample_acceptance empty_tables = (Inr sample_outcome, d1)" ..
  have k: "so_kind sample_outcome = StoreAccepted" by (simp add: sample_outcome_def)
  have "out' = \<lparr>so_kind = StoreReplay, so_transaction_id = ''t-1'', so_event_id = ''e-1''\<rparr>"
    if "pg_accept memory_db None sample_acceptance d1 = (Inr out', d3)" for out' d3
    using pg_resubmission [OF memory_documented, OF r k rtranclp.rtrancl_refl that refl] by (simp add: sample_outcome_def)
  with r show ?thesis by blast
qed



text \<open>
  C33: stores that share the PostgreSQL tables rely on no more of each other than each of them
  guarantees: any sequence of operations keeps all identities and settled events, and an outbox
  event for every identity if there was one for each before.
\<close>

theorem pg_side_by_side:
  assumes "pg_documented db view writes micros" "(pg_step db)\<^sup>*\<^sup>* d d'" "rows_linked (view d)"
  shows "pg_keeps (view d) (view d')
     \<and> (\<forall>k tid fp eid. pt_identities (view d') k = Some (tid, fp, eid) \<longrightarrow> pt_events (view d') eid \<noteq> None)"
proof -
  have k: "pg_keeps (view d) (view d')" by (rule pg_steps_keep [OF assms(1,2)])
  from pg_keeps_linked [OF k assms(3)] k show ?thesis by (simp add: rows_linked_def)
qed

theorem pg_side_by_side_witness:
  "\<exists>d1. (pg_step memory_db)\<^sup>*\<^sup>* empty_tables d1 \<and> pg_keeps (fst empty_tables) (fst d1)
     \<and> pt_identities (fst d1) (pg_key sample_acceptance) \<noteq> None"
proof -
  from memory_run obtain d1 where r: "pg_accept memory_db None sample_acceptance empty_tables = (Inr sample_outcome, d1)" ..
  have steps: "(pg_step memory_db)\<^sup>*\<^sup>* empty_tables d1" by (rule r_into_rtranclp) (rule pg_accepts [OF r])
  have "rows_linked (fst empty_tables)" by (simp add: rows_linked_def empty_tables_def)
  from pg_side_by_side [OF memory_documented, OF steps this] have "pg_keeps (fst empty_tables) (fst d1)" ..
  moreover have "accept_ok fst sample_acceptance empty_tables (Inr sample_outcome, d1)"
    using pg_accept_ok [OF memory_documented, of sample_acceptance empty_tables None] r by simp
  then have "pt_identities (fst d1) (pg_key sample_acceptance) \<noteq> None" by (auto simp: accept_ok_def answered_def)
  ultimately show ?thesis using steps by blast
qed



text \<open>
  C35: the migration reports success exactly when one transaction took the advisory lock, then
  applied the schema and then was committed; whenever a transaction was begun, its rollback is the
  last call, so a failure leaves no open transaction that holds the lock.
\<close>

theorem pg_migrate_ends:
  "(\<exists>d'. pg_migrate db ctx schema d = (None, d'))
     = (\<exists>t n m d1 d2 d3 d4. db_begin db ctx False d = (Inr t, d1)
          \<and> tx_exec db t ctx migration_lock_sql [SqlInt 742021680] d1 = (Inr n, d2)
          \<and> tx_exec db t ctx schema [] d2 = (Inr m, d3) \<and> tx_commit db t d3 = (None, d4))
   \<and> (\<exists>e d1. db_begin db ctx False d = (Inl e, d1) \<and> snd (pg_migrate db ctx schema d) = d1
        \<or> (\<exists>t. db_begin db ctx False d = (Inr t, d1) \<and> (\<exists>d2. snd (pg_migrate db ctx schema d) = tx_rollback db t d2)))"
proof
  show "(\<exists>d'. pg_migrate db ctx schema d = (None, d'))
     = (\<exists>t n m d1 d2 d3 d4. db_begin db ctx False d = (Inr t, d1)
          \<and> tx_exec db t ctx migration_lock_sql [SqlInt 742021680] d1 = (Inr n, d2)
          \<and> tx_exec db t ctx schema [] d2 = (Inr m, d3) \<and> tx_commit db t d3 = (None, d4))"
    by (auto simp: pg_migrate_def migrate_in_tx_def split: sum.split option.split prod.split)
  show "\<exists>e d1. db_begin db ctx False d = (Inl e, d1) \<and> snd (pg_migrate db ctx schema d) = d1
        \<or> (\<exists>t. db_begin db ctx False d = (Inr t, d1) \<and> (\<exists>d2. snd (pg_migrate db ctx schema d) = tx_rollback db t d2))"
    by (cases "db_begin db ctx False d"; cases "fst (db_begin db ctx False d)")
      (auto simp: pg_migrate_def split: prod.split)
qed

end
