(* ===== verification/StarterProperties.thy ===== *)
theory StarterProperties
  imports StarterFacts ServiceProperties PostgresProperties
begin

text \<open>
  Properties of a started process: what the configuration opens, and what holds after any work on
  it, for the two stores that live in the process.
\<close>

subsection \<open>The opened store\<close>

text \<open>The drivers of the stores that live in the process.\<close>

definition local_driver :: "config \<Rightarrow> bool" where
  "local_driver c \<longleftrightarrow> cf_store_driver c = [] \<or> cf_store_driver c = ''memory'' \<or> cf_store_driver c = ''ndjson''"

definition opened_view :: "config \<Rightarrow> ('p, 'd) world \<Rightarrow> outbox" where
  "opened_view c w = (if cf_store_driver c = ''ndjson'' then nd_abs (wd_ndjson w) else mem_abs (wd_memory w))"

definition opened_ok :: "config \<Rightarrow> ('p, 'd) world \<Rightarrow> bool" where
  "opened_ok c w \<longleftrightarrow> (if cf_store_driver c = ''ndjson'' then nd_inv (wd_ndjson w) else mem_inv (wd_memory w))"

definition opened_handle :: "config \<Rightarrow> ('p, 'd) world store_handle" where
  "opened_handle c = (if cf_store_driver c = ''ndjson'' then ndjson_handle else memory_handle)"

lemma opened_simps:
  "cf_store_driver c = ''ndjson'' \<Longrightarrow> opened_handle c = ndjson_handle \<and> opened_view c = (\<lambda>w. nd_abs (wd_ndjson w))
     \<and> opened_ok c = (\<lambda>w. nd_inv (wd_ndjson w))"
  "cf_store_driver c \<noteq> ''ndjson'' \<Longrightarrow> opened_handle c = memory_handle \<and> opened_view c = (\<lambda>w. mem_abs (wd_memory w))
     \<and> opened_ok c = (\<lambda>w. mem_inv (wd_memory w))"
  by (auto simp: opened_handle_def opened_view_def opened_ok_def)

lemma new_store_local:
  assumes "local_driver c" "new_store pf ctx m c w0 = Some (Inr h, w1)"
    and "pf_log pf = (\<lambda>path. nd_new_store path None None None io)"
  shows "h = opened_handle c" "opened_ok c w1" "opened_view c w1 = (\<lambda>_. None)"
    "cf_store_driver c = ''ndjson'' \<Longrightarrow> m = ModeLocal \<and> nd_idents (wd_ndjson w1) = (\<lambda>_. None)"
    "cf_store_driver c \<noteq> ''ndjson'' \<Longrightarrow> mem_idents (wd_memory w1) = (\<lambda>_. None)"
proof -
  have mem: "mem_inv mem_new_store" "mem_abs mem_new_store = (\<lambda>_. None)" "mem_idents mem_new_store = (\<lambda>_. None)" by simp_all
  have nd: "nd_inv (nd_empty_store p None io) \<and> nd_abs (nd_empty_store p None io) = (\<lambda>_. None)
      \<and> nd_idents (nd_empty_store p None io) = (\<lambda>_. None)" for p
    using mem by (simp add: nd_inv_def nd_abs_def nd_idents_def nd_mem_def nd_empty_store_def mem_new_store_def)
  have log_made: "nd_new_store p None None None io = Inr s \<Longrightarrow> s = nd_empty_store p None io" for p s
    by (simp add: nd_new_store_def split: if_splits)
  show "h = opened_handle c" "opened_ok c w1" "opened_view c w1 = (\<lambda>_. None)"
    "cf_store_driver c = ''ndjson'' \<Longrightarrow> m = ModeLocal \<and> nd_idents (wd_ndjson w1) = (\<lambda>_. None)"
    "cf_store_driver c \<noteq> ''ndjson'' \<Longrightarrow> mem_idents (wd_memory w1) = (\<lambda>_. None)"
    using assms mem nd
    by (auto dest!: log_made simp: new_store_def local_driver_def opened_handle_def opened_ok_def opened_view_def
        split: if_splits option.splits sum.splits)
qed

subsection \<open>A run of the local mode\<close>

definition wired_config :: config where
  "wired_config = (config_of example_lookup)
     \<lparr>cf_store_driver := ''memory'', cf_auth_mode := ''api_key'', cf_partner_id := ''partner'', cf_api_key := ''secret'',
      cf_transaction_types := {''toll''}, cf_default_currency := ''USD''\<rparr>"

definition wired_io :: "nat \<Rightarrow> append_io" where
  "wired_io n = \<lparr>ai_open = None, ai_chmod = None, ai_write = None, ai_sync = None\<rparr>"

definition wired_world :: "(memory_tables, sample_table) world" where
  "wired_world =
     \<lparr>wd_memory = mem_new_store, wd_ndjson = nd_empty_store [] None wired_io,
      wd_postgres = (\<lparr>pt_identities = (\<lambda>_. None), pt_events = (\<lambda>_. None)\<rparr>, []), wd_dynamo = []\<rparr>"

definition wired_platform :: "(memory_tables, unit, sample_table) platform" where
  "wired_platform =
     \<lparr>pf_mkdir = None, pf_log = (\<lambda>path. nd_new_store path None None None wired_io), pf_sql_open = None,
      pf_db = memory_db, pf_db_close = (\<lambda>p. (None, p)), pf_schema = [], pf_aws_config = None,
      pf_client = ds_client sample_store, pf_describe = (\<lambda>t d. (Inr (Some TableActive), d)),
      pf_create = (\<lambda>i d. (None, d)), pf_waits = (\<lambda>n. None)\<rparr>"

abbreviation wired_handle :: "(memory_tables, sample_table) world store_handle" where
  "wired_handle \<equiv> memory_handle"

lemma wired_empty: "mem_inv (wd_memory wired_world)" "mem_abs (wd_memory wired_world) = (\<lambda>_. None)"
  by (simp_all add: wired_world_def)

lemma wired_opened:
  "opened_handle wired_config = wired_handle" "opened_view wired_config = (\<lambda>w :: (memory_tables, sample_table) world. mem_abs (wd_memory w))"
  "opened_ok wired_config = (\<lambda>w :: (memory_tables, sample_table) world. mem_inv (wd_memory w))" "local_driver wired_config"
  "new_store wired_platform None ModeLocal wired_config wired_world = Some (Inr wired_handle, wired_world)"
  by (simp_all add: opened_simps(2) wired_config_def local_driver_def new_store_def wired_world_def)

definition wired_exchange :: "go_string \<Rightarrow> exchange" where
  "wired_exchange body =
     \<lparr>ex_request = http_example body, ex_ids = example_id, ex_now = example_now, ex_rid = ''req-1'', ex_probe = None\<rparr>"

definition wired_round :: round where
  "wired_round = \<lparr>rd_ctxs = (\<lambda>_. None), rd_tokens = example_token, rd_clock = example_now, rd_ctx_ended = False, rd_done = True\<rparr>"

text \<open>An acceptance through the handle.\<close>

lemma intake_on_part:
  assumes "\<And>w. upd (\<lambda>_. get w) w = w"
  shows "intake_accept svc (\<lambda>ctx a. on_part get upd (accept ctx a)) new_id now ctx cmd w
     = on_part get upd (intake_accept svc accept new_id now ctx cmd) w"
  using assms by (auto simp: intake_accept_def on_part_def Let_def split: option.split sum.split prod.split)

lemma wired_submits:
  assumes "parse_whole body = Inr (JObject example_members)" "length body \<le> 65536"
  shows "submits wired_handle wired_config (wired_exchange body) w http_transaction"
proof -
  let ?hl = "exchange_handler wired_handle wired_config (wired_exchange body) w"
  have "h_auth ?hl = h_auth http_example_handler" "h_default_currency ?hl = h_default_currency http_example_handler"
    by (simp_all add: exchange_handler_def api_handler_def new_handler_def http_example_handler_def wired_config_def)
  then have "submission ?hl (http_example body) = submission http_example_handler (http_example body)"
    by (simp only: submission_def check_api_key_def)
  with example_submission [OF assms] show ?thesis
    by (simp add: submits_def wired_exchange_def http_example_def)
qed

lemma wired_first:
  assumes "parse_whole body = Inr (JObject example_members)" "length body \<le> 65536"
  shows "\<exists>rsp m ev. serve_exchange wired_handle wired_config (wired_exchange body) wired_world
       = (Some rsp, wired_world\<lparr>wd_memory := m\<rparr>) \<and> rs_status rsp = 201 \<and> mem_inv m
     \<and> ev_id ev = ''e-1'' \<and> ms_events m = fmupd ''e-1'' (fresh_stored_event ev) fmempty"
proof -
  let ?svc = "new_intake_service [Some (cf_transaction_types wired_config)]"
  have x: "ex_ids (wired_exchange body) = example_id" "ex_now (wired_exchange body) = example_now"
    "rq_context (ex_request (wired_exchange body)) = None" by (simp_all add: wired_exchange_def http_example_def)
  from submits_serve [OF wired_submits [OF assms, of wired_world], unfolded x] obtain t cmd where
    t: "http_transaction = without_raw t" "raws_agree t" "cmd_transaction cmd = t" and
    serve: "serve_exchange wired_handle wired_config (wired_exchange body) wired_world
      = map_prod (\<lambda>r. Some (accept_response (answer_headers wired_handle wired_config (wired_exchange body) wired_world) r)) id
         (intake_accept ?svc (sh_accept wired_handle) example_id example_now None cmd wired_world)"
    by blast
  have types: "svc_allowed_types ?svc = {''toll''}" by (simp add: new_intake_service_def allowed_types_def wired_config_def)
  obtain fp where "fingerprint http_transaction [Some {''toll''}] = Inr fp"
    using fingerprint_plain [OF http_transaction_valid] by (auto simp: http_transaction_def example_transaction_def)
  then have fp: "fingerprint (cmd_transaction cmd) [Some (svc_allowed_types ?svc)] = Inr fp"
    using fingerprint_without_raw [OF t(2)] t(1,3) types by simp
  let ?a = "build_acceptance example_id example_now cmd fp"
  have "\<exists>m res. intake_accept ?svc mem_accept example_id example_now None cmd mem_new_store = (Inr res, m)
      \<and> res_kind res = Accepted \<and> ms_events m = fmupd ''e-1'' (fresh_stored_event (clone_event (acc_event ?a))) fmempty"
    unfolding intake_accept_valid [OF fp]
    by (simp add: Let_def mem_accept_def mem_new_store_def interpret_outcome_def example_id_def)
  then obtain m res where m: "intake_accept ?svc mem_accept example_id example_now None cmd mem_new_store = (Inr res, m)"
    "res_kind res = Accepted" "ms_events m = fmupd ''e-1'' (fresh_stored_event (clone_event (acc_event ?a))) fmempty" by blast
  have "intake_accept ?svc (sh_accept wired_handle) example_id example_now None cmd wired_world
      = (Inr res, wired_world\<lparr>wd_memory := m\<rparr>)"
    unfolding memory_handle_def handle_on_simps by (subst intake_on_part) (simp_all add: on_part_def m(1) wired_world_def)
  with serve m show ?thesis
    by (intro exI [of _ "clone_event (acc_event ?a)"] exI [of _ m] exI)
       (auto simp: accept_response_receipt mem_inv_def events_inv_def fresh_stored_event_def clone_event_def example_id_def)
qed

lemma wired_batch:
  assumes "ms_events m = fmupd ''e-1'' (fresh_stored_event ev) fmempty" "ev_id ev = ''e-1''"
  shows "\<exists>r m'. handle_batch wired_handle example_publish wired_round (wired_world\<lparr>wd_memory := m\<rparr>, [])
      = (r, wired_world\<lparr>wd_memory := m'\<rparr>, [ev])
      \<and> (\<exists>e. mem_abs m' ''e-1'' = Some e \<and> es_status e = Published)"
proof -
  let ?m = "m\<lparr>ms_events := fmupd ''e-1'' ((fresh_stored_event ev)\<lparr>se_published := True\<rparr>) fmempty\<rparr>"
  have ids: "sorted_list_of_fset (fmdom (ms_events m)) = [''e-1'']"
    using assms(1) by (simp add: sorted_list_of_fset.rep_eq)
  have "\<exists>r. handle_batch wired_handle example_publish wired_round (wired_world\<lparr>wd_memory := m\<rparr>, [])
      = (r, wired_world\<lparr>wd_memory := ?m\<rparr>, [ev])"
    unfolding handle_batch_def worker_batch_def run_batch_def memory_handle_def handle_on_simps
      on_store_claim_def on_store_mark_def on_part_def mem_claim_def
    using ids assms
    by (simp add: Let_def wired_round_def mem_skip_def fresh_stored_event_def mem_lease_def mem_pending_def
        default_dispatcher_config_def example_token_def example_now_def zero_time_def time_after_def time_utc_def
        dispatch_one_def on_publisher_def example_publish_def mem_mark_def)
  then obtain r where r: "handle_batch wired_handle example_publish wired_round (wired_world\<lparr>wd_memory := m\<rparr>, [])
      = (r, wired_world\<lparr>wd_memory := ?m\<rparr>, [ev])" ..
  have "\<exists>e. mem_abs ?m ''e-1'' = Some e \<and> es_status e = Published"
    by (simp add: mem_abs_def events_abs_def mem_ev_state_def)
  with r show ?thesis by blast
qed

subsection \<open>Delivery\<close>

text \<open>
  C37: a process that was started with the in-memory store or with a new NDJSON log: after any
  requests and worker batches, in any order, every event marked published has been sent to the
  broker, unchanged, and an event is given up exactly when all its attempts are used.
\<close>

theorem started_store_delivers:
  assumes "local_driver c" "new_store pf ctx m c w0 = Some (Inr h, w1)"
    and "pf_log pf = (\<lambda>path. nd_new_store path None None None io)"
    and "log_publisher publish" "fresh_run (opened_view c) h c publish {} ws (w1, [])"
    and "run_work h c publish ws (w1, []) = (rs, w2, sent)" "opened_view c w2 eid = Some e"
  shows "(es_status e = Published \<longrightarrow> es_event e \<in> set sent)
     \<and> (es_status e = Failed \<longleftrightarrow> es_attempts e = cfg_max_attempts default_dispatcher_config)
     \<and> es_attempts e \<le> cfg_max_attempts default_dispatcher_config"
proof -
  note opened = new_store_local [OF assms(1-3)]
  have "\<exists>S. sys_store S = w2 \<and> sys_log S = sent \<and> event_ok default_dispatcher_config S eid e"
  proof (cases "cf_store_driver c = ''ndjson''")
    case True
    note o = opened_simps(1) [OF True]
    show ?thesis
      using opened_ndjson.run_work_event [OF refl refl refl refl assms(4), of w1 c ws rs w2 sent eid e] opened(1-4) True assms(5-7)
      by (simp add: o)
  next
    case False
    note o = opened_simps(2) [OF False]
    show ?thesis
      using opened_memory.run_work_event [OF refl refl refl refl assms(4), of w1 c ws rs w2 sent eid e] opened(1-3,5) False assms(5-7)
      by (simp add: o)
  qed
  then show ?thesis unfolding event_ok_def by force
qed

theorem started_store_delivers_witness:
  "\<exists>rs w2 ev e. run_work wired_handle wired_config example_publish
       [Serve (wired_exchange (marshal (JObject example_members))), Batch wired_round] (wired_world, []) = (rs, w2, [ev])
     \<and> opened_view wired_config w2 ''e-1'' = Some e \<and> es_status e = Published \<and> es_event e = ev"
proof -
  let ?x = "wired_exchange (marshal (JObject example_members))"
  from wired_first [OF example_body] obtain rsp m ev where
    first: "serve_exchange wired_handle wired_config ?x wired_world = (Some rsp, wired_world\<lparr>wd_memory := m\<rparr>)"
    and m: "ev_id ev = ''e-1''" "ms_events m = fmupd ''e-1'' (fresh_stored_event ev) fmempty" by blast
  from wired_batch [OF m(2,1)] obtain r m' e where
    batch: "handle_batch wired_handle example_publish wired_round (wired_world\<lparr>wd_memory := m\<rparr>, []) = (r, wired_world\<lparr>wd_memory := m'\<rparr>, [ev])"
    and e: "mem_abs m' ''e-1'' = Some e" "es_status e = Published" by blast
  let ?ws = "[Serve ?x, Batch wired_round]" and ?w2 = "wired_world\<lparr>wd_memory := m'\<rparr>"
  have run: "run_work wired_handle wired_config example_publish ?ws (wired_world, []) = ([Some rsp], ?w2, [ev])"
    using first batch by (simp del: marshal.simps)
  have fresh: "fresh_run (opened_view wired_config) wired_handle wired_config example_publish {} ?ws (wired_world, [])"
    using first example_tokens by (simp add: wired_opened wired_empty wired_round_def del: marshal.simps)
  have log: "pf_log wired_platform = (\<lambda>path. nd_new_store path None None None wired_io)" by (simp add: wired_platform_def)
  have e': "opened_view wired_config ?w2 ''e-1'' = Some e" using e(1) by (simp add: wired_opened)
  from started_store_delivers [OF wired_opened(4,5) log example_log_publisher fresh run e'] e(2) have "es_event e = ev" by simp
  with run e' e(2) show ?thesis by blast
qed

subsection \<open>Repeated submissions\<close>

text \<open>
  C38: in such a process, once a request was answered 201 or 200, a request that submits the same
  transaction is answered 200 with the same identifier, as a duplicate, whatever requests and worker
  batches came in between; it changes nothing.
\<close>

theorem started_store_retry:
  assumes "local_driver c" "opened_ok c s" "log_publisher publish"
    and "opened_view c s (ex_ids x 0) = None" "ex_ids x 1 \<noteq> []"
    and "submits (opened_handle c) c x s t" "submits (opened_handle c) c y s2 t" "rq_context (ex_request y) = None"
    and "serve_exchange (opened_handle c) c x s = (Some rsp, s1)" "rs_status rsp \<in> {200, 201}"
    and "fresh_run (opened_view c) (opened_handle c) c publish used ws (s1, sent)"
    and "run_work (opened_handle c) c publish ws (s1, sent) = (rs, s2, sent2)"
  shows "\<exists>i rsp'. rs_body rsp = receipt (rs_status rsp = 200) i
     \<and> serve_exchange (opened_handle c) c y s2 = (Some rsp', s2)
     \<and> rs_status rsp' = 200 \<and> rs_body rsp' = receipt True i
     \<and> rs_header rsp' ''Idempotent-Replay'' = Some ''true''"
proof (cases "cf_store_driver c = ''ndjson''")
  case True
  note o = opened_simps(1) [OF True]
  have live: "\<exists>out. sh_accept ndjson_handle None a w = (Inr out, w)" 
    if "nd_idents (wd_ndjson w) (mem_key (acc_transaction a)) = Some i" for a i and w :: "('a, 'b) world"
    using that by (auto simp: ndjson_handle_def on_part_def nd_accept_def nd_idents_def mem_idents_def mem_key_def Let_def)
  show ?thesis
    using opened_ndjson.retry_answered [where s = s and x = x and c = c and ?t0.0 = t and y = y and ?s2.0 = s2 and rsp = rsp
        and ?s1.0 = s1 and used = used and ws = ws and l = sent and rs = rs and ?l2.0 = sent2,
        OF refl refl refl refl _ live assms(3)]
      assms(2,4-12) by (simp add: o)
next
  case False
  note o = opened_simps(2) [OF False]
  have live: "\<exists>out. sh_accept memory_handle None a w = (Inr out, w)" 
    if "mem_idents (wd_memory w) (mem_key (acc_transaction a)) = Some i" for a i and w :: "('a, 'b) world"
    using that by (auto simp: memory_handle_def on_part_def mem_accept_def mem_idents_def mem_key_def Let_def)
  show ?thesis
    using opened_memory.retry_answered [where s = s and x = x and c = c and ?t0.0 = t and y = y and ?s2.0 = s2 and rsp = rsp
        and ?s1.0 = s1 and used = used and ws = ws and l = sent and rs = rs and ?l2.0 = sent2,
        OF refl refl refl refl _ live assms(3)]
      assms(2,4-12) by (simp add: o)
qed

theorem started_store_retry_witness:
  "\<exists>rsp s1 rs s2 sent rsp'. serve_exchange wired_handle wired_config (wired_exchange (marshal (JObject example_members))) wired_world
       = (Some rsp, s1) \<and> rs_status rsp = 201
     \<and> run_work wired_handle wired_config example_publish [Batch wired_round] (s1, []) = (rs, s2, sent)
     \<and> serve_exchange wired_handle wired_config (wired_exchange ('' '' @ marshal (JObject example_members))) s2 = (Some rsp', s2)
     \<and> rs_status rsp' = 200"
proof -
  let ?b = "marshal (JObject example_members)"
  have short: "length ('' '' @ ?b) \<le> 65536" by (simp add: example_short del: marshal.simps)
  from wired_first [OF example_body] obtain rsp m ev where
    first: "serve_exchange wired_handle wired_config (wired_exchange ?b) wired_world = (Some rsp, wired_world\<lparr>wd_memory := m\<rparr>)"
    and m: "ev_id ev = ''e-1''" "ms_events m = fmupd ''e-1'' (fresh_stored_event ev) fmempty" and st: "rs_status rsp = 201" by blast
  from wired_batch [OF m(2,1)] obtain r m' where
    batch: "handle_batch wired_handle example_publish wired_round (wired_world\<lparr>wd_memory := m\<rparr>, []) = (r, wired_world\<lparr>wd_memory := m'\<rparr>, [ev])"
    by blast
  have run: "run_work wired_handle wired_config example_publish [Batch wired_round] (wired_world\<lparr>wd_memory := m\<rparr>, [])
      = ([], wired_world\<lparr>wd_memory := m'\<rparr>, [ev])" using batch by simp
  have fresh: "fresh_run (opened_view wired_config) wired_handle wired_config example_publish {} [Batch wired_round] (wired_world\<lparr>wd_memory := m\<rparr>, [])"
    using example_tokens by (simp add: wired_round_def)
  have x: "ex_ids (wired_exchange b) = example_id" "rq_context (ex_request (wired_exchange b)) = None" for b
    by (simp_all add: wired_exchange_def http_example_def)
  have "\<exists>i rsp'. rs_body rsp = receipt (rs_status rsp = 200) i
     \<and> serve_exchange (opened_handle wired_config) wired_config (wired_exchange ('' '' @ ?b)) (wired_world\<lparr>wd_memory := m'\<rparr>)
         = (Some rsp', wired_world\<lparr>wd_memory := m'\<rparr>)
     \<and> rs_status rsp' = 200 \<and> rs_body rsp' = receipt True i
     \<and> rs_header rsp' ''Idempotent-Replay'' = Some ''true''"
  proof (rule started_store_retry [where s = wired_world and x = "wired_exchange ?b" and t = http_transaction])
    show "submits (opened_handle wired_config) wired_config (wired_exchange ?b) wired_world http_transaction"
      unfolding wired_opened by (rule wired_submits [OF example_body])
    show "submits (opened_handle wired_config) wired_config (wired_exchange ('' '' @ ?b)) (wired_world\<lparr>wd_memory := m'\<rparr>) http_transaction"
      unfolding wired_opened by (rule wired_submits [OF example_spaced_body short])
    show "serve_exchange (opened_handle wired_config) wired_config (wired_exchange ?b) wired_world = (Some rsp, wired_world\<lparr>wd_memory := m\<rparr>)"
      unfolding wired_opened by (rule first)
    show "fresh_run (opened_view wired_config) (opened_handle wired_config) wired_config example_publish {} [Batch wired_round]
        (wired_world\<lparr>wd_memory := m\<rparr>, [])"
      unfolding wired_opened(1) by (rule fresh)
    show "run_work (opened_handle wired_config) wired_config example_publish [Batch wired_round] (wired_world\<lparr>wd_memory := m\<rparr>, [])
        = ([], wired_world\<lparr>wd_memory := m'\<rparr>, [ev])"
      unfolding wired_opened(1) by (rule run)
  qed (simp_all add: wired_opened wired_empty x st example_log_publisher example_id_def)
  with first st run show ?thesis unfolding wired_opened by blast
qed

end
