(* ===== verification/TimeFacts.thy ===== *)
theory TimeFacts
  imports GoTime JsonRoundTrip
begin

text \<open>
  The calendar and the RFC 3339 texts: a day number and its civil date determine each other, and
  parsing undoes printing for every time in UTC with a year of four digits.
\<close>

subsection \<open>The calendar\<close>

lemma days_in_bounds: "28 \<le> days_in m y" "days_in m y \<le> 31"
  by (simp_all add: days_in_def)

text \<open>The year of a day: the cycles add up, and a year has 366 days only when it is a leap year.\<close>

text \<open>One level of cycles: quotient and remainder, with the quotient held at 3.\<close>

lemma cycle_capped:
  fixes p :: int
  assumes "0 < k" "0 \<le> p" "p < 4 * k + x" "0 \<le> x" "x \<le> k"
  shows "p = k * min 3 (p div k) + (p - min 3 (p div k) * k)"
    and "0 \<le> min 3 (p div k)" "min 3 (p div k) \<le> 3"
    and "0 \<le> p - min 3 (p div k) * k" "p - min 3 (p div k) * k < k + x"
    and "k \<le> p - min 3 (p div k) * k \<Longrightarrow> min 3 (p div k) = 3"
proof -
  have m: "p = k * (p div k) + p mod k" "0 \<le> p mod k" "p mod k < k" using assms(1) by simp_all
  have q: "0 \<le> p div k" using assms(1,2) by (simp add: pos_imp_zdiv_nonneg_iff)
  show "p = k * min 3 (p div k) + (p - min 3 (p div k) * k)" "0 \<le> min 3 (p div k)" "min 3 (p div k) \<le> 3"
    using q by (simp_all add: mult.commute)
  have "0 \<le> p - min 3 (p div k) * k \<and> p - min 3 (p div k) * k < k + x \<and> (k \<le> p - min 3 (p div k) * k \<longrightarrow> min 3 (p div k) = 3)"
  proof (cases "p div k < 3")
    case True
    then have "p - min 3 (p div k) * k = p mod k" by (simp add: mult.commute [of _ k] minus_mult_div_eq_mod)
    with m(2,3) assms show ?thesis by linarith
  next
    case False
    then have e: "min 3 (p div k) = 3" by simp
    have "k * 3 \<le> k * (p div k)" using False assms(1) by (intro mult_left_mono) simp_all
    with m have "3 * k \<le> p" by linarith
    with e assms(3) show ?thesis by simp
  qed
  then show "0 \<le> p - min 3 (p div k) * k" "p - min 3 (p div k) * k < k + x"
    "k \<le> p - min 3 (p div k) * k \<Longrightarrow> min 3 (p div k) = 3" by blast+
qed

lemma year_cycles:
  fixes days :: int
  obtains a b c e d where "days = 146097 * a + 36524 * b + 1461 * c + 365 * e + d"
    "0 \<le> b" "b \<le> 3" "0 \<le> c" "c \<le> 24" "0 \<le> e" "e \<le> 3" "0 \<le> d" "d \<le> 365"
    "d = 365 \<longrightarrow> e = 3 \<and> (c \<noteq> 24 \<or> b = 3)"
    "year_of_days days = (400 * a + 100 * b + 4 * c + e + 1, d)"
proof -
  define a where "a = days div 146097"
  define p where "p = days mod 146097"
  define b where "b = min 3 (p div 36524)"
  define q where "q = p - b * 36524"
  define c where "c = q div 1461"
  define r where "r = q mod 1461"
  define e where "e = min 3 (r div 365)"
  define d where "d = r - e * 365"
  have p: "days = 146097 * a + p" "0 \<le> p" "p < 4 * 36524 + 1" by (simp_all add: a_def p_def)
  note b = cycle_capped [where k = 36524 and x = 1, OF _ p(2,3), folded b_def, folded q_def, simplified]
  have c: "q = 1461 * c + r" "0 \<le> r" "r < 4 * 365 + 1" by (simp_all add: c_def r_def)
  note e = cycle_capped [where k = 365 and x = 1, OF _ c(2,3), folded e_def, folded d_def, simplified]
  have c2: "0 \<le> c" "c \<le> 24" using b c by linarith+
  have leap: "e = 3 \<and> (c \<noteq> 24 \<or> b = 3)" if "d = 365"
  proof -
    from e(6) that have e3: "e = 3" by simp
    with e(1) that have "r = 1460" by simp
    with c(1) have "c = 24 \<longrightarrow> q = 36524" by simp
    with b(6) e3 show ?thesis by auto
  qed
  have sum: "days = 146097 * a + 36524 * b + 1461 * c + 365 * e + d"
    using p(1) c(1) by (simp add: q_def d_def)
  have y: "year_of_days days = (400 * a + 100 * b + 4 * c + e + 1, d)"
    unfolding year_of_days_def Let_def a_def [symmetric] p_def [symmetric] b_def [symmetric] q_def [symmetric]
      c_def [symmetric] r_def [symmetric] e_def [symmetric] d_def [symmetric] ..
  have "d \<le> 365" using e(5) by simp
  with sum b(2,3) c2 e(2-4) leap y that show thesis by blast
qed

definition year_length :: "int \<Rightarrow> int" where
  "year_length y = (if is_leap y then 366 else 365)"

lemma year_of_days_ok:
  assumes "year_of_days days = (y, yd)"
  shows "days = days_before_year y + yd \<and> 0 \<le> yd \<and> yd < year_length y"
proof -
  obtain a b c e d where sum: "days = 146097 * a + 36524 * b + 1461 * c + 365 * e + d"
    and b: "0 \<le> b" "b \<le> 3" and c: "0 \<le> c" "c \<le> 24" and e: "0 \<le> e" "e \<le> 3" and d: "0 \<le> d" "d \<le> 365"
    and leap: "d = 365 \<longrightarrow> e = 3 \<and> (c \<noteq> 24 \<or> b = 3)"
    and y: "year_of_days days = (400 * a + 100 * b + 4 * c + e + 1, d)" by (rule year_cycles)
  let ?z = "400 * a + 100 * b + 4 * c + e"
  from y assms have yd: "y = ?z + 1" "yd = d" by simp_all
  have div4: "?z div 4 = 100 * a + 25 * b + c" by (rule int_div_pos_eq [where r = e]) (use e in simp_all)
  have div100: "?z div 100 = 4 * a + b" by (rule int_div_pos_eq [where r = "4 * c + e"]) (use c e in simp_all)
  have div400: "?z div 400 = a" by (rule int_div_pos_eq [where r = "100 * b + 4 * c + e"]) (use b c e in simp_all)
  have "days_before_year y = 365 * ?z + (100 * a + 25 * b + c) - (4 * a + b) + a"
    unfolding days_before_year_def yd(1) by (simp add: div4 div100 div400)
  with sum yd(2) have "days = days_before_year y + yd" by simp
  moreover have "is_leap y" if "d = 365"
  proof -
    from leap that have e3: "e = 3" and cb: "c \<noteq> 24 \<or> b = 3" by simp_all
    have "y mod 4 = 0" unfolding yd(1) e3 by (rule int_mod_pos_eq [where q = "100 * a + 25 * b + c + 1"]) simp_all
    moreover have "y mod 100 = 4 * c + 4" if "c \<noteq> 24"
      unfolding yd(1) e3 by (rule int_mod_pos_eq [where q = "4 * a + b"]) (use c that in simp_all)
    moreover have "y mod 400 = 0" if "c = 24" "b = 3"
      unfolding yd(1) e3 that by (rule int_mod_pos_eq [where q = "a + 1"]) simp_all
    ultimately show ?thesis using cb c unfolding is_leap_def by fastforce
  qed
  then have "yd < year_length y" using d yd(2) by (cases "d = 365") (simp_all add: year_length_def)
  ultimately show ?thesis using d yd(2) by simp
qed

text \<open>The month of a day within the year.\<close>

lemma month_cases: "1 \<le> (m::nat) \<Longrightarrow> m \<le> 12 \<Longrightarrow> m \<in> {1, 2, 3, 4, 5, 6, 7, 8, 9, 10, 11, 12}"
  unfolding insert_iff empty_iff by presburger

lemma days_before_next:
  assumes "1 \<le> m" "m < 12"
  shows "days_before_month y (Suc m) = days_before_month y m + days_in m y"
  using month_cases [OF assms(1)] assms(2) by (auto simp: days_before_month_def days_in_def)

lemma days_before_end: "days_before_month y 12 + days_in 12 y = year_length y"
  by (simp add: days_before_month_def days_in_def year_length_def)

lemma month_of_yday_ok:
  assumes "1 \<le> m" "m \<le> 12" "0 \<le> yd" "days_before_month y m + yd < year_length y" "month_of_yday y m yd = (m', d)"
  shows "m \<le> m' \<and> m' \<le> 12 \<and> 1 \<le> d \<and> d \<le> days_in m' y \<and> days_before_month y m' + (d - 1) = days_before_month y m + yd"
  using assms
proof (induction y m yd rule: month_of_yday.induct)
  case (1 y m yd)
  show ?case
  proof (cases "12 \<le> m \<or> yd < days_in m y")
    case True
    with "1.prems" have "m' = m" "d = yd + 1" by (simp_all add: month_of_yday.simps [of y m yd])
    moreover have "yd < days_in m y" using True "1.prems" days_before_end [of y] by auto
    ultimately show ?thesis using "1.prems" by simp
  next
    case False
    then have m: "m < 12" "\<not> yd < days_in m y" by simp_all
    note next_m = days_before_next [OF "1.prems"(1) m(1), of y]
    have run: "month_of_yday y (m + 1) (yd - days_in m y) = (m', d)"
      using False "1.prems"(5) by (simp add: month_of_yday.simps [of y m yd])
    from "1.IH" [OF False _ _ _ _ run] "1.prems" m next_m show ?thesis by simp
  qed
qed

lemma civil_ok:
  assumes "civil_of_days days = (y, m, d)"
  shows "1 \<le> m \<and> m \<le> 12 \<and> 1 \<le> d \<and> d \<le> days_in m y \<and> days_of_civil y m d = days"
proof -
  obtain yd where y: "year_of_days days = (y, yd)" and m: "month_of_yday y 1 yd = (m, d)"
    using assms by (auto simp: civil_of_days_def split: prod.splits)
  note yd = year_of_days_ok [OF y]
  have "days_before_month y 1 = 0" by (simp add: days_before_month_def)
  with month_of_yday_ok [OF _ _ _ _ m] yd show ?thesis by (simp add: days_of_civil_def)
qed

subsection \<open>Digits\<close>

lemma digit_chars: "n < 10 \<Longrightarrow> itoa n = [digit_char n]"
  by (simp add: itoa_eval)

lemma length_itoa_le: "n < 10 ^ k \<Longrightarrow> 0 < k \<Longrightarrow> length (itoa n) \<le> k"
proof (induction k arbitrary: n)
  case (Suc k)
  show ?case
  proof (cases "n < 10")
    case False
    with Suc.prems have "0 < k" by (cases k) auto
    with Suc.IH [of "n div 10"] Suc.prems False show ?thesis by (simp add: itoa_eval(2) less_mult_imp_div_less)
  qed (simp add: itoa_eval)
qed simp

lemma length_pad: "n < 10 ^ w \<Longrightarrow> 0 < w \<Longrightarrow> length (pad w n) = w"
  using length_itoa_le [of n w] by (simp add: pad_def)

lemma pad_digits: "\<forall>c \<in> set (pad w n). is_digit c"
  using itoa_digits [of n] by (auto simp: pad_def is_digit_def)

lemma digits_val_zeros: "digits_val (replicate k CHR ''0'' @ s) = digits_val s"
  by (induction k) (simp_all add: digits_val_def digit_val_def)

lemma digits_val_pad: "digits_val (pad w n) = n"
  by (simp add: pad_def digits_val_zeros digits_val_itoa)

lemma pad_two:
  assumes "n < 100"
  shows "pad 2 n = [digit_char (n div 10), digit_char (n mod 10)]"
proof (cases "n < 10")
  case True
  then show ?thesis by (simp add: pad_def itoa_eval)
next
  case False
  with assms have "n div 10 < 10" "10 \<le> n" by auto
  then have "itoa n = [digit_char (n div 10), digit_char (n mod 10)]" by (simp add: itoa_eval)
  then show ?thesis by (simp add: pad_def)
qed

lemma get_num_pad:
  assumes "n < 100"
  shows "get_num fixed (pad 2 n @ r) = Some (n, r)"
  using assms by (simp add: pad_two)

lemma get_year_pad:
  assumes "n < 10000"
  shows "get_year (pad 4 n @ r) = Some (n, r)"
  using length_pad [of n 4] pad_digits [of 4 n] assms by (simp add: get_year_def digits_val_pad list_all_iff)

subsection \<open>The fraction of a second\<close>

lemma digits_val_trailing: "digits_val (s @ replicate k CHR ''0'') = digits_val s * 10 ^ k"
proof (induction k arbitrary: s)
  case (Suc k)
  have "s @ replicate (Suc k) CHR ''0'' = (s @ replicate k CHR ''0'') @ [CHR ''0'']" by (simp add: replicate_append_same)
  with Suc show ?case by (simp only: digits_val_snoc) (simp add: digit_val_def)
qed simp

lemma format_nano_fraction:
  assumes "n < 10 ^ 9" "\<not> starts is_digit r"
  shows "get_fraction (format_nano n @ CHR ''Z'' # r) = (n, CHR ''Z'' # r)"
proof -
  let ?ds = "rev (dropWhile (\<lambda>c. c = CHR ''0'') (rev (pad 9 n)))"
  let ?zs = "takeWhile (\<lambda>c. c = CHR ''0'') (rev (pad 9 n))"
  have split: "pad 9 n = ?ds @ rev ?zs" unfolding rev_append [symmetric] takeWhile_dropWhile_id by simp
  have "?zs = replicate (length ?zs) CHR ''0''" by (rule replicate_length_same [symmetric]) (auto dest: set_takeWhileD)
  then have zs: "rev ?zs = replicate (length ?zs) CHR ''0''" by (metis rev_replicate)
  have "length (pad 9 n) = 9" using length_pad [OF assms(1)] by simp
  then have len: "length ?ds + length ?zs = 9" by (subst (asm) split) simp
  have "digits_val (pad 9 n) = digits_val ?ds * 10 ^ length ?zs"
    by (subst split, subst zs, rule digits_val_trailing)
  then have val: "digits_val ?ds * 10 ^ length ?zs = n" by (simp add: digits_val_pad)
  have digits: "\<forall>c \<in> set ?ds. is_digit c" using pad_digits [of 9 n] by (auto dest: set_dropWhileD)
  have z: "\<not> is_digit CHR ''Z''" by (simp add: is_digit_def)
  show ?thesis
  proof (cases ?ds)
    case Nil
    with val have "n = 0" by (simp add: digits_val_def)
    with Nil z show ?thesis by (cases r) (auto simp: format_nano_def get_fraction_def)
  next
    case (Cons q qs)
    have f: "format_nano n = CHR ''.'' # q # qs" using Cons by (simp add: format_nano_def)
    have q: "is_digit q" "\<forall>c \<in> set (q # qs). is_digit c" using digits Cons by auto
    have tw: "takeWhile is_digit (q # qs @ CHR ''Z'' # r) = q # qs" "dropWhile is_digit (q # qs @ CHR ''Z'' # r) = CHR ''Z'' # r"
      using takeWhile_append_stop [of "q # qs" is_digit "CHR ''Z''" r] dropWhile_append_stop [of "q # qs" is_digit "CHR ''Z''" r] q z
      by simp_all
    have l: "length (q # qs) \<le> 9" "9 - length (q # qs) = length ?zs" using len Cons by simp_all
    have v: "digits_val (q # qs) * 10 ^ length ?zs = n" using val Cons by simp
    show ?thesis
      unfolding f get_fraction_def using q(1) tw l v by (simp add: Let_def)
  qed
qed

subsection \<open>The round trip\<close>

definition printable_time :: "gotime \<Rightarrow> bool" where
  "printable_time t \<longleftrightarrow> t_zone t = 0 \<and> 0 \<le> fst (civil_of_days (t_ns t div day_ns)) \<and> fst (civil_of_days (t_ns t div day_ns)) \<le> 9999"

lemma expect_now [simp]: "expect c (c # s) = Some s"
  by (simp add: expect_def)

lemma get_zone_Z: "get_zone (CHR ''Z'' # r) = Some (0, r)"
  by (simp add: get_zone_def)

lemma parse_format:
  assumes "printable_time t"
  shows "parse_rfc3339 (format_rfc3339nano t) = Some t"
proof -
  obtain y m d where c: "civil_of_days (t_ns t div day_ns) = (y, m, d)" by (metis prod.exhaust)
  from assms c have zone: "t_zone t = 0" and y: "0 \<le> y" "y \<le> 9999" by (simp_all add: printable_time_def)
  note ok = civil_ok [OF c]
  define tod where "tod = t_ns t mod day_ns"
  define sec where "sec = nat (tod div second_ns)"
  define ns where "ns = nat (tod mod second_ns)"
  have tod: "0 \<le> tod" "tod < day_ns" by (simp_all add: tod_def day_ns_def second_ns_def)
  then have "tod div second_ns < 86400" by (simp add: day_ns_def second_ns_def)
  then have sec: "sec < 86400" unfolding sec_def using tod by (simp add: second_ns_def)
  have ns: "ns < 10 ^ 9" by (simp add: ns_def second_ns_def nat_less_iff)
  have "0 \<le> tod div second_ns" "0 \<le> tod mod second_ns" using tod(1) by (simp_all add: second_ns_def pos_imp_zdiv_nonneg_iff)
  then have parts: "tod = int sec * second_ns + int ns" unfolding sec_def ns_def by (simp only: int_nat_eq if_True div_mult_mod_eq)
  define hh where "hh = sec div 3600"
  define mi where "mi = sec div 60 mod 60"
  define ss where "ss = sec mod 60"
  have hms: "hh * 3600 + mi * 60 + ss = sec" 
  proof -
    have "sec div 60 div 60 = hh" unfolding hh_def div_mult2_eq [symmetric] by simp
    moreover have "sec div 60 = sec div 60 div 60 * 60 + mi" "sec = sec div 60 * 60 + ss"
      unfolding mi_def ss_def by (rule div_mult_mod_eq [symmetric])+
    ultimately show ?thesis by linarith
  qed
  have bounds: "hh < 24" "mi < 60" "ss < 60" using sec by (auto simp: hh_def mi_def ss_def)
  have d: "nat d < 100" "1 \<le> nat d" "int (nat d) = d" using ok days_in_bounds(2) [of m y] by linarith+
  have layout: "format_rfc3339nano t = pad 4 (nat y) @ CHR ''-'' # pad 2 m @ CHR ''-'' # pad 2 (nat d) @ CHR ''T''
      # pad 2 hh @ CHR '':'' # pad 2 mi @ CHR '':'' # pad 2 ss @ format_nano ns @ ''Z''"
    unfolding hh_def mi_def ss_def
    using y by (simp add: format_rfc3339nano_def Let_def zone c pad_int_def format_zone_def sec_def ns_def tod_def)
  have z: "\<not> starts is_digit []" by simp
  have small: "nat y < 10000" "m < 100" "hh < 100" "mi < 100" "ss < 100" using y ok bounds by linarith+
  have date: "1 \<le> m \<and> m \<le> 12" "1 \<le> nat d \<and> int (nat d) \<le> days_in m y" "int (nat y) = y" using y ok d by simp_all
  have "parse_rfc3339 (format_rfc3339nano t) = Some \<lparr>t_ns = days_of_civil y m (int (nat d)) * day_ns
        + int (hh * 3600 + mi * 60 + ss) * second_ns + int ns - 0 * second_ns, t_zone = 0\<rparr>"
    unfolding layout parse_rfc3339_def
    by (simp only: get_year_pad [OF small(1)] get_num_pad [OF small(2)] get_num_pad [OF d(1)] get_num_pad [OF small(3)]
        get_num_pad [OF small(4)] get_num_pad [OF small(5)] format_nano_fraction [OF ns z] expect_now bind.bind_lunit
        prod.case Let_def check_def date bounds if_True get_zone_Z simp_thms)
  also have "\<dots> = Some t"
  proof -
    have "days_of_civil y m d * day_ns + int sec * second_ns + int ns = t_ns t div day_ns * day_ns + t_ns t mod day_ns"
      using ok parts by (simp only: tod_def [symmetric] add.assoc)
    then show ?thesis unfolding hms d(3) using zone by (cases t) simp
  qed
  finally show ?thesis .
qed

end
