(* ===== verification/StructFacts.thy ===== *)
theory StructFacts
  imports StructCodec RawMembers TimeFacts
begin

text \<open>
  \<open>json.Unmarshal\<close> undoes \<open>json.Marshal\<close> on structs: the text of every kind of field reads back as
  its value, a printed object splits into the texts of its fields, and each text is stored in the
  field with its name.
\<close>

subsection \<open>Printed values\<close>

text \<open>A text without white space around it that reads as the value at nesting depth \<open>d\<close>.\<close>

definition printed :: "nat \<Rightarrow> go_string \<Rightarrow> json \<Rightarrow> bool" where
  "printed d raw v \<longleftrightarrow> (\<exists>c cs. raw = c # cs \<and> value_start c)
     \<and> (\<forall>f rest. 2 * length (raw @ rest) < f \<longrightarrow> number_end rest \<longrightarrow> parse_value f d (raw @ rest) = Inr (v, rest))"

lemma printedD:
  "printed d raw v \<Longrightarrow> 2 * length (raw @ rest) < f \<Longrightarrow> number_end rest \<Longrightarrow> parse_value f d (raw @ rest) = Inr (v, rest)"
  unfolding printed_def by blast

lemma printed_start: "printed d raw v \<Longrightarrow> \<exists>c cs. raw = c # cs \<and> value_start c"
  unfolding printed_def by blast

lemma printed_marshal: "canonical v d \<Longrightarrow> printed d (marshal v) v"
  unfolding printed_def using marshal_start parse_printed by blast

lemma printed_string: "valid_string s \<Longrightarrow> printed d (quote_json s) (JString s)"
  using printed_marshal [of "JString s" d] by simp

lemma printed_less: "printed d raw v \<Longrightarrow> d' \<le> d \<Longrightarrow> printed d' raw v"
  unfolding printed_def using parse_depth(1) by blast

lemma printed_whole:
  assumes "printed d raw v"
  shows "parse_whole raw = Inr v"
proof -
  have "parse_value (json_fuel raw) d (raw @ []) = Inr (v, [])"
    by (rule printedD [OF assms]) (simp_all add: json_fuel_def)
  then have "parse_value (json_fuel raw) d raw = Inr (v, [])" by simp
  then have "parse_value (json_fuel raw) 0 raw = Inr (v, [])" by (rule parse_depth(1)) simp
  then show ?thesis by (simp add: parse_whole_def parse_json_def skip_ws_def)
qed

subsection \<open>Printed objects\<close>

type_synonym printed_member = "go_string \<times> go_string \<times> json"

definition raws_of :: "printed_member list \<Rightarrow> (go_string \<times> go_string) list" where
  "raws_of ms = map (\<lambda>(k, raw, v). (k, raw)) ms"

definition values_of :: "printed_member list \<Rightarrow> (go_string \<times> json) list" where
  "values_of ms = map (\<lambda>(k, raw, v). (k, v)) ms"

definition printed_members :: "nat \<Rightarrow> printed_member list \<Rightarrow> bool" where
  "printed_members d ms \<longleftrightarrow> (\<forall>(k, raw, v) \<in> set ms. valid_string k \<and> printed d raw v)"

lemma members_simps [simp]:
  "raws_of [] = []" "raws_of ((k, raw, v) # ms) = (k, raw) # raws_of ms"
  "values_of [] = []" "values_of ((k, raw, v) # ms) = (k, v) # values_of ms"
  "raws_of ms = [] \<longleftrightarrow> ms = []" "values_of ms = [] \<longleftrightarrow> ms = []"
  "printed_members d []"
  "printed_members d ((k, raw, v) # ms) \<longleftrightarrow> valid_string k \<and> printed d raw v \<and> printed_members d ms"
  by (simp_all add: raws_of_def values_of_def printed_members_def)

lemma members_append: "printed_members d (ms @ ns) \<longleftrightarrow> printed_members d ms \<and> printed_members d ns"
  by (simp add: printed_members_def ball_Un)

lemma skip_ws_value: "printed d raw v \<Longrightarrow> skip_ws (raw @ rest) = raw @ rest"
  using printed_start [of d raw v] value_start_not by (auto simp: skip_ws_Cons_notws)

lemma parse_print_members:
  assumes "printed_members d ms" "ms \<noteq> []" "2 * length (print_members (raws_of ms) @ CHR ''}'' # rest) + 1 < f"
  shows "parse_members f d (print_members (raws_of ms) @ CHR ''}'' # rest) = Inr (values_of ms, rest)
     \<and> parse_raw_members f d (print_members (raws_of ms) @ CHR ''}'' # rest) = Inr (raws_of ms, rest)"
  using assms
proof (induction ms arbitrary: f)
  case (Cons m ms)
  obtain k raw v where m: "m = (k, raw, v)" by (cases m)
  from Cons.prems(3) obtain g where f: "f = Suc g" by (cases f) auto
  from Cons.prems(1) have k: "unquote (quoted_body k) = k" and raw: "printed d raw v" and ms: "printed_members d ms"
    by (simp_all add: m unquote_quoted to_valid_id)
  let ?t = "if ms = [] then CHR ''}'' # rest else CHR '','' # print_members (raws_of ms) @ CHR ''}'' # rest"
  have fuel: "2 * length (raw @ ?t) < g" using Cons.prems(3) by (cases "ms = []") (simp_all add: m f quote_json_body)
  have parsed: "parse_value g d (raw @ ?t) = Inr (v, ?t)" by (rule printedD [OF raw fuel]) simp
  have ws: "skip_ws (raw @ ?t) = raw @ ?t" by (rule skip_ws_value [OF raw])
  have split_up: "print_members (raws_of (m # ms)) @ CHR ''}'' # rest = quote_char # quoted_body k @ quote_char # CHR '':'' # raw @ ?t"
    by (simp add: m quote_json_body)
  have text_of: "take (length (skip_ws (raw @ ?t)) - length ?t) (skip_ws (raw @ ?t)) = raw" unfolding ws by simp
  have IH: "parse_members g d (print_members (raws_of ms) @ CHR ''}'' # rest) = Inr (values_of ms, rest)
      \<and> parse_raw_members g d (print_members (raws_of ms) @ CHR ''}'' # rest) = Inr (raws_of ms, rest)" if "ms \<noteq> []"
    using that Cons.prems(3) by (intro Cons.IH [OF ms that]) (simp add: m f quote_json_body)
  have parts: "expect_byte quote_char (quote_char # quoted_body k @ quote_char # CHR '':'' # raw @ ?t)
        = Inr (quoted_body k @ quote_char # CHR '':'' # raw @ ?t)"
    "scan_string (quoted_body k @ quote_char # CHR '':'' # raw @ ?t) = Inr (quoted_body k, CHR '':'' # raw @ ?t)"
    "expect_byte CHR '':'' (CHR '':'' # raw @ ?t) = Inr (raw @ ?t)"
    by (rule expect_byte_now, simp) (rule scan_quoted, rule expect_byte_now, simp)
  show ?case
    unfolding split_up f parse_members.simps parse_raw_members.simps Let_def
    using IH by (simp only: parts parsed text_of k and_then_simps prod.case) (auto simp: m)
qed simp

lemma printed_object:
  assumes "printed_members (Suc d) ms" "ms \<noteq> []" "d < max_depth"
  shows "printed d (print_object (raws_of ms)) (JObject (obj_of (values_of ms)))"
  unfolding printed_def
proof (intro conjI allI impI)
  show "\<exists>c cs. print_object (raws_of ms) = c # cs \<and> value_start c" by (simp add: print_object_def value_start_def)
  fix f rest assume fuel: "2 * length (print_object (raws_of ms) @ rest) < f"
  then obtain g where f: "f = Suc g" by (cases f) auto
  obtain cs where q: "print_members (raws_of ms) @ CHR ''}'' # rest = quote_char # cs"
    using assms(2) by (cases ms) (auto simp: quote_json_body)
  have "parse_members g (Suc d) (print_members (raws_of ms) @ CHR ''}'' # rest) = Inr (values_of ms, rest)"
    using parse_print_members [OF assms(1,2), of rest g] fuel by (simp add: f print_object_def)
  with q assms(3) show "parse_value f d (print_object (raws_of ms) @ rest) = Inr (JObject (obj_of (values_of ms)), rest)"
    by (simp add: f print_object_def)
qed

lemma object_members_printed:
  assumes "printed_members 1 ms" "ms \<noteq> []"
  shows "object_members (print_object (raws_of ms)) = Inr (raws_of ms)"
proof -
  have "parse_raw_members (json_fuel (print_object (raws_of ms))) 1 (print_members (raws_of ms) @ CHR ''}'' # [])
      = Inr (raws_of ms, [])"
    using parse_print_members [OF assms, of "[]" "json_fuel (print_object (raws_of ms))"]
    by (simp add: json_fuel_def print_object_def)
  then show ?thesis by (simp add: object_members_def print_object_def)
qed

lemma put_sorted_nonempty: "put_sorted k v m \<noteq> []"
  by (cases "hd m"; cases m) auto

lemma puts_nonempty: "m \<noteq> [] \<Longrightarrow> foldl (\<lambda>m (k, v). put_sorted k v m) m kvs \<noteq> []"
  by (induction kvs arbitrary: m) (simp_all add: put_sorted_nonempty prod.case_eq_if)

lemma obj_of_nonempty: "kvs \<noteq> [] \<Longrightarrow> obj_of kvs \<noteq> []"
  by (cases kvs) (simp_all add: obj_of_def puts_nonempty put_sorted_nonempty prod.case_eq_if)

subsection \<open>Setting fields\<close>

lemma set_members_append:
  "set_members fs (ms @ ns) r = and_then (set_members fs ms r) (set_members fs ns)"
  by (induction fs ms r rule: set_members.induct) (auto split: option.split simp: and_then_def split: sum.split)

text \<open>An object read by its fields: each text goes to the setter with its name.\<close>

lemma struct_setter_printed:
  assumes "printed_members 1 ms" "ms \<noteq> []"
  shows "struct_setter fs cur (print_object (raws_of ms)) = set_members fs (raws_of ms) cur"
proof -
  have "printed 0 (print_object (raws_of ms)) (JObject (obj_of (values_of ms)))"
    using printed_object [of 0 ms] assms by (simp add: max_depth_def)
  moreover obtain kv kvs where "obj_of (values_of ms) = kv # kvs"
    using obj_of_nonempty [of "values_of ms"] assms(2) by (cases "obj_of (values_of ms)") auto
  ultimately show ?thesis
    by (simp add: struct_setter_def printed_whole object_members_printed [OF assms])
qed

text \<open>The printed fields of a struct with the omitted ones left out.\<close>

definition present_members :: "(go_string \<times> (go_string \<times> json) option) list \<Rightarrow> printed_member list" where
  "present_members fs = List.map_filter (\<lambda>(k, x). map_option (\<lambda>(raw, v). (k, raw, v)) x) fs"

lemma present_simps [simp]:
  "present [] = []"
  "present ((k, None) # fs) = present fs"
  "present ((k, Some raw) # fs) = (k, raw) # present fs"
  "present_members [] = []"
  "present_members ((k, None) # gs) = present_members gs"
  "present_members ((k, Some (raw, v)) # gs) = (k, raw, v) # present_members gs"
  by (simp_all add: present_def present_members_def map_filter_simps)

lemma present_raws: "raws_of (present_members fs) = present (map (\<lambda>(k, x). (k, map_option fst x)) fs)"
  by (induction fs) (auto simp: present_def present_members_def map_filter_simps split: option.split)

lemma set_present:
  "set_members fs (present ((k, x) # ms)) r =
     and_then (case x of None \<Rightarrow> Inr r | Some raw \<Rightarrow> (case find_field fs k of None \<Rightarrow> Inr r | Some st \<Rightarrow> st r raw))
       (set_members fs (present ms))"
  by (cases x) simp_all

subsection \<open>Setters of single values\<close>

lemma string_setter_printed: "valid_string s \<Longrightarrow> string_setter cur (quote_json s) = Inr s"
  using printed_whole [OF printed_string] by (simp add: string_setter_def unmarshal_string_def)

lemma bool_setter_printed: "bool_setter cur (if b then ''true'' else ''false'') = Inr b"
  using printed_whole [OF printed_marshal [of "JBool b" 0]] by (simp add: bool_setter_def)

text \<open>Integers: no leading zeros, and no more than 64 bits.\<close>

lemma itoa_head: "\<exists>c cs. itoa n = c # cs \<and> is_digit c \<and> (c = CHR ''0'' \<longrightarrow> cs = [])"
proof (induction n rule: itoa.induct)
  case (1 n)
  show ?case
  proof (cases "n < 10")
    case True
    then show ?thesis by (simp add: itoa_eval)
  next
    case False
    with 1 obtain c cs where c: "itoa (n div 10) = c # cs" "is_digit c" "c = CHR ''0'' \<longrightarrow> cs = []" by blast
    have "c \<noteq> CHR ''0''"
    proof
      assume "c = CHR ''0''"
      with c have "digits_val (itoa (n div 10)) = 0" by (simp add: digits_val_def digit_val_def)
      with False show False by (simp add: digits_val_itoa)
    qed
    with False c show ?thesis by (simp add: itoa_eval)
  qed
qed

lemma scan_digits_all: "ds \<noteq> [] \<Longrightarrow> \<forall>c \<in> set ds. is_digit c \<Longrightarrow> scan_digits ds = Inr (ds, [])"
  by (cases ds) (auto simp: scan_digits_def)

lemma scan_itoa: "scan_int (itoa n) = Inr (itoa n, [])"
proof -
  obtain c cs where c: "itoa n = c # cs" "c = CHR ''0'' \<longrightarrow> cs = []" using itoa_head by blast
  then show ?thesis using scan_digits_all [OF itoa_nonempty itoa_digits, of n] by (simp add: scan_int_def)
qed

lemma scan_itoa_int: "scan_number (itoa_int i) = Inr (itoa_int i, [])"
proof -
  have "\<exists>c cs. itoa n = c # cs \<and> c \<noteq> CHR ''-''" for n using itoa_head [of n] by (auto simp: is_digit_def)
  then obtain c cs where c: "itoa (nat i) = c # cs" "c \<noteq> CHR ''-''" by blast
  show ?thesis
    using scan_itoa [of "nat i"] scan_itoa [of "nat (- i)"] c
    by (simp add: scan_number_def itoa_int_def scan_frac_def scan_exp_def)
qed

lemma printed_int: "printed d (itoa_int i) (JNumber (itoa_int i))"
proof -
  have "itoa_int i \<noteq> []" by (simp add: itoa_int_def)
  with printed_marshal [of "JNumber (itoa_int i)" d] scan_itoa_int show ?thesis by simp
qed

lemma parse_itoa:
  assumes "- (2 ^ 63) \<le> i" "i < 2 ^ 63"
  shows "parse_int (itoa_int i) = Some i"
proof (cases "i < 0")
  case True
  have "list_all is_digit (itoa (nat (- i)))" using itoa_digits by (simp add: list_all_iff)
  with True assms show ?thesis by (simp add: parse_int_def itoa_int_def digits_val_itoa)
next
  case False
  obtain c cs where c: "itoa (nat i) = c # cs" "is_digit c" using itoa_head by blast
  have m: "c \<noteq> CHR ''-''" using c(2) by (auto simp: is_digit_def)
  have all: "list_all is_digit (c # cs)" using itoa_digits [of "nat i"] c(1) by (simp add: list_all_iff)
  have "digits_val (c # cs) = nat i" using digits_val_itoa [of "nat i"] c(1) by simp
  with False assms c(1) m all show ?thesis by (simp add: parse_int_def itoa_int_def)
qed

lemma int_setter_printed: "- (2 ^ 63) \<le> i \<Longrightarrow> i < 2 ^ 63 \<Longrightarrow> int_setter cur (itoa_int i) = Inr i"
  using printed_whole [OF printed_int] by (simp add: int_setter_def parse_itoa)

text \<open>Times: the text has no character that JSON escapes.\<close>

definition time_char :: "char \<Rightarrow> bool" where
  "time_char c \<longleftrightarrow> is_digit c \<or> c \<in> set ''-:.TZ''"

lemma digit_plain:
  assumes "is_digit c"
  shows "quote_ascii c = [c] \<and> byte_val c < 128"
proof -
  have b: "48 \<le> byte_val c" "byte_val c \<le> 57" using assms by (simp_all add: is_digit_def)
  have ne: "c \<noteq> x" if "byte_val x < 48 \<or> 57 < byte_val x" for x using that b by auto
  have "c \<noteq> quote_char" "c \<noteq> backslash" "c \<noteq> CHR 0x08" "c \<noteq> CHR 0x0C" "c \<noteq> CHR 0x0A" "c \<noteq> CHR 0x0D" "c \<noteq> CHR 0x09"
    "c \<noteq> CHR ''<''" "c \<noteq> CHR ''>''" "c \<noteq> CHR ''&''"
    by (rule ne, simp)+
  with b show ?thesis by (simp add: quote_ascii_def)
qed

lemma time_char_plain: "time_char c \<Longrightarrow> quote_ascii c = [c] \<and> byte_val c < 128"
proof -
  have "quote_ascii CHR ''-'' = ''-''" "quote_ascii CHR '':'' = '':''" "quote_ascii CHR ''.'' = ''.''"
    "quote_ascii CHR ''T'' = ''T''" "quote_ascii CHR ''Z'' = ''Z''"
    by (simp_all add: quote_ascii_def)
  moreover assume "time_char c"
  ultimately show ?thesis using digit_plain [of c] by (auto simp: time_char_def)
qed

lemma quote_plain:
  assumes "\<forall>c \<in> set s. quote_ascii c = [c] \<and> byte_val c < 128"
  shows "quote_json s = quote_char # s @ [quote_char]"
proof -
  have "ascii s" using assms by (simp add: ascii_def)
  moreover have "concat (map (quote_chunk \<circ> (\<lambda>c. [c])) s) = s"
    using assms by (induction s) (auto simp: quote_chunk_def bad_chunk_def rune_error_def)
  ultimately show ?thesis by (simp add: quote_json_def chunks_ascii)
qed

lemma format_chars:
  assumes "printable_time t"
  shows "\<forall>c \<in> set (format_rfc3339nano t). time_char c"
proof -
  obtain y m d where c: "civil_of_days (t_ns t div day_ns) = (y, m, d)" by (metis prod.exhaust)
  with assms have z: "t_zone t = 0" "0 \<le> y" by (simp_all add: printable_time_def)
  have pad: "\<forall>c \<in> set (pad w n). time_char c" for w n using pad_digits by (auto simp: time_char_def)
  have nano: "\<forall>c \<in> set (format_nano n). time_char c" for n
  proof
    fix c assume "c \<in> set (format_nano n)"
    then have "c = CHR ''.'' \<or> c \<in> set (pad 9 n)" by (auto simp: format_nano_def Let_def split: if_splits dest: set_dropWhileD)
    with pad [of 9 n] show "time_char c" by (auto simp: time_char_def)
  qed
  show ?thesis
    using pad nano z c
    by (auto simp: format_rfc3339nano_def Let_def pad_int_def format_zone_def) (auto simp: time_char_def)
qed

lemma marshal_time_printable:
  assumes "marshal_time t = Inr raw" "t_zone t = 0"
  shows "printable_time t \<and> raw = quote_json (format_rfc3339nano t)"
proof -
  from assms have p: "printable_time t" and raw: "raw = quote_char # format_rfc3339nano t @ [quote_char]"
    by (auto simp: marshal_time_def time_year_def printable_time_def split: if_splits)
  have "quote_json (format_rfc3339nano t) = quote_char # format_rfc3339nano t @ [quote_char]"
    by (rule quote_plain) (use format_chars [OF p] time_char_plain in blast)
  with p raw show ?thesis by simp
qed

lemma format_valid: "printable_time t \<Longrightarrow> valid_string (format_rfc3339nano t)"
  using format_chars time_char_plain by (intro valid_string_ascii) (auto simp: ascii_def)

lemma time_setter_printed:
  assumes "marshal_time t = Inr raw" "t_zone t = 0"
  shows "time_setter cur raw = Inr t"
proof -
  from marshal_time_printable [OF assms] have p: "printable_time t" and raw: "raw = quote_json (format_rfc3339nano t)" by simp_all
  have "raw = quote_char # format_rfc3339nano t @ [quote_char]"
    using assms by (auto simp: marshal_time_def split: if_splits)
  moreover have "parse_whole raw = Inr (JString (format_rfc3339nano t))"
    using printed_whole [OF printed_string [OF format_valid [OF p]]] raw by simp
  ultimately show ?thesis by (simp add: time_setter_def parse_format [OF p])
qed

end
