(* ===== verification/CompactFacts.thy ===== *)
theory CompactFacts
  imports StructFacts
begin

text \<open>
  Compaction of any JSON text: what \<open>Marshal\<close> makes of a \<open>json.RawMessage\<close> is JSON again, of the same
  nesting, on one line. The lemmas follow the parser over the text.
\<close>

subsection \<open>Lines\<close>

definition line_text :: "go_string \<Rightarrow> bool" where
  "line_text s \<longleftrightarrow> (\<forall>c \<in> set s. 32 \<le> byte_val c)"

lemma line_text_simps [simp]:
  "line_text []" "line_text (c # s) \<longleftrightarrow> 32 \<le> byte_val c \<and> line_text s" "line_text (s @ t) \<longleftrightarrow> line_text s \<and> line_text t"
  by (auto simp: line_text_def)

text \<open>The part \<open>p\<close> of a text is compacted to \<open>c\<close>, whatever follows.\<close>

definition squeezed :: "go_string \<Rightarrow> go_string \<Rightarrow> bool" where
  "squeezed p c \<longleftrightarrow> line_text c \<and> (\<forall>rest. compact_bytes Outside (p @ rest) = c @ compact_bytes Outside rest)"

lemma squeezed_append: "squeezed p c \<Longrightarrow> squeezed q e \<Longrightarrow> squeezed (p @ q) (c @ e)"
  by (simp add: squeezed_def)

lemma squeezed_kept: "kept Outside p Outside \<Longrightarrow> line_text p \<Longrightarrow> squeezed p p"
  by (simp add: squeezed_def kept_def)

lemma squeezed_ws: "\<forall>c \<in> set w. is_ws c \<Longrightarrow> squeezed w []"
proof (induction w)
  case (Cons c w)
  then have "c \<noteq> CHR 0xE2 \<and> compact_byte Outside c = [] \<and> next_mode Outside c = Outside"
    by (auto simp: is_ws_def compact_byte_def next_mode_def)
  with Cons show ?case by (simp add: squeezed_def compact_step)
qed (simp add: squeezed_def)

lemma skip_ws_squeezed: "\<exists>w. s = w @ skip_ws s \<and> squeezed w []"
  unfolding skip_ws_def using squeezed_ws [of "takeWhile is_ws s"]
  by (metis set_takeWhileD takeWhile_dropWhile_id)

lemma squeezed_punct:
  "squeezed ''{'' ''{''" "squeezed ''}'' ''}''" "squeezed ''['' ''[''" "squeezed '']'' '']''" "squeezed '','' '',''"
  "squeezed '':'' '':''" "squeezed ''null'' ''null''" "squeezed ''true'' ''true''" "squeezed ''false'' ''false''"
  by (simp_all add: squeezed_kept kept_punct)

lemma squeezed_number:
  assumes "scan_number s = Inr (n, r)"
  shows "squeezed n n"
proof (rule squeezed_kept)
  from scan_number_chars [OF assms] have n: "\<forall>c \<in> set n. number_char c" .
  then show "kept Outside n Outside" using number_char_plain by (intro kept_outside) blast
  show "line_text n" using n by (auto simp: line_text_def number_char_def is_digit_def)
qed

subsection \<open>Strings\<close>

lemma hex_plain: "is_hex c \<Longrightarrow> byte_val c < 128 \<and> 32 \<le> byte_val c \<and> \<not> html_char c \<and> c \<noteq> quote_char \<and> c \<noteq> backslash"
  by (auto simp: is_hex_def is_digit_def html_char_def)

lemma simple_escape_plain: "is_simple_escape e \<Longrightarrow> byte_val e < 128 \<and> 32 \<le> byte_val e \<and> \<not> html_char e"
  by (auto simp: is_simple_escape_def html_char_def)

text \<open>One part of the text between the quotes: it is compacted to a part that can stand there.\<close>

definition string_part :: "go_string \<Rightarrow> go_string \<Rightarrow> go_string \<Rightarrow> bool" where
  "string_part a a' x \<longleftrightarrow> scan_safe a' \<and> line_text a' \<and> compact_bytes InString (a @ x) = a' @ compact_bytes InString x"

lemma string_part_kept: "kept InString a InString \<Longrightarrow> scan_safe a \<Longrightarrow> line_text a \<Longrightarrow> string_part a a x"
  by (simp add: string_part_def kept_def)

lemma string_part_html:
  assumes "html_char c"
  shows "string_part [c] ([backslash, CHR ''u'', CHR ''0'', CHR ''0''] @ hex_byte (byte_val c)) x"
proof -
  from assms have "c \<in> {CHR ''<'', CHR ''>'', CHR ''&''}" by (auto simp: html_char_def)
  then show ?thesis
    by (elim insertE emptyE)
      (simp_all add: string_part_def compact_step compact_byte_def next_mode_def hex_byte_def hex_digit_def scan_safe_u
        is_hex_def is_digit_def)
qed

lemma string_part_separator:
  "string_part [CHR 0xE2, CHR 0x80, CHR 0xA8] (backslash # ''u2028'') x"
  "string_part [CHR 0xE2, CHR 0x80, CHR 0xA9] (backslash # ''u2029'') x"
  by (simp_all add: string_part_def next_mode_def scan_safe_u is_hex_def is_digit_def)

lemma string_part_plain:
  assumes "c \<noteq> quote_char" "c \<noteq> backslash" "32 \<le> byte_val c" "\<not> html_char c"
    and "c = CHR 0xE2 \<Longrightarrow> \<not> (\<exists>y. x = CHR 0x80 # CHR 0xA8 # y \<or> x = CHR 0x80 # CHR 0xA9 # y)"
  shows "string_part [c] [c] x"
proof -
  have b: "compact_byte InString c = [c]" "next_mode InString c = InString"
    using assms by (auto simp: compact_byte_def html_char_def next_mode_def)
  have "compact_bytes InString (c # x) = [c] @ compact_bytes InString x"
  proof (cases "c = CHR 0xE2")
    case True
    show ?thesis
    proof (cases x)
      case (Cons y ys)
      with True assms(5) b show ?thesis by (cases ys) auto
    qed (use b in simp)
  next
    case False
    with b show ?thesis by (simp add: compact_step)
  qed
  with assms show ?thesis using scan_safe_plain [of "[c]"] by (simp add: string_part_def)
qed

lemma scan_plain_cons: "c \<noteq> quote_char \<Longrightarrow> c \<noteq> backslash \<Longrightarrow> scan_string (c # s) = Inr (raw, r) \<Longrightarrow>
    \<exists>q. raw = c # q \<and> 32 \<le> byte_val c \<and> scan_string s = Inr (q, r)"
  by (auto simp: cons_raw_Inr split: if_splits)

text \<open>The first part of a scanned string.\<close>

lemma scan_string_step:
  assumes "scan_string s = Inr (raw, r)" "raw \<noteq> []"
  shows "\<exists>a a' q s'. raw = a @ q \<and> a \<noteq> [] \<and> length s' < length s \<and> scan_string s' = Inr (q, r)
     \<and> (\<forall>rest. string_part a a' (q @ quote_char # rest))"
proof -
  from assms obtain c cs where s: "s = c # cs" "c \<noteq> quote_char" by (cases s) (auto split: if_splits)
  consider (U) h1 h2 h3 h4 q s' where "c = backslash" "cs = CHR ''u'' # h1 # h2 # h3 # h4 # s'"
      "list_all is_hex [h1, h2, h3, h4]" "raw = [backslash, CHR ''u'', h1, h2, h3, h4] @ q" "scan_string s' = Inr (q, r)"
    | (E) e q s' where "c = backslash" "cs = e # s'" "is_simple_escape e" "raw = [backslash, e] @ q" "scan_string s' = Inr (q, r)"
    | (P) q where "c \<noteq> backslash" "raw = c # q" "32 \<le> byte_val c" "scan_string cs = Inr (q, r)"
    using assms(1) s by (fastforce simp: cons_raw_Inr split: if_splits list.splits)
  then show ?thesis
  proof cases
    case U
    have "kept InString (backslash # CHR ''u'' # [h1, h2, h3, h4]) InString"
      using U(3) by (intro kept_u) (auto dest: hex_plain)
    moreover have "line_text [backslash, CHR ''u'', h1, h2, h3, h4]" using U(3) hex_plain by simp
    ultimately have "string_part [backslash, CHR ''u'', h1, h2, h3, h4] [backslash, CHR ''u'', h1, h2, h3, h4] x" for x
      using scan_safe_u [OF U(3)] by (intro string_part_kept) simp_all
    with U s show ?thesis by (intro exI [of _ "[backslash, CHR ''u'', h1, h2, h3, h4]"] exI [of _ q] exI [of _ s']) auto
  next
    case E
    have "string_part [backslash, e] [backslash, e] x" for x
      using simple_escape_plain [OF E(3)] scan_safe_escape [OF E(3)] by (intro string_part_kept kept_escape) simp_all
    with E s show ?thesis by (intro exI [of _ "[backslash, e]"] exI [of _ q] exI [of _ s']) auto
  next
    case P
    show ?thesis
    proof (cases "\<exists>z q' s'. c = CHR 0xE2 \<and> (z = CHR 0xA8 \<or> z = CHR 0xA9) \<and> q = CHR 0x80 # z # q'")
      case True
      then obtain z q' where z: "c = CHR 0xE2" "z = CHR 0xA8 \<or> z = CHR 0xA9" "q = CHR 0x80 # z # q'" by blast
      from scan_string_split [OF P(4)] z(3) have cs: "cs = CHR 0x80 # z # q' @ quote_char # r" by simp
      have "z \<noteq> quote_char" "z \<noteq> backslash" using z(2) by auto
      from P(4) have "scan_string (CHR 0x80 # z # q' @ quote_char # r) = Inr (CHR 0x80 # z # q', r)"
        unfolding cs z(3) .
      from scan_plain_cons [OF _ _ this] have "scan_string (z # q' @ quote_char # r) = Inr (z # q', r)" by simp
      from scan_plain_cons [OF \<open>z \<noteq> quote_char\<close> \<open>z \<noteq> backslash\<close> this] have q': "scan_string (q' @ quote_char # r) = Inr (q', r)" by simp
      have "string_part [c, CHR 0x80, z] (if z = CHR 0xA8 then backslash # ''u2028'' else backslash # ''u2029'') x" for x
        using string_part_separator [of x] z(1,2) by auto
      moreover have "raw = [c, CHR 0x80, z] @ q'" using P(2) z(3) by simp
      moreover have "length (q' @ quote_char # r) < length s" by (simp add: s cs)
      ultimately show ?thesis using q' by blast
    next
      case False
      have no: "\<not> (\<exists>y. q @ quote_char # rest = CHR 0x80 # CHR 0xA8 # y \<or> q @ quote_char # rest = CHR 0x80 # CHR 0xA9 # y)"
        if "c = CHR 0xE2" for rest
        using False that by (cases q; cases "tl q") auto
      show ?thesis
      proof (cases "html_char c")
        case True
        with P s string_part_html [OF True] show ?thesis
          by (intro exI [of _ "[c]"] exI [of _ "[backslash, CHR ''u'', CHR ''0'', CHR ''0''] @ hex_byte (byte_val c)"] exI [of _ q] exI [of _ cs]) auto
      next
        case plain: False
        have "string_part [c] [c] (q @ quote_char # rest)" for rest
          using string_part_plain [OF s(2) P(1,3) plain no] by blast
        with P s show ?thesis by (intro exI [of _ "[c]"] exI [of _ q] exI [of _ cs]) auto
      qed
    qed
  qed
qed

lemma compact_string:
  "scan_string s = Inr (raw, r) \<Longrightarrow>
     \<exists>raw'. scan_safe raw' \<and> line_text raw'
       \<and> (\<forall>rest. compact_bytes InString (raw @ quote_char # rest) = raw' @ quote_char # compact_bytes Outside rest)"
proof (induction "length s" arbitrary: s raw rule: less_induct)
  case less
  show ?case
  proof (cases "raw = []")
    case True
    have "compact_bytes InString (quote_char # rest) = quote_char # compact_bytes Outside rest" for rest
      by (simp add: compact_step compact_byte_def next_mode_def)
    with True show ?thesis by (intro exI [of _ "[]"]) (simp add: scan_safe_def)
  next
    case False
    from scan_string_step [OF less.prems this] obtain a a' q s' where
      p: "raw = a @ q" "length s' < length s" "scan_string s' = Inr (q, r)"
        "\<And>rest. string_part a a' (q @ quote_char # rest)" by blast
    from less.hyps [OF p(2,3)] obtain q' where
      q: "scan_safe q'" "line_text q'"
        "\<And>rest. compact_bytes InString (q @ quote_char # rest) = q' @ quote_char # compact_bytes Outside rest" by blast
    from p(4) q show ?thesis unfolding p(1)
      by (intro exI [of _ "a' @ q'"]) (simp add: string_part_def scan_safe_append)
  qed
qed

text \<open>A literal with its quotes.\<close>

lemma squeezed_string:
  assumes "scan_string s = Inr (raw, r)"
  shows "\<exists>raw'. squeezed (quote_char # raw @ [quote_char]) (quote_char # raw' @ [quote_char])
     \<and> (\<forall>t. scan_string (raw' @ quote_char # t) = Inr (raw', t))"
proof -
  from compact_string [OF assms] obtain raw' where
    q: "scan_safe raw'" "line_text raw'"
      "\<And>rest. compact_bytes InString (raw @ quote_char # rest) = raw' @ quote_char # compact_bytes Outside rest" by blast
  have "compact_bytes Outside (quote_char # x) = quote_char # compact_bytes InString x" for x
    by (simp add: compact_step compact_byte_def next_mode_def)
  with q show ?thesis by (intro exI [of _ raw']) (auto simp: squeezed_def scan_safe_def cons_raw_def)
qed

subsection \<open>Values\<close>

text \<open>
  The tails of arrays and objects, from the first element or member to the closing bracket: such
  a text reads at nesting depth \<open>d\<close>, whatever follows.
\<close>

definition elems_text :: "nat \<Rightarrow> go_string \<Rightarrow> bool" where
  "elems_text d c \<longleftrightarrow> (\<exists>x cs. c = x # cs \<and> value_start x)
     \<and> (\<exists>vs. \<forall>g rest. 2 * length (c @ rest) + 1 < g \<longrightarrow> parse_elems g d (c @ rest) = Inr (vs, rest))"

definition members_text :: "nat \<Rightarrow> go_string \<Rightarrow> bool" where
  "members_text d c \<longleftrightarrow> (\<exists>cs. c = quote_char # cs)
     \<and> (\<exists>kvs. \<forall>g rest. 2 * length (c @ rest) + 1 < g \<longrightarrow> parse_members g d (c @ rest) = Inr (kvs, rest))"

lemma printed_array:
  assumes "elems_text (Suc d) c" "d < max_depth"
  shows "\<exists>v. printed d (CHR ''['' # c) v"
proof -
  from assms(1) obtain x cs vs where c: "c = x # cs" "value_start x"
    "\<And>g rest. 2 * length (c @ rest) + 1 < g \<Longrightarrow> parse_elems g (Suc d) (c @ rest) = Inr (vs, rest)"
    unfolding elems_text_def by blast
  have "parse_value f d (CHR ''['' # c @ rest) = Inr (JArray vs, rest)" if "2 * length (CHR ''['' # c @ rest) < f" for f rest
  proof -
    from that obtain g where f: "f = Suc g" by (cases f) auto
    with c(3) [of rest g] that have "parse_elems g (Suc d) (c @ rest) = Inr (vs, rest)" by simp
    with c(1,2) assms(2) value_start_not [OF c(2)] show ?thesis by (simp add: f)
  qed
  then have "printed d (CHR ''['' # c) (JArray vs)" by (simp add: printed_def value_start_def)
  then show ?thesis by blast
qed

lemma printed_members_text:
  assumes "members_text (Suc d) c" "d < max_depth"
  shows "\<exists>v. printed d (CHR ''{'' # c) v"
proof -
  from assms(1) obtain cs kvs where c: "c = quote_char # cs"
    "\<And>g rest. 2 * length (c @ rest) + 1 < g \<Longrightarrow> parse_members g (Suc d) (c @ rest) = Inr (kvs, rest)"
    unfolding members_text_def by blast
  have "parse_value f d (CHR ''{'' # c @ rest) = Inr (JObject (obj_of kvs), rest)"
    if "2 * length (CHR ''{'' # c @ rest) < f" for f rest
  proof -
    from that obtain g where f: "f = Suc g" by (cases f) auto
    with c(2) [of rest g] that have "parse_members g (Suc d) (c @ rest) = Inr (kvs, rest)" by simp
    with c(1) assms(2) show ?thesis by (simp add: f)
  qed
  then have "printed d (CHR ''{'' # c) (JObject (obj_of kvs))" by (simp add: printed_def value_start_def)
  then show ?thesis by blast
qed

lemma elems_one:
  assumes "printed d c v"
  shows "elems_text d (c @ '']'')"
proof -
  have "parse_elems g d (c @ CHR '']'' # rest) = Inr ([v], rest)" if "2 * length (c @ CHR '']'' # rest) + 1 < g" for g rest
  proof -
    from that obtain g' where g: "g = Suc g'" by (cases g) auto
    with printedD [OF assms, of "CHR '']'' # rest" g'] that show ?thesis by simp
  qed
  with printed_start [OF assms] show ?thesis by (auto simp: elems_text_def)
qed

lemma elems_more:
  assumes "printed d c v" "elems_text d e"
  shows "elems_text d (c @ CHR '','' # e)"
proof -
  from assms(2) obtain vs where e: "\<And>g rest. 2 * length (e @ rest) + 1 < g \<Longrightarrow> parse_elems g d (e @ rest) = Inr (vs, rest)"
    unfolding elems_text_def by blast
  have "parse_elems g d (c @ CHR '','' # e @ rest) = Inr (v # vs, rest)" if "2 * length (c @ CHR '','' # e @ rest) + 1 < g" for g rest
  proof -
    from that obtain g' where g: "g = Suc g'" by (cases g) auto
    with printedD [OF assms(1), of "CHR '','' # e @ rest" g'] e [of rest g'] that show ?thesis by simp
  qed
  with printed_start [OF assms(1)] show ?thesis by (auto simp: elems_text_def)
qed

text \<open>A member: a key between quotes, the colon and the value.\<close>

definition key_text :: "go_string \<Rightarrow> go_string \<Rightarrow> bool" where
  "key_text c raw \<longleftrightarrow> c = quote_char # raw @ [quote_char] \<and> (\<forall>t. scan_string (raw @ quote_char # t) = Inr (raw, t))"

lemma members_step:
  assumes "key_text k raw" "printed d c v" "2 * length (k @ CHR '':'' # c @ x # rest) < g" "x = CHR '','' \<or> x = CHR ''}''"
  shows "parse_members (Suc g) d (k @ CHR '':'' # c @ x # rest) =
    (if x = CHR '','' then and_then (parse_members g d rest) (\<lambda>(kvs, r'). Inr ((unquote raw, v) # kvs, r'))
     else Inr ([(unquote raw, v)], rest))"
proof -
  from assms(1) have k: "k = quote_char # raw @ [quote_char]" "\<And>t. scan_string (raw @ quote_char # t) = Inr (raw, t)"
    by (simp_all add: key_text_def)
  have "parse_value g d (c @ x # rest) = Inr (v, x # rest)"
    using printedD [OF assms(2), of "x # rest" g] assms(3,4) by auto
  moreover have "skip_ws (x # rest) = x # rest" using assms(4) by auto
  ultimately show ?thesis using assms(4) by (auto simp: k expect_byte_now)
qed

lemma members_one:
  assumes "key_text k raw" "printed d c v"
  shows "members_text d (k @ CHR '':'' # c @ ''}'')"
proof -
  have "parse_members g d (k @ CHR '':'' # c @ CHR ''}'' # rest) = Inr ([(unquote raw, v)], rest)"
    if "2 * length (k @ CHR '':'' # c @ CHR ''}'' # rest) + 1 < g" for g rest
  proof -
    from that obtain g' where g: "g = Suc g'" by (cases g) auto
    with members_step [OF assms, of "CHR ''}''" rest g'] that show ?thesis by (simp del: parse_members.simps)
  qed
  with assms(1) show ?thesis by (auto simp: members_text_def key_text_def)
qed

lemma members_more:
  assumes "key_text k raw" "printed d c v" "members_text d e"
  shows "members_text d (k @ CHR '':'' # c @ CHR '','' # e)"
proof -
  from assms(3) obtain kvs where e: "\<And>g rest. 2 * length (e @ rest) + 1 < g \<Longrightarrow> parse_members g d (e @ rest) = Inr (kvs, rest)"
    unfolding members_text_def by blast
  have "parse_members g d (k @ CHR '':'' # c @ CHR '','' # e @ rest) = Inr ((unquote raw, v) # kvs, rest)"
    if "2 * length (k @ CHR '':'' # c @ CHR '','' # e @ rest) + 1 < g" for g rest
  proof -
    from that obtain g' where g: "g = Suc g'" by (cases g) auto
    with members_step [OF assms(1,2), of "CHR '',''" "e @ rest" g'] e [of rest g'] that show ?thesis
      by (simp del: parse_members.simps)
  qed
  with assms(1) show ?thesis by (auto simp: members_text_def key_text_def)
qed

lemma key_squeezed:
  assumes "expect_byte quote_char s = Inr s1" "scan_string s1 = Inr (raw, s2)"
  shows "\<exists>p k raw'. s = p @ s2 \<and> squeezed p k \<and> key_text k raw'"
proof -
  from assms(1) have "skip_ws s = quote_char # s1" by (auto simp: expect_byte_def dest: expect_word_split)
  with skip_ws_squeezed [of s] obtain w where w: "s = w @ quote_char # s1" "squeezed w []" by auto
  from squeezed_string [OF assms(2)] obtain raw' where
    q: "squeezed (quote_char # raw @ [quote_char]) (quote_char # raw' @ [quote_char])"
      "\<forall>t. scan_string (raw' @ quote_char # t) = Inr (raw', t)" by blast
  have "s = (w @ quote_char # raw @ [quote_char]) @ s2" using w(1) scan_string_split [OF assms(2)] by simp
  with squeezed_append [OF w(2) q(1)] q(2) show ?thesis
    by (intro exI [of _ "w @ quote_char # raw @ [quote_char]"] exI [of _ "quote_char # raw' @ [quote_char]"] exI [of _ raw'])
      (simp add: key_text_def)
qed

lemma byte_squeezed:
  assumes "skip_ws s = x # r" "squeezed [x] [x]"
  shows "\<exists>p. s = p @ r \<and> squeezed p [x]"
proof -
  from skip_ws_squeezed [of s] assms(1) obtain w where "s = w @ x # r" "squeezed w []" by auto
  with squeezed_append [OF this(2) assms(2)] show ?thesis by (intro exI [of _ "w @ [x]"]) simp
qed

lemma scalar_squeezed:
  assumes "c \<noteq> CHR ''{''" "c \<noteq> CHR ''[''" "parse_value (Suc f) d s = Inr (v, r)" "skip_ws s = c # cs"
  shows "\<exists>p e v'. c # cs = p @ r \<and> squeezed p e \<and> printed d e v'"
proof -
  have words: "\<exists>p e v'. c # cs = p @ r \<and> squeezed p e \<and> printed d e v'"
    if "c # cs = w @ r" "w \<in> {''null'', ''true'', ''false''}" for w
    using that printed_marshal [of JNull d] printed_marshal [of "JBool True" d] printed_marshal [of "JBool False" d]
      squeezed_punct(7-9) by auto
  consider (S) raw where "c = quote_char" "scan_string cs = Inr (raw, r)"
    | (W) w where "c # cs = w @ r" "w \<in> {''null'', ''true'', ''false''}"
    | (N) n where "scan_number (c # cs) = Inr (n, r)"
    using assms by (auto simp: and_then_Inr split: if_splits dest!: expect_word_split)
  then show ?thesis
  proof cases
    case S
    from squeezed_string [OF S(2)] obtain raw' where
      q: "squeezed (quote_char # raw @ [quote_char]) (quote_char # raw' @ [quote_char])"
        "\<And>t. scan_string (raw' @ quote_char # t) = Inr (raw', t)" by blast
    have "parse_value f d (quote_char # raw' @ quote_char # rest) = Inr (JString (unquote raw'), rest)" if "0 < f" for f rest
      using that q(2) by (cases f) simp_all
    then have "printed d (quote_char # raw' @ [quote_char]) (JString (unquote raw'))"
      by (simp add: printed_def value_start_def)
    with q(1) S scan_string_split [OF S(2)] show ?thesis
      by (intro exI [of _ "quote_char # raw @ [quote_char]"] exI [of _ "quote_char # raw' @ [quote_char]"]) auto
  next
    case N
    have "n \<noteq> []" "c # cs = n @ r" using scan_number_split [OF N] by simp_all
    with printed_marshal [of "JNumber n" d] number_literal_self [OF N] squeezed_number [OF N] show ?thesis
      by (intro exI [of _ n]) auto
  qed (rule words)
qed

lemma compact_parse:
  shows compact_value: "parse_value f d s = Inr (v, r) \<Longrightarrow> \<exists>p c v'. s = p @ r \<and> squeezed p c \<and> printed d c v'"
    and compact_elems: "parse_elems f d s = Inr (vs, r) \<Longrightarrow> \<exists>p c. s = p @ r \<and> squeezed p c \<and> elems_text d c"
    and compact_members: "parse_members f d s = Inr (kvs, r) \<Longrightarrow> \<exists>p c. s = p @ r \<and> squeezed p c \<and> members_text d c"
proof (induction f d s and f d s and f d s arbitrary: v r and vs r and kvs r
    rule: parse_value_parse_elems_parse_members.induct)
  case (2 f d s)
  from "2.prems" obtain c cs where s: "skip_ws s = c # cs" by (cases "skip_ws s") auto
  have "\<exists>p e v'. c # cs = p @ r \<and> squeezed p e \<and> printed d e v'"
  proof (cases "c = CHR ''{'' \<or> c = CHR ''[''")
    case True
    with "2.prems" s obtain x q where x: "skip_ws cs = x # q" and max: "\<not> max_depth \<le> d"
      by (auto split: if_splits list.splits)
    have c1: "squeezed [c] [c]" using True squeezed_punct by auto
    from skip_ws_squeezed [of cs] x obtain w where w: "cs = w @ x # q" "squeezed w []" by auto
    have wrap: ?thesis if "x # q = p @ r" "squeezed p e" "printed d (c # e) v'" for p e v'
      using squeezed_append [OF squeezed_append [OF c1 w(2)] that(2)] that w(1)
      by (intro exI [of _ "c # w @ p"] exI [of _ "c # e"] exI [of _ v']) simp
    show ?thesis
    proof (cases "c = CHR ''{''")
      case obj: True
      show ?thesis
      proof (cases "x = CHR ''}''")
        case True
        have "printed d (c # ''}'') (JObject [])" using printed_marshal [of "JObject []" d] max obj by (simp add: sorted_keys_def)
        moreover have "x # q = ''}'' @ r" using "2.prems" s x max obj True by simp
        ultimately show ?thesis using squeezed_punct(2) by (intro wrap)
      next
        case False
        with "2.prems" s x max obj obtain kvs where "parse_members f (Suc d) (x # q) = Inr (kvs, r)"
          by (auto simp: and_then_Inr)
        from "2.IH"(1) [OF s obj max x False this] obtain p e where
          p: "x # q = p @ r" "squeezed p e" "members_text (Suc d) e" by blast
        with printed_members_text [OF p(3)] max obj wrap show ?thesis by auto
      qed
    next
      case False
      with True have arr: "c \<noteq> CHR ''{''" "c = CHR ''[''" by simp_all
      show ?thesis
      proof (cases "x = CHR '']''")
        case True
        have "printed d (c # '']'') (JArray [])" using printed_marshal [of "JArray []" d] max arr by simp
        moreover have "x # q = '']'' @ r" using "2.prems" s x max arr True by simp
        ultimately show ?thesis using squeezed_punct(4) by (intro wrap)
      next
        case False
        with "2.prems" s x max arr obtain vs where "parse_elems f (Suc d) (x # q) = Inr (vs, r)"
          by (auto simp: and_then_Inr)
        from "2.IH"(2) [OF s arr max x False this] obtain p e where
          p: "x # q = p @ r" "squeezed p e" "elems_text (Suc d) e" by blast
        with printed_array [OF p(3)] max arr wrap show ?thesis by auto
      qed
    qed
  qed (use scalar_squeezed "2.prems" s in blast)
  then obtain p e v' where p: "c # cs = p @ r" "squeezed p e" "printed d e v'" by blast
  from skip_ws_squeezed [of s] s obtain w where w: "s = w @ c # cs" "squeezed w []" by auto
  from squeezed_append [OF w(2) p(2)] w(1) p(1,3) show ?case
    by (intro exI [of _ "w @ p"] exI [of _ e] exI [of _ v']) simp
next
  case (4 f d s)
  from "4.prems" obtain v s1 where v: "parse_value f d s = Inr (v, s1)" by (auto simp: and_then_Inr)
  from "4.IH"(1) [OF v] obtain p c v' where p: "s = p @ s1" "squeezed p c" "printed d c v'" by blast
  from "4.prems" v obtain x q where x: "skip_ws s1 = x # q" by (cases "skip_ws s1") (auto simp: and_then_Inr)
  show ?case
  proof (cases "x = CHR '',''")
    case True
    with "4.prems" v x obtain vs' where vs': "parse_elems f d q = Inr (vs', r)" by (auto simp: and_then_Inr)
    from "4.IH"(2) [OF v refl x True vs'] obtain p' e where e: "q = p' @ r" "squeezed p' e" "elems_text d e" by blast
    from byte_squeezed [OF x] True squeezed_punct(5) obtain w where w: "s1 = w @ q" "squeezed w '',''" by auto
    from squeezed_append [OF squeezed_append [OF p(2) w(2)] e(2)] elems_more [OF p(3) e(3)] p(1) w(1) e(1) show ?thesis
      by (intro exI [of _ "(p @ w) @ p'"] exI [of _ "c @ CHR '','' # e"]) simp
  next
    case False
    with "4.prems" v x have r: "x = CHR '']''" "q = r" by (auto simp: and_then_Inr split: if_splits)
    from byte_squeezed [OF x] r squeezed_punct(4) obtain w where w: "s1 = w @ r" "squeezed w '']''" by auto
    from squeezed_append [OF p(2) w(2)] elems_one [OF p(3)] p(1) w(1) show ?thesis
      by (intro exI [of _ "p @ w"] exI [of _ "c @ '']''"]) simp
  qed
next
  case (6 f d s)
  from "6.prems" obtain s1 raw s2 s3 v s4
    where eqs: "expect_byte quote_char s = Inr s1" "scan_string s1 = Inr (raw, s2)"
      "expect_byte CHR '':'' s2 = Inr s3" and v: "parse_value f d s3 = Inr (v, s4)"
    by (auto simp: and_then_Inr)
  from key_squeezed [OF eqs(1,2)] obtain p0 k raw' where k: "s = p0 @ s2" "squeezed p0 k" "key_text k raw'" by blast
  from eqs(3) have "skip_ws s2 = CHR '':'' # s3" by (auto simp: expect_byte_def dest: expect_word_split)
  from byte_squeezed [OF this squeezed_punct(6)] obtain p1 where co: "s2 = p1 @ s3" "squeezed p1 '':''" by blast
  from "6.IH"(1) [OF eqs(1) eqs(2) refl eqs(3) v] obtain p c v' where p: "s3 = p @ s4" "squeezed p c" "printed d c v'" by blast
  from squeezed_append [OF squeezed_append [OF k(2) co(2)] p(2)]
  have head: "squeezed (p0 @ p1 @ p) (k @ CHR '':'' # c)" by simp
  from "6.prems" eqs v obtain x q where x: "skip_ws s4 = x # q" by (cases "skip_ws s4") (auto simp: and_then_Inr)
  show ?case
  proof (cases "x = CHR '',''")
    case True
    with "6.prems" eqs v x obtain kvs' where kvs': "parse_members f d q = Inr (kvs', r)" by (auto simp: and_then_Inr)
    from "6.IH"(2) [OF eqs(1) eqs(2) refl eqs(3) v refl x True kvs'] obtain p' e where
      e: "q = p' @ r" "squeezed p' e" "members_text d e" by blast
    from byte_squeezed [OF x] True squeezed_punct(5) obtain w where w: "s4 = w @ q" "squeezed w '',''" by auto
    from squeezed_append [OF squeezed_append [OF head w(2)] e(2)] members_more [OF k(3) p(3) e(3)] k(1) co(1) p(1) w(1) e(1)
    show ?thesis by (intro exI [of _ "((p0 @ p1 @ p) @ w) @ p'"] exI [of _ "k @ CHR '':'' # c @ CHR '','' # e"]) simp
  next
    case False
    with "6.prems" eqs v x have r: "x = CHR ''}''" "q = r" by (auto simp: and_then_Inr split: if_splits)
    from byte_squeezed [OF x] r squeezed_punct(2) obtain w where w: "s4 = w @ r" "squeezed w ''}''" by auto
    from squeezed_append [OF head w(2)] members_one [OF k(3) p(3)] k(1) co(1) p(1) w(1) show ?thesis
      by (intro exI [of _ "(p0 @ p1 @ p) @ w"] exI [of _ "k @ CHR '':'' # c @ ''}''"]) simp
  qed
qed auto

subsection \<open>Raw messages\<close>

text \<open>The text is one JSON value when \<open>d\<close> arrays or objects are open around it.\<close>

definition json_at :: "nat \<Rightarrow> go_string \<Rightarrow> bool" where
  "json_at d b \<longleftrightarrow>
     (case parse_value (json_fuel b) d b of Inl e \<Rightarrow> False | Inr (v, rest) \<Rightarrow> skip_ws rest = [])"

lemma compact_json:
  assumes "json_at d b"
  shows "\<exists>c v. compact_raw b = Inr c \<and> printed d c v \<and> line_text c"
proof -
  from assms obtain v rest where v: "parse_value (json_fuel b) d b = Inr (v, rest)" "skip_ws rest = []"
    by (auto simp: json_at_def split: sum.splits)
  from compact_value [OF v(1)] obtain p c v' where p: "b = p @ rest" "squeezed p c" "printed d c v'" by blast
  from skip_ws_squeezed [of rest] v(2) have "squeezed rest []" by simp
  from squeezed_append [OF p(2) this] p(1) have "squeezed b c" by simp
  then have "compact_bytes Outside (b @ []) = c @ compact_bytes Outside []" "line_text c" unfolding squeezed_def by blast+
  moreover have "parse_value (json_fuel b) 0 b = Inr (v, rest)" using v(1) by (rule parse_depth(1)) simp
  ultimately show ?thesis using p(3) v(2) by (auto simp: compact_raw_def parse_whole_def parse_json_def)
qed

lemma json_at_0: "parse_whole b = Inr v \<Longrightarrow> json_at 0 b"
  by (auto simp: json_at_def parse_whole_def parse_json_def split: sum.splits prod.splits if_splits)

end
