(* ===== verification/EventRoundTrip.thy ===== *)
theory EventRoundTrip
  imports EventCodec CompactFacts MemoryStore
begin

text \<open>
  The JSON form of the durable stores read back: \<open>json.Unmarshal\<close> of a marshalled transaction and
  of a marshalled event gives the same value, without the parsed maps and with compacted raw messages.
\<close>

subsection \<open>What can be stored\<close>

text \<open>The raw message that is read back; it must be JSON of the nesting that its place allows.\<close>

definition compacted :: "raw_message \<Rightarrow> raw_message" where
  "compacted r =
     (case r of
        None \<Rightarrow> None
      | Some b \<Rightarrow> if b = [] then None else (case compact_raw b of Inl e \<Rightarrow> None | Inr c \<Rightarrow> Some c))"

definition raw_fits :: "nat \<Rightarrow> raw_message \<Rightarrow> bool" where
  "raw_fits d r \<longleftrightarrow> (case r of None \<Rightarrow> True | Some b \<Rightarrow> b = [] \<or> json_at d b)"

definition kept_transaction :: "transaction \<Rightarrow> transaction" where
  "kept_transaction t =
     t\<lparr>tx_location := None, tx_metadata := None,
       tx_location_raw := compacted (tx_location_raw t), tx_metadata_raw := compacted (tx_metadata_raw t)\<rparr>"

definition storable_transaction :: "nat \<Rightarrow> transaction \<Rightarrow> bool" where
  "storable_transaction d t \<longleftrightarrow>
     valid_texts t \<and> valid_string (tx_id t) \<and> printable_time (tx_time t)
     \<and> raw_fits d (tx_location_raw t) \<and> raw_fits d (tx_metadata_raw t)"

lemma raw_fits_cases:
  assumes "raw_fits d r"
  shows "(marshal_raw r = Inr None \<and> compacted r = None)
     \<or> (\<exists>c v. marshal_raw r = Inr (Some c) \<and> compacted r = Some c \<and> printed d c v \<and> line_text c)"
proof (cases "r = None \<or> r = Some []")
  case False
  with assms obtain b where b: "r = Some b" "b \<noteq> []" "json_at d b" by (auto simp: raw_fits_def split: option.splits)
  from compact_json [OF b(3)] b(1,2) show ?thesis by (auto simp: marshal_raw_def compacted_def)
qed (auto simp: marshal_raw_def compacted_def)

lemma line_quote: "line_text (quote_json s)"
proof -
  have "json_at 0 (quote_json s)"
    using parse_string [of "json_fuel (quote_json s)" 0 s "[]"] by (simp add: json_at_def json_fuel_def skip_ws_def)
  then obtain c where "compact_raw (quote_json s) = Inr c" "line_text c" using compact_json by blast
  moreover have "compact_bytes Outside (quote_json s @ []) = quote_json s @ compact_bytes Outside []"
    using kept_quote_json [of s] unfolding kept_def by blast
  ultimately show ?thesis by (auto simp: compact_raw_def and_then_Inr)
qed

lemma line_itoa: "line_text (itoa_int i)"
proof -
  have "line_text (itoa n)" for n using itoa_digits [of n] by (auto simp: line_text_def is_digit_def)
  then show ?thesis by (simp add: itoa_int_def)
qed

lemma marshal_printable:
  assumes "printable_time t"
  shows "marshal_time t = Inr (quote_json (format_rfc3339nano t))" "t_zone t = 0"
proof -
  show z: "t_zone t = 0" using assms by (auto simp: printable_time_def)
  with assms obtain raw where raw: "marshal_time t = Inr raw"
    by (auto simp: marshal_time_def time_year_def printable_time_def split: prod.splits)
  with marshal_time_printable [OF raw z] show "marshal_time t = Inr (quote_json (format_rfc3339nano t))" by simp
qed

lemma time_setter_text: "printable_time t \<Longrightarrow> time_setter cur (quote_json (format_rfc3339nano t)) = Inr t"
  using time_setter_printed marshal_printable by blast

lemma printed_time: "printable_time t \<Longrightarrow> printed d (quote_json (format_rfc3339nano t)) (JString (format_rfc3339nano t))"
  by (intro printed_string format_valid)

subsection \<open>Structs\<close>

text \<open>The fields that are present, each with its text and what the text reads as.\<close>

definition printed_fields :: "nat \<Rightarrow> (go_string \<times> (go_string \<times> json) option) list \<Rightarrow> bool" where
  "printed_fields d fs \<longleftrightarrow> printed_members d (present_members fs)"

definition texts :: "(go_string \<times> (go_string \<times> json) option) list \<Rightarrow> (go_string \<times> go_string option) list" where
  "texts fs = map (\<lambda>(k, x). (k, map_option fst x)) fs"

lemma fields_simps [simp]:
  "printed_fields d [] " "texts [] = []"
  "printed_fields d ((k, None) # fs) \<longleftrightarrow> printed_fields d fs"
  "printed_fields d ((k, Some (raw, v)) # fs) \<longleftrightarrow> valid_string k \<and> printed d raw v \<and> printed_fields d fs"
  "texts ((k, x) # fs) = (k, map_option fst x) # texts fs"
  by (simp_all add: printed_fields_def texts_def)

lemma marshal_struct_texts: "marshal_struct (texts fs) = print_object (raws_of (present_members fs))"
  by (simp add: marshal_struct_def present_raws texts_def)

lemma printed_struct:
  assumes "printed_fields (Suc d) fs" "present_members fs \<noteq> []" "d < max_depth"
  shows "printed d (marshal_struct (texts fs)) (JObject (obj_of (values_of (present_members fs))))"
  using printed_object [of d] assms by (simp add: marshal_struct_texts printed_fields_def)

lemma struct_setter_texts:
  assumes "printed_fields 1 fs" "present_members fs \<noteq> []"
  shows "struct_setter sts cur (marshal_struct (texts fs)) = set_members sts (present (texts fs)) cur"
  using struct_setter_printed [of "present_members fs" sts cur] assms
  by (simp add: marshal_struct_texts marshal_struct_def printed_fields_def present_raws texts_def)

text \<open>A printed struct is one line.\<close>

definition line_fields :: "(go_string \<times> (go_string \<times> json) option) list \<Rightarrow> bool" where
  "line_fields fs \<longleftrightarrow> (\<forall>(k, x) \<in> set fs. case x of None \<Rightarrow> True | Some (raw, v) \<Rightarrow> line_text raw)"

lemma line_fields_simps [simp]:
  "line_fields []" "line_fields ((k, None) # fs) \<longleftrightarrow> line_fields fs"
  "line_fields ((k, Some (raw, v)) # fs) \<longleftrightarrow> line_text raw \<and> line_fields fs"
  by (simp_all add: line_fields_def)

lemma line_members: "\<forall>(k, raw) \<in> set ms. line_text raw \<Longrightarrow> line_text (print_members ms)"
  by (induction ms rule: print_members.induct) (auto simp: line_quote)

lemma line_struct:
  assumes "line_fields fs"
  shows "line_text (marshal_struct (texts fs))"
proof -
  have "\<forall>(k, raw) \<in> set (present (texts fs)). line_text raw"
    using assms
  proof (induction fs)
    case (Cons f fs)
    obtain k x where "f = (k, x)" by (cases f)
    with Cons show ?case by (cases x) auto
  qed simp
  then show ?thesis by (simp add: marshal_struct_def print_object_def line_members)
qed

lemma printed_fields_less: "printed_fields d fs \<Longrightarrow> d' \<le> d \<Longrightarrow> printed_fields d' fs"
  unfolding printed_fields_def printed_members_def using printed_less by blast

subsection \<open>Plates\<close>

lemma quote_name: "list_all (\<lambda>c. quote_ascii c = [c] \<and> byte_val c < 128) s \<Longrightarrow> quote_json s = quote_char # s @ [quote_char]"
  by (rule quote_plain) (simp add: list_all_iff)

definition plate_texts :: "plate \<Rightarrow> (go_string \<times> (go_string \<times> json) option) list" where
  "plate_texts p =
     [(''number'', Some (quote_json (plate_number p), JString (plate_number p))),
      (''jurisdiction'', Some (quote_json (plate_jurisdiction p), JString (plate_jurisdiction p)))]"

lemma marshal_plate_struct: "marshal_plate p = marshal_struct (texts (plate_texts p))"
proof -
  have "quote_json ''number'' = quote_char # ''number'' @ [quote_char]"
    "quote_json ''jurisdiction'' = quote_char # ''jurisdiction'' @ [quote_char]"
    by (rule quote_name, simp add: quote_ascii_def)+
  then show ?thesis by (simp add: marshal_plate_def plate_texts_def marshal_struct_def print_object_def field_def)
qed

lemma ascii_names:
  "ascii ''number''" "ascii ''jurisdiction''" "ascii ''id''" "ascii ''source''" "ascii ''source_reference''"
  "ascii ''transaction_type''" "ascii ''transaction_time_utc''" "ascii ''base_amount''" "ascii ''currency''"
  "ascii ''plate''" "ascii ''transponder_number''" "ascii ''location''" "ascii ''metadata''"
  "ascii ''ID''" "ascii ''Type''" "ascii ''SchemaVersion''" "ascii ''OccurredAt''" "ascii ''CorrelationID''"
  "ascii ''Source''" "ascii ''SourceReference''" "ascii ''TransactionID''" "ascii ''Key''" "ascii ''Payload''"
  by (simp_all add: ascii_def)

lemmas valid_names [simp] = ascii_names [THEN valid_string_ascii]

lemma plate_fields:
  assumes "valid_string (plate_number p)" "valid_string (plate_jurisdiction p)"
  shows "printed_fields d (plate_texts p)" "present_members (plate_texts p) \<noteq> []"
  using assms by (simp_all add: plate_texts_def printed_string)

lemma field_of_Inr: "st (sel r) raw = Inr x \<Longrightarrow> field_of sel upd st r raw = Inr (upd (\<lambda>_. x) r)"
  by (simp add: field_of_def)

lemma plate_setter_printed:
  assumes "valid_string (plate_number p)" "valid_string (plate_jurisdiction p)"
  shows "plate_setter cur (marshal_plate p) = Inr p"
proof -
  note v = string_setter_printed [OF assms(1)] string_setter_printed [OF assms(2)]
  have f: "find_field sts ''number'' = Some (field_of plate_number plate_number_update string_setter)"
    "find_field sts ''jurisdiction'' = Some (field_of plate_jurisdiction plate_jurisdiction_update string_setter)"
    if "sts = [(''number'', field_of plate_number plate_number_update string_setter),
      (''jurisdiction'', field_of plate_jurisdiction plate_jurisdiction_update string_setter)]" for sts
    unfolding that by (simp_all add: find_field_def)
  show ?thesis
    unfolding plate_setter_def marshal_plate_struct struct_setter_texts [OF plate_fields [OF assms]]
    unfolding plate_texts_def
    by (simp add: f field_of_def v del: find_field_def)
qed

lemma plate_pointer_printed:
  assumes "valid_string (plate_number p)" "valid_string (plate_jurisdiction p)"
  shows "pointer_setter empty_plate plate_setter None (marshal_plate p) = Inr (Some p)"
proof -
  have "parse_whole (marshal_plate p) = Inr (JObject (obj_of (values_of (present_members (plate_texts p)))))"
    unfolding marshal_plate_struct
    by (rule printed_whole [of 0], rule printed_struct) (use plate_fields assms in \<open>auto simp: max_depth_def\<close>)
  then show ?thesis by (simp add: pointer_setter_def plate_setter_printed [OF assms])
qed

subsection \<open>Transactions\<close>

lemma transaction_find:
  "find_field transaction_fields ''id'' = Some (field_of tx_id tx_id_update string_setter)"
  "find_field transaction_fields ''source'' = Some (field_of tx_source tx_source_update string_setter)"
  "find_field transaction_fields ''source_reference'' =
     Some (field_of tx_source_reference tx_source_reference_update string_setter)"
  "find_field transaction_fields ''transaction_type'' = Some (field_of tx_type tx_type_update string_setter)"
  "find_field transaction_fields ''transaction_time_utc'' = Some (field_of tx_time tx_time_update time_setter)"
  "find_field transaction_fields ''base_amount'' = Some (field_of tx_base_amount tx_base_amount_update string_setter)"
  "find_field transaction_fields ''currency'' = Some (field_of tx_currency tx_currency_update string_setter)"
  "find_field transaction_fields ''plate'' =
     Some (field_of tx_plate tx_plate_update (pointer_setter empty_plate plate_setter))"
  "find_field transaction_fields ''transponder_number'' =
     Some (field_of tx_transponder tx_transponder_update string_setter)"
  "find_field transaction_fields ''location'' = Some (field_of tx_location_raw tx_location_raw_update raw_setter)"
  "find_field transaction_fields ''metadata'' = Some (field_of tx_metadata_raw tx_metadata_raw_update raw_setter)"
  by (simp_all add: find_field_def transaction_fields_def)

definition value_of :: "go_string \<Rightarrow> json" where
  "value_of c = (case parse_whole c of Inr v \<Rightarrow> v | Inl e \<Rightarrow> JNull)"

definition with_text :: "go_string \<Rightarrow> go_string \<times> json" where
  "with_text s = (quote_json s, JString s)"

definition raw_text :: "raw_message \<Rightarrow> (go_string \<times> json) option" where
  "raw_text r = map_option (\<lambda>c. (c, value_of c)) (compacted r)"

lemma value_of_printed: "printed d c v \<Longrightarrow> value_of c = v"
  by (simp add: value_of_def printed_whole)

lemma raw_text_fits:
  assumes "raw_fits d r"
  shows "marshal_raw r = Inr (map_option fst (raw_text r))" "printed_fields d ((k, raw_text r) # fs) \<longleftrightarrow> raw_text r = None \<and> printed_fields d fs \<or> raw_text r \<noteq> None \<and> valid_string k \<and> printed_fields d fs"
    "map_option fst (raw_text r) = compacted r"
  using raw_fits_cases [OF assms] by (auto simp: raw_text_def value_of_printed)

lemma raw_text_line: "raw_fits d r \<Longrightarrow> line_fields ((k, raw_text r) # fs) \<longleftrightarrow> line_fields fs"
  using raw_fits_cases [of d r] by (auto simp: raw_text_def)

lemma with_text_simps [simp]:
  "fst (with_text s) = quote_json s"
  "printed_fields d ((k, Some (with_text s)) # fs) \<longleftrightarrow> valid_string k \<and> printed d (quote_json s) (JString s) \<and> printed_fields d fs"
  "present_members ((k, Some (with_text s)) # fs) = (k, quote_json s, JString s) # present_members fs"
  "line_fields ((k, Some (with_text s)) # fs) \<longleftrightarrow> line_fields fs"
  by (simp_all add: with_text_def line_quote)

definition omit_text :: "go_string \<Rightarrow> (go_string \<times> json) option" where
  "omit_text s = (if s = [] then None else Some (with_text s))"

definition plate_text :: "plate option \<Rightarrow> (go_string \<times> json) option" where
  "plate_text = map_option (\<lambda>p. (marshal_plate p, value_of (marshal_plate p)))"

definition transaction_texts :: "transaction \<Rightarrow> (go_string \<times> (go_string \<times> json) option) list" where
  "transaction_texts t =
     [(''id'', Some (with_text (tx_id t))), (''source'', Some (with_text (tx_source t))),
      (''source_reference'', Some (with_text (tx_source_reference t))),
      (''transaction_type'', Some (with_text (tx_type t))),
      (''transaction_time_utc'', Some (with_text (format_rfc3339nano (tx_time t)))),
      (''base_amount'', Some (with_text (tx_base_amount t))), (''currency'', Some (with_text (tx_currency t))),
      (''plate'', plate_text (tx_plate t)), (''transponder_number'', omit_text (tx_transponder t)),
      (''location'', raw_text (tx_location_raw t)), (''metadata'', raw_text (tx_metadata_raw t))]"

lemma marshal_transaction_texts:
  assumes "storable_transaction d t"
  shows "marshal_transaction t = Inr (marshal_struct (texts (transaction_texts t)))"
proof -
  have "marshal_omit_string s = map_option fst (omit_text s)" for s
    by (simp add: marshal_omit_string_def omit_text_def)
  moreover have "map_option marshal_plate p = map_option fst (plate_text p)" for p
    by (cases p) (simp_all add: plate_text_def)
  ultimately show ?thesis
    using assms
    by (simp add: marshal_transaction_def storable_transaction_def marshal_printable raw_text_fits(1) [of d] transaction_texts_def)
qed

lemma plate_text_fits:
  assumes "valid_texts t" "d < max_depth"
  shows "printed_fields d ((''plate'', plate_text (tx_plate t)) # fs) \<longleftrightarrow> printed_fields d fs"
proof (cases "tx_plate t")
  case (Some p)
  with assms(1) have "valid_string (plate_number p)" "valid_string (plate_jurisdiction p)" by (simp_all add: valid_texts_def)
  from printed_struct [OF plate_fields [OF this] assms(2)] value_of_printed Some show ?thesis
    by (simp add: plate_text_def marshal_plate_struct)
qed (simp add: plate_text_def)

lemma transaction_texts_fit:
  assumes "storable_transaction d t" "d < max_depth"
  shows "printed_fields d (transaction_texts t)" "present_members (transaction_texts t) \<noteq> []"
proof -
  from assms(1) have v: "valid_texts t" "valid_string (tx_id t)" "printable_time (tx_time t)"
    and r: "raw_fits d (tx_location_raw t)" "raw_fits d (tx_metadata_raw t)" by (simp_all add: storable_transaction_def)
  have o: "printed_fields d ((''transponder_number'', omit_text (tx_transponder t)) # fs) \<longleftrightarrow> printed_fields d fs" for fs
    using v(1) by (simp add: omit_text_def printed_string valid_texts_def)
  have l: "printed_fields d [(''location'', raw_text (tx_location_raw t)), (''metadata'', raw_text (tx_metadata_raw t))]"
    by (simp only: raw_text_fits(2) [OF r(1)] raw_text_fits(2) [OF r(2)] fields_simps(1) valid_names simp_thms)
  show "printed_fields d (transaction_texts t)"
    using v l unfolding transaction_texts_def
    by (simp add: plate_text_fits [OF v(1) assms(2)] o printed_string printed_time valid_texts_def del: fields_simps(3,4))
  show "present_members (transaction_texts t) \<noteq> []" by (simp add: transaction_texts_def)
qed

lemma transaction_line:
  assumes "storable_transaction d t"
  shows "line_text (marshal_struct (texts (transaction_texts t)))"
proof (rule line_struct)
  from assms have r: "raw_fits d (tx_location_raw t)" "raw_fits d (tx_metadata_raw t)"
    by (simp_all add: storable_transaction_def)
  have p: "line_fields ((k, plate_text p) # fs) \<longleftrightarrow> line_fields fs" for k p fs
  proof (cases p)
    case (Some q)
    have "line_fields (plate_texts q)" by (simp add: plate_texts_def line_quote)
    with Some line_struct [OF this] show ?thesis by (simp add: plate_text_def marshal_plate_struct)
  qed (simp add: plate_text_def)
  have o: "line_fields ((k, omit_text s) # fs) \<longleftrightarrow> line_fields fs" for k s fs by (simp add: omit_text_def)
  show "line_fields (transaction_texts t)"
    by (simp add: transaction_texts_def p o raw_text_line [OF r(1)] raw_text_line [OF r(2)])
qed

text \<open>Each setter in turn; an omitted field keeps its value.\<close>

definition set_optional :: "'a setter \<Rightarrow> 'a \<Rightarrow> go_string option \<Rightarrow> decode_error + 'a" where
  "set_optional st r x = (case x of None \<Rightarrow> Inr r | Some raw \<Rightarrow> st r raw)"

lemma set_optional_simps [simp]: "set_optional st r None = Inr r" "set_optional st r (Some raw) = st r raw"
  by (simp_all add: set_optional_def)

lemma set_field:
  "find_field fs k = Some st \<Longrightarrow>
     set_members fs (present ((k, x) # ms)) r = and_then (set_optional st r x) (set_members fs (present ms))"
  by (cases x) simp_all

lemma set_plate:
  assumes "valid_texts t" "tx_plate r = None"
  shows "set_optional (field_of tx_plate tx_plate_update (pointer_setter empty_plate plate_setter)) r
         (map_option fst (plate_text (tx_plate t)))
       = Inr (r\<lparr>tx_plate := tx_plate t\<rparr>)"
proof (cases "tx_plate t")
  case None
  with assms(2) show ?thesis by (cases r) (simp add: plate_text_def)
next
  case (Some p)
  with assms(1) have "valid_string (plate_number p)" "valid_string (plate_jurisdiction p)" by (simp_all add: valid_texts_def)
  from plate_pointer_printed [OF this] Some assms(2) show ?thesis by (simp add: plate_text_def field_of_def)
qed

lemma set_transponder:
  assumes "valid_string s" "tx_transponder r = []"
  shows "set_optional (field_of tx_transponder tx_transponder_update string_setter) r (map_option fst (omit_text s))
       = Inr (r\<lparr>tx_transponder := s\<rparr>)"
  using assms string_setter_printed [of s] by (cases r) (simp add: omit_text_def field_of_def)

lemma set_raws:
  assumes "raw_fits d x"
  shows "tx_location_raw r = None \<Longrightarrow> set_optional (field_of tx_location_raw tx_location_raw_update raw_setter) r (map_option fst (raw_text x))
       = Inr (r\<lparr>tx_location_raw := compacted x\<rparr>)"
    and "tx_metadata_raw r = None \<Longrightarrow> set_optional (field_of tx_metadata_raw tx_metadata_raw_update raw_setter) r (map_option fst (raw_text x))
       = Inr (r\<lparr>tx_metadata_raw := compacted x\<rparr>)"
  unfolding raw_text_fits(3) [OF assms] by (cases r; cases "compacted x"; simp add: field_of_def raw_setter_def)+

lemma transaction_round_trip:
  assumes "storable_transaction d t" "0 < d" "d < max_depth"
  shows "\<exists>raw v. marshal_transaction t = Inr raw \<and> printed (d - 1) raw v \<and> line_text raw
           \<and> transaction_setter empty_transaction raw = Inr (kept_transaction t)"
proof -
  note f = transaction_texts_fit [OF assms(1,3)]
  from assms(1) have v: "valid_texts t" "valid_string (tx_id t)" "printable_time (tx_time t)"
    and r: "raw_fits d (tx_location_raw t)" "raw_fits d (tx_metadata_raw t)" by (simp_all add: storable_transaction_def)
  from v(1) have s: "valid_string (tx_source t)" "valid_string (tx_source_reference t)" "valid_string (tx_type t)"
    "valid_string (tx_base_amount t)" "valid_string (tx_currency t)" "valid_string (tx_transponder t)"
    by (simp_all add: valid_texts_def)
  have "transaction_setter empty_transaction (marshal_struct (texts (transaction_texts t)))
      = set_members transaction_fields (present (texts (transaction_texts t))) empty_transaction"
    unfolding transaction_setter_def
    using f assms(2) by (intro struct_setter_texts) (auto intro: printed_fields_less)
  also have "\<dots> = Inr (kept_transaction t)"
    unfolding transaction_texts_def fields_simps option.map with_text_simps
    using s v
    by (simp add: set_field [OF transaction_find(1)] set_field [OF transaction_find(2)] set_field [OF transaction_find(3)]
        set_field [OF transaction_find(4)] set_field [OF transaction_find(5)] set_field [OF transaction_find(6)]
        set_field [OF transaction_find(7)] set_field [OF transaction_find(8)] set_field [OF transaction_find(9)]
        set_field [OF transaction_find(10)] set_field [OF transaction_find(11)] field_of_def [of tx_id] field_of_def [of tx_source] field_of_def [of tx_source_reference]
        field_of_def [of tx_type] field_of_def [of tx_time] field_of_def [of tx_base_amount] field_of_def [of tx_currency]
        string_setter_printed time_setter_text set_plate set_transponder set_raws [OF r(1)] set_raws [OF r(2)]
        empty_transaction_def kept_transaction_def del: present_simps(2,3))
  finally have "transaction_setter empty_transaction (marshal_struct (texts (transaction_texts t))) = Inr (kept_transaction t)" .
  moreover have "printed (d - 1) (marshal_struct (texts (transaction_texts t)))
      (JObject (obj_of (values_of (present_members (transaction_texts t)))))"
    using f assms(2,3) by (intro printed_struct) simp_all
  ultimately show ?thesis using marshal_transaction_texts [OF assms(1)] transaction_line [OF assms(1)] by blast
qed

subsection \<open>Events\<close>

lemma event_find:
  "find_field event_fields ''ID'' = Some (field_of ev_id ev_id_update string_setter)"
  "find_field event_fields ''Type'' = Some (field_of ev_type ev_type_update string_setter)"
  "find_field event_fields ''SchemaVersion'' =
     Some (field_of ev_schema_version ev_schema_version_update int_setter)"
  "find_field event_fields ''OccurredAt'' = Some (field_of ev_occurred_at ev_occurred_at_update time_setter)"
  "find_field event_fields ''CorrelationID'' =
     Some (field_of ev_correlation_id ev_correlation_id_update string_setter)"
  "find_field event_fields ''Source'' = Some (field_of ev_source ev_source_update string_setter)"
  "find_field event_fields ''SourceReference'' =
     Some (field_of ev_source_reference ev_source_reference_update string_setter)"
  "find_field event_fields ''TransactionID'' =
     Some (field_of ev_transaction_id ev_transaction_id_update string_setter)"
  "find_field event_fields ''Key'' = Some (field_of ev_key ev_key_update string_setter)"
  "find_field event_fields ''Payload'' = Some (field_of ev_payload ev_payload_update transaction_setter)"
  by (simp_all add: find_field_def event_fields_def)

text \<open>An event inside \<open>d\<close> values: its transaction is one level deeper, the raw messages two.\<close>

definition storable_event :: "nat \<Rightarrow> outbox_event \<Rightarrow> bool" where
  "storable_event d ev \<longleftrightarrow>
     valid_string (ev_id ev) \<and> valid_string (ev_type ev) \<and> valid_string (ev_correlation_id ev)
     \<and> valid_string (ev_source ev) \<and> valid_string (ev_source_reference ev)
     \<and> valid_string (ev_transaction_id ev) \<and> valid_string (ev_key ev)
     \<and> - (2 ^ 63) \<le> ev_schema_version ev \<and> ev_schema_version ev < 2 ^ 63
     \<and> printable_time (ev_occurred_at ev) \<and> storable_transaction (d + 2) (ev_payload ev)"

definition kept_event :: "outbox_event \<Rightarrow> outbox_event" where
  "kept_event ev = ev\<lparr>ev_payload := kept_transaction (ev_payload ev)\<rparr>"

definition event_texts :: "outbox_event \<Rightarrow> go_string \<Rightarrow> (go_string \<times> (go_string \<times> json) option) list" where
  "event_texts ev payload =
     [(''ID'', Some (with_text (ev_id ev))), (''Type'', Some (with_text (ev_type ev))),
      (''SchemaVersion'', Some (itoa_int (ev_schema_version ev), JNumber (itoa_int (ev_schema_version ev)))),
      (''OccurredAt'', Some (with_text (format_rfc3339nano (ev_occurred_at ev)))),
      (''CorrelationID'', Some (with_text (ev_correlation_id ev))), (''Source'', Some (with_text (ev_source ev))),
      (''SourceReference'', Some (with_text (ev_source_reference ev))),
      (''TransactionID'', Some (with_text (ev_transaction_id ev))), (''Key'', Some (with_text (ev_key ev))),
      (''Payload'', Some (payload, value_of payload))]"

lemma event_round_trip:
  assumes "storable_event d ev" "d + 2 < max_depth"
  shows "\<exists>raw v. marshal_event ev = Inr raw \<and> printed d raw v \<and> line_text raw \<and> event_setter empty_event raw = Inr (kept_event ev)"
proof -
  from assms(1) have s: "valid_string (ev_id ev)" "valid_string (ev_type ev)" "valid_string (ev_correlation_id ev)"
    "valid_string (ev_source ev)" "valid_string (ev_source_reference ev)" "valid_string (ev_transaction_id ev)"
    "valid_string (ev_key ev)" "- (2 ^ 63) \<le> ev_schema_version ev" "ev_schema_version ev < 2 ^ 63"
    and t: "printable_time (ev_occurred_at ev)" and p: "storable_transaction (d + 2) (ev_payload ev)"
    unfolding storable_event_def by blast+
  from transaction_round_trip [OF p] assms(2) obtain payload v
    where payload: "marshal_transaction (ev_payload ev) = Inr payload" "printed (d + 1) payload v" "line_text payload"
      "transaction_setter empty_transaction payload = Inr (kept_transaction (ev_payload ev))" by auto
  let ?fs = "event_texts ev payload"
  have fits: "printed_fields (Suc d) ?fs" "present_members ?fs \<noteq> []"
    using s t payload(2) value_of_printed [OF payload(2)]
    by (simp_all add: event_texts_def printed_string printed_int printed_time)
  have "marshal_event ev = Inr (marshal_struct (texts ?fs))"
    by (simp add: marshal_event_def marshal_printable [OF t] payload(1) event_texts_def)
  moreover have "printed d (marshal_struct (texts ?fs)) (JObject (obj_of (values_of (present_members ?fs))))"
    using fits assms(2) by (intro printed_struct) simp_all
  moreover have "event_setter empty_event (marshal_struct (texts ?fs)) = set_members event_fields (present (texts ?fs)) empty_event"
    unfolding event_setter_def using fits by (intro struct_setter_texts) (auto intro: printed_fields_less)
  moreover have "set_members event_fields (present (texts ?fs)) empty_event = Inr (kept_event ev)"
    unfolding event_texts_def fields_simps option.map with_text_simps fst_conv
    using s t payload(4)
    by (simp add: set_field [OF event_find(1)] set_field [OF event_find(2)] set_field [OF event_find(3)]
        set_field [OF event_find(4)] set_field [OF event_find(5)] set_field [OF event_find(6)]
        set_field [OF event_find(7)] set_field [OF event_find(8)] set_field [OF event_find(9)]
        set_field [OF event_find(10)] field_of_def string_setter_printed time_setter_text int_setter_printed
        empty_event_def kept_event_def del: present_simps(2,3))
  moreover have "line_text (marshal_struct (texts ?fs))"
    by (rule line_struct) (simp add: event_texts_def payload(3) line_itoa)
  ultimately show ?thesis by auto
qed

subsection \<open>What the durable stores keep\<close>

text \<open>The event without the parsed maps, which no durable store keeps; an empty raw message is nil.\<close>

definition without_maps :: "transaction \<Rightarrow> transaction" where
  "without_maps t =
     t\<lparr>tx_location := None, tx_metadata := None,
       tx_location_raw := clone_raw (tx_location_raw t), tx_metadata_raw := clone_raw (tx_metadata_raw t)\<rparr>"

definition durable_event :: "outbox_event \<Rightarrow> outbox_event" where
  "durable_event ev = ev\<lparr>ev_payload := without_maps (ev_payload ev)\<rparr>"

end
