(* ===== verification/RecordRoundTrip.thy ===== *)
theory RecordRoundTrip
  imports EventRoundTrip NdjsonStore
begin

text \<open>
  The records of the append log: \<open>json.Unmarshal\<close> undoes \<open>json.Marshal\<close> on them, base64 included, and
  a marshalled record is one line.
\<close>

subsection \<open>Base64\<close>

lemma b64_inverse:
  assumes "n < 64"
  shows "b64_val (b64_char n) = Some n \<and> b64_char n \<noteq> CHR ''='' \<and> 32 \<le> byte_val (b64_char n)"
proof -
  have ne: "byte_of k \<noteq> c" if "k < 256" "k \<noteq> byte_val c" for k c using that byte_val_of [of k] by metis
  consider "n < 26" | "26 \<le> n" "n < 52" | "52 \<le> n" "n < 62" | "n = 62" | "n = 63" using assms by linarith
  then show ?thesis
  proof cases
    case 1
    then have "b64_char n = byte_of (65 + n)" "byte_val (byte_of (65 + n)) = 65 + n" by (simp_all add: b64_char_def byte_val_of)
    with 1 ne [of "65 + n"] show ?thesis by (simp add: b64_val_def Let_def)
  next
    case 2
    then have "b64_char n = byte_of (71 + n)" "byte_val (byte_of (71 + n)) = 71 + n" by (simp_all add: b64_char_def byte_val_of)
    with 2 ne [of "71 + n"] show ?thesis by (simp add: b64_val_def Let_def)
  next
    case 3
    then have "b64_char n = byte_of (n - 4)" "byte_val (byte_of (n - 4)) = n - 4" by (simp_all add: b64_char_def byte_val_of)
    moreover have "48 \<le> n - 4 \<and> n - 4 \<le> 57 \<and> n - 4 + 4 = n" using 3 by linarith
    ultimately show ?thesis using ne [of "n - 4"] by (simp add: b64_val_def Let_def)
  qed (simp_all add: b64_char_def b64_val_def)
qed

lemma b64_char_plain:
  assumes "n < 64"
  shows "byte_val (b64_char n) < 128 \<and> quote_ascii (b64_char n) = [b64_char n]"
proof -
  from b64_inverse [OF assms] have v: "b64_val (b64_char n) = Some n" by blast
  then have b: "byte_val (b64_char n) < 128" "32 \<le> byte_val (b64_char n)"
    by (auto simp: b64_val_def Let_def split: if_splits)
  have "b64_char n \<noteq> c" if "b64_val c = None" for c using v that by auto
  then have "b64_char n \<noteq> quote_char" "b64_char n \<noteq> backslash" "b64_char n \<noteq> CHR ''<''" "b64_char n \<noteq> CHR ''>''"
    "b64_char n \<noteq> CHR ''&''" by (simp_all add: b64_val_def)
  moreover have "b64_char n \<noteq> c" if "byte_val c < 32" for c using b that by auto
  then have "b64_char n \<noteq> CHR 0x08" "b64_char n \<noteq> CHR 0x0C" "b64_char n \<noteq> CHR 0x0A" "b64_char n \<noteq> CHR 0x0D"
    "b64_char n \<noteq> CHR 0x09" by simp_all
  ultimately show ?thesis using b by (simp add: quote_ascii_def)
qed

lemma b64_bounds:
  "byte_val a div 4 < 64" "byte_val a mod 4 * 16 + byte_val b div 16 < 64"
  "byte_val b mod 16 * 4 + byte_val c div 64 < 64" "byte_val c mod 64 < 64"
  "byte_val a mod 4 * 16 < 64" "byte_val b mod 16 * 4 < 64"
  using byte_lt_256 [of a] byte_lt_256 [of b] byte_lt_256 [of c] by linarith+

lemma b64_bytes:
  "byte_of (byte_val a div 4 * 4 + (byte_val a mod 4 * 16 + byte_val b div 16) div 16) = a"
  "byte_of (byte_val a div 4 * 4 + byte_val a mod 4 * 16 div 16) = a"
  "byte_of ((byte_val a mod 4 * 16 + byte_val b div 16) mod 16 * 16 + (byte_val b mod 16 * 4 + byte_val c div 64) div 4) = b"
  "byte_of ((byte_val a mod 4 * 16 + byte_val b div 16) mod 16 * 16 + byte_val b mod 16 * 4 div 4) = b"
  "byte_of ((byte_val b mod 16 * 4 + byte_val c div 64) mod 4 * 64 + byte_val c mod 64) = c"
proof -
  have d: "byte_val b div 16 < 16" "byte_val c div 64 < 4" using byte_lt_256 [of b] byte_lt_256 [of c] by linarith+
  have "byte_val a div 4 * 4 + (byte_val a mod 4 * 16 + byte_val b div 16) div 16 = byte_val a"
    "byte_val a div 4 * 4 + byte_val a mod 4 * 16 div 16 = byte_val a"
    "(byte_val a mod 4 * 16 + byte_val b div 16) mod 16 * 16 + (byte_val b mod 16 * 4 + byte_val c div 64) div 4 = byte_val b"
    "(byte_val a mod 4 * 16 + byte_val b div 16) mod 16 * 16 + byte_val b mod 16 * 4 div 4 = byte_val b"
    "(byte_val b mod 16 * 4 + byte_val c div 64) mod 4 * 64 + byte_val c mod 64 = byte_val c"
    using d by simp_all
  then show "byte_of (byte_val a div 4 * 4 + (byte_val a mod 4 * 16 + byte_val b div 16) div 16) = a"
    "byte_of (byte_val a div 4 * 4 + byte_val a mod 4 * 16 div 16) = a"
    "byte_of ((byte_val a mod 4 * 16 + byte_val b div 16) mod 16 * 16 + (byte_val b mod 16 * 4 + byte_val c div 64) div 4) = b"
    "byte_of ((byte_val a mod 4 * 16 + byte_val b div 16) mod 16 * 16 + byte_val b mod 16 * 4 div 4) = b"
    "byte_of ((byte_val b mod 16 * 4 + byte_val c div 64) mod 4 * 64 + byte_val c mod 64) = c" by simp_all
qed

lemma b64_pad: "b64_val CHR ''='' = None"
  by (simp add: b64_val_def)

lemma b64_group:
  assumes "w < 64" "x < 64" "y < 64" "z < 64"
  shows "b64_groups (b64_char w # b64_char x # b64_char y # b64_char z # r)
      = map_option (\<lambda>q. [byte_of (w * 4 + x div 16), byte_of (x mod 16 * 16 + y div 4), byte_of (y mod 4 * 64 + z)] @ q) (b64_groups r)"
  using assms [THEN b64_inverse] by (cases "b64_groups r") simp_all

lemma b64_group_two:
  assumes "w < 64" "x < 64" "y < 64"
  shows "b64_groups [b64_char w, b64_char x, b64_char y, CHR ''='']
      = Some [byte_of (w * 4 + x div 16), byte_of (x mod 16 * 16 + y div 4)]"
  using assms [THEN b64_inverse] by simp

lemma b64_group_one:
  assumes "w < 64" "x < 64"
  shows "b64_groups [b64_char w, b64_char x, CHR ''='', CHR ''=''] = Some [byte_of (w * 4 + x div 16)]"
  using assms [THEN b64_inverse] by simp

lemma b64_round: "b64_groups (base64_encode s) = Some s"
proof (induction s rule: base64_encode.induct)
  case (1 a b c r)
  then show ?case
    by (simp only: base64_encode.simps Let_def append.simps b64_group [OF b64_bounds(1) b64_bounds(2) b64_bounds(3) b64_bounds(4)]
        b64_bytes option.map)
next
  case (2 a b)
  show ?case by (simp only: base64_encode.simps Let_def b64_group_two [OF b64_bounds(1) b64_bounds(2) b64_bounds(6)] b64_bytes)
next
  case (3 a)
  show ?case by (simp only: base64_encode.simps Let_def b64_group_one [OF b64_bounds(1) b64_bounds(5)] b64_bytes)
qed simp

definition b64_text :: "char \<Rightarrow> bool" where
  "b64_text c \<longleftrightarrow> 32 \<le> byte_val c \<and> byte_val c < 128 \<and> quote_ascii c = [c]"

lemma b64_chars: "\<forall>c \<in> set (base64_encode s). b64_text c"
proof -
  have p: "b64_text CHR ''=''" by (simp add: b64_text_def quote_ascii_def)
  have n: "b64_text (b64_char n)" if "n < 64" for n
    using b64_inverse [OF that] b64_char_plain [OF that] by (simp add: b64_text_def)
  show ?thesis by (induction s rule: base64_encode.induct) (simp_all add: Let_def p n b64_bounds)
qed

lemma base64_round_trip: "base64_decode (base64_encode s) = Some s"
proof -
  have "filter (\<lambda>c. c \<noteq> CHR 0x0A \<and> c \<noteq> CHR 0x0D) (base64_encode s) = base64_encode s"
    using b64_chars [of s] by (intro filter_True) (auto simp: b64_text_def)
  then show ?thesis by (simp add: base64_decode_def b64_round)
qed

lemma base64_quoted: "quote_json (base64_encode b) = quote_char # base64_encode b @ [quote_char]"
  using b64_chars by (intro quote_plain) (auto simp: b64_text_def)

lemma base64_valid: "valid_string (base64_encode b)"
  using b64_chars by (intro valid_string_ascii) (auto simp: ascii_def b64_text_def)

lemma bytes_setter_printed: "bytes_setter cur (quote_json (base64_encode b)) = Inr (Some b)"
  using printed_whole [OF printed_string [OF base64_valid]] by (simp add: bytes_setter_def base64_round_trip)

subsection \<open>Pointers, acceptances and failures\<close>

lemma pointer_printed:
  "printed d raw v \<Longrightarrow> v \<noteq> JNull \<Longrightarrow> st zero raw = Inr x \<Longrightarrow> pointer_setter zero st None raw = Inr (Some x)"
  by (simp add: pointer_setter_def printed_whole)

lemma ascii_record_names:
  "ascii ''Transaction''" "ascii ''Fingerprint''" "ascii ''Event''" "ascii ''EventID''" "ascii ''ClaimToken''"
  "ascii ''Attempts''" "ascii ''RetryAt''" "ascii ''Terminal''" "ascii ''Reason''" "ascii ''kind''"
  "ascii ''acceptance''" "ascii ''failure''" "ascii ''eventId''" "ascii ''recordedAt''" "ascii ''locationRaw''"
  "ascii ''metadataRaw''"
  by (simp_all add: ascii_def)

lemmas valid_record_names [simp] = ascii_record_names [THEN valid_string_ascii]

definition storable_acceptance :: "nat \<Rightarrow> acceptance \<Rightarrow> bool" where
  "storable_acceptance d a \<longleftrightarrow>
     storable_transaction (d + 2) (acc_transaction a) \<and> valid_string (acc_fingerprint a) \<and> storable_event (d + 1) (acc_event a)"

definition stored_acceptance :: "acceptance \<Rightarrow> acceptance" where
  "stored_acceptance a =
     a\<lparr>acc_transaction := kept_transaction (acc_transaction a), acc_event := kept_event (acc_event a)\<rparr>"

lemma acceptance_find:
  "\<exists>fs. acceptance_setter = struct_setter fs
     \<and> find_field fs ''Transaction'' = Some (field_of acc_transaction acc_transaction_update transaction_setter)
     \<and> find_field fs ''Fingerprint'' = Some (field_of acc_fingerprint acc_fingerprint_update string_setter)
     \<and> find_field fs ''Event'' = Some (field_of acc_event acc_event_update event_setter)"
  unfolding acceptance_setter_def by (rule exI, rule conjI, rule refl) (simp add: find_field_def)

lemma acceptance_round_trip:
  assumes "storable_acceptance d a" "d + 3 < max_depth"
  shows "\<exists>raw m. marshal_acceptance a = Inr raw \<and> printed d raw (JObject m) \<and> line_text raw
           \<and> acceptance_setter empty_acceptance raw = Inr (stored_acceptance a)"
proof -
  from assms(1) have t: "storable_transaction (d + 2) (acc_transaction a)" and fp: "valid_string (acc_fingerprint a)"
    and ev: "storable_event (d + 1) (acc_event a)" by (simp_all add: storable_acceptance_def)
  from transaction_round_trip [OF t] assms(2) obtain tr v where
    t: "marshal_transaction (acc_transaction a) = Inr tr" "printed (d + 1) tr v" "line_text tr"
      "transaction_setter empty_transaction tr = Inr (kept_transaction (acc_transaction a))" by auto
  from event_round_trip [OF ev] assms(2) obtain er w where
    ev: "marshal_event (acc_event a) = Inr er" "printed (d + 1) er w" "line_text er"
      "event_setter empty_event er = Inr (kept_event (acc_event a))" by auto
  let ?fs = "[(''Transaction'', Some (tr, v)), (''Fingerprint'', Some (with_text (acc_fingerprint a))), (''Event'', Some (er, w))]"
  have fits: "printed_fields (Suc d) ?fs" "present_members ?fs \<noteq> []" "line_fields ?fs"
    using t(2,3) ev(2,3) fp by (simp_all add: printed_string)
  have "marshal_acceptance a = Inr (marshal_struct (texts ?fs))" by (simp add: marshal_acceptance_def t(1) ev(1))
  moreover have "printed d (marshal_struct (texts ?fs)) (JObject (obj_of (values_of (present_members ?fs))))"
    using fits assms(2) by (intro printed_struct) simp_all
  moreover have "acceptance_setter empty_acceptance (marshal_struct (texts ?fs)) = Inr (stored_acceptance a)"
  proof -
    obtain fs where fs: "acceptance_setter = struct_setter fs"
      "find_field fs ''Transaction'' = Some (field_of acc_transaction acc_transaction_update transaction_setter)"
      "find_field fs ''Fingerprint'' = Some (field_of acc_fingerprint acc_fingerprint_update string_setter)"
      "find_field fs ''Event'' = Some (field_of acc_event acc_event_update event_setter)"
      using acceptance_find by blast
    have "acceptance_setter empty_acceptance (marshal_struct (texts ?fs)) = set_members fs (present (texts ?fs)) empty_acceptance"
      unfolding fs(1) by (rule struct_setter_texts [OF printed_fields_less [OF fits(1)] fits(2)]) simp
    also have "\<dots> = Inr (stored_acceptance a)"
      unfolding fields_simps option.map with_text_simps fst_conv
      by (simp add: set_field [OF fs(2)] set_field [OF fs(3)] set_field [OF fs(4)] field_of_def
          string_setter_printed [OF fp] t(4) ev(4) empty_acceptance_def stored_acceptance_def del: present_simps(2,3))
    finally show ?thesis .
  qed
  ultimately show ?thesis using line_struct [OF fits(3)] by blast
qed

definition storable_failure :: "publish_failure \<Rightarrow> bool" where
  "storable_failure f \<longleftrightarrow>
     valid_string (pf_event_id f) \<and> valid_string (pf_claim_token f) \<and> valid_string (pf_reason f)
     \<and> - (2 ^ 63) \<le> pf_attempts f \<and> pf_attempts f < 2 ^ 63 \<and> printable_time (pf_retry_at f)"

lemma failure_find:
  "\<exists>fs. failure_setter = struct_setter fs
     \<and> find_field fs ''EventID'' = Some (field_of pf_event_id pf_event_id_update string_setter)
     \<and> find_field fs ''ClaimToken'' = Some (field_of pf_claim_token pf_claim_token_update string_setter)
     \<and> find_field fs ''Attempts'' = Some (field_of pf_attempts pf_attempts_update int_setter)
     \<and> find_field fs ''RetryAt'' = Some (field_of pf_retry_at pf_retry_at_update time_setter)
     \<and> find_field fs ''Terminal'' = Some (field_of pf_terminal pf_terminal_update bool_setter)
     \<and> find_field fs ''Reason'' = Some (field_of pf_reason pf_reason_update string_setter)"
  unfolding failure_setter_def by (rule exI, rule conjI, rule refl) (simp add: find_field_def)

lemma failure_round_trip:
  assumes "storable_failure f" "d < max_depth"
  shows "\<exists>raw m. marshal_failure f = Inr raw \<and> printed d raw (JObject m) \<and> line_text raw
           \<and> failure_setter empty_failure raw = Inr f"
proof -
  from assms(1) have s: "valid_string (pf_event_id f)" "valid_string (pf_claim_token f)" "valid_string (pf_reason f)"
    "- (2 ^ 63) \<le> pf_attempts f" "pf_attempts f < 2 ^ 63" and t: "printable_time (pf_retry_at f)"
    unfolding storable_failure_def by blast+
  let ?b = "if pf_terminal f then ''true'' else ''false''"
  let ?fs = "[(''EventID'', Some (with_text (pf_event_id f))), (''ClaimToken'', Some (with_text (pf_claim_token f))),
      (''Attempts'', Some (itoa_int (pf_attempts f), JNumber (itoa_int (pf_attempts f)))),
      (''RetryAt'', Some (with_text (format_rfc3339nano (pf_retry_at f)))),
      (''Terminal'', Some (?b, JBool (pf_terminal f))), (''Reason'', Some (with_text (pf_reason f)))]"
  have b: "printed d' ?b (JBool (pf_terminal f))" for d' using printed_marshal [of "JBool (pf_terminal f)" d'] by auto
  have fits: "printed_fields (Suc d) ?fs" "present_members ?fs \<noteq> []" "line_fields ?fs"
    using s b by (simp_all add: printed_string printed_int printed_time [OF t] line_itoa)
  have "marshal_failure f = Inr (marshal_struct (texts ?fs))" by (simp add: marshal_failure_def marshal_printable [OF t])
  moreover have "printed d (marshal_struct (texts ?fs)) (JObject (obj_of (values_of (present_members ?fs))))"
    using fits assms(2) by (intro printed_struct) simp_all
  moreover have "failure_setter empty_failure (marshal_struct (texts ?fs)) = Inr f"
  proof -
    obtain fs where fs: "failure_setter = struct_setter fs"
      "find_field fs ''EventID'' = Some (field_of pf_event_id pf_event_id_update string_setter)"
      "find_field fs ''ClaimToken'' = Some (field_of pf_claim_token pf_claim_token_update string_setter)"
      "find_field fs ''Attempts'' = Some (field_of pf_attempts pf_attempts_update int_setter)"
      "find_field fs ''RetryAt'' = Some (field_of pf_retry_at pf_retry_at_update time_setter)"
      "find_field fs ''Terminal'' = Some (field_of pf_terminal pf_terminal_update bool_setter)"
      "find_field fs ''Reason'' = Some (field_of pf_reason pf_reason_update string_setter)"
      using failure_find by blast
    have "failure_setter empty_failure (marshal_struct (texts ?fs)) = set_members fs (present (texts ?fs)) empty_failure"
      unfolding fs(1) by (rule struct_setter_texts [OF printed_fields_less [OF fits(1)] fits(2)]) simp
    also have "\<dots> = Inr f"
      unfolding fields_simps option.map with_text_simps fst_conv
      using s
      by (simp add: set_field [OF fs(2)] set_field [OF fs(3)] set_field [OF fs(4)] set_field [OF fs(5)] set_field [OF fs(6)]
          set_field [OF fs(7)] field_of_def string_setter_printed int_setter_printed time_setter_text [OF t]
          bool_setter_printed empty_failure_def del: present_simps(2,3))
    finally show ?thesis .
  qed
  ultimately show ?thesis using line_struct [OF fits(3)] by blast
qed

subsection \<open>Log records\<close>

definition storable_record :: "log_record \<Rightarrow> bool" where
  "storable_record r \<longleftrightarrow>
     valid_string (lr_kind r) \<and> pred_option (storable_acceptance 1) (lr_acceptance r)
     \<and> pred_option storable_failure (lr_failure r) \<and> valid_string (lr_event_id r) \<and> printable_time (lr_recorded_at r)"

definition stored_record :: "log_record \<Rightarrow> log_record" where
  "stored_record r =
     r\<lparr>lr_acceptance := map_option stored_acceptance (lr_acceptance r),
       lr_location_raw := clone_raw (lr_location_raw r), lr_metadata_raw := clone_raw (lr_metadata_raw r)\<rparr>"

lemma record_find:
  "\<exists>fs. log_record_setter = struct_setter fs
     \<and> find_field fs ''kind'' = Some (field_of lr_kind lr_kind_update string_setter)
     \<and> find_field fs ''acceptance'' =
         Some (field_of lr_acceptance lr_acceptance_update (pointer_setter empty_acceptance acceptance_setter))
     \<and> find_field fs ''failure'' = Some (field_of lr_failure lr_failure_update (pointer_setter empty_failure failure_setter))
     \<and> find_field fs ''eventId'' = Some (field_of lr_event_id lr_event_id_update string_setter)
     \<and> find_field fs ''recordedAt'' = Some (field_of lr_recorded_at lr_recorded_at_update time_setter)
     \<and> find_field fs ''locationRaw'' = Some (field_of lr_location_raw lr_location_raw_update bytes_setter)
     \<and> find_field fs ''metadataRaw'' = Some (field_of lr_metadata_raw lr_metadata_raw_update bytes_setter)"
  unfolding log_record_setter_def by (rule exI, rule conjI, rule refl) (simp add: find_field_def)

text \<open>The texts of the two pointers.\<close>

lemma acceptance_pointer:
  assumes "pred_option (storable_acceptance 1) p"
  shows "\<exists>x. marshal_pointer marshal_acceptance p = Inr (map_option fst x)
     \<and> (\<forall>k fs. valid_string k \<longrightarrow> (printed_fields 1 ((k, x) # fs) \<longleftrightarrow> printed_fields 1 fs) \<and> (line_fields ((k, x) # fs) \<longleftrightarrow> line_fields fs))
     \<and> (\<forall>r :: log_record. lr_acceptance r = None \<longrightarrow>
          set_optional (field_of lr_acceptance lr_acceptance_update (pointer_setter empty_acceptance acceptance_setter)) r (map_option fst x)
          = Inr (r\<lparr>lr_acceptance := map_option stored_acceptance p\<rparr>))"
proof (cases p)
  case None
  have "r\<lparr>lr_acceptance := None\<rparr> = r" if "lr_acceptance r = None" for r :: log_record using that by (cases r) simp
  with None show ?thesis by (intro exI [of _ None]) (simp add: marshal_pointer_def)
next
  case (Some a)
  with assms have "storable_acceptance 1 a" by simp
  from acceptance_round_trip [OF this] obtain raw m where
    r: "marshal_acceptance a = Inr raw" "printed 1 raw (JObject m)" "line_text raw"
      "acceptance_setter empty_acceptance raw = Inr (stored_acceptance a)" by (auto simp: max_depth_def)
  from pointer_printed [where st = acceptance_setter and zero = empty_acceptance, OF r(2) _ r(4)] r Some show ?thesis
    by (intro exI [of _ "Some (raw, JObject m)"]) (simp add: marshal_pointer_def field_of_def)
qed

lemma failure_pointer:
  assumes "pred_option storable_failure p"
  shows "\<exists>x. marshal_pointer marshal_failure p = Inr (map_option fst x)
     \<and> (\<forall>k fs. valid_string k \<longrightarrow> (printed_fields 1 ((k, x) # fs) \<longleftrightarrow> printed_fields 1 fs) \<and> (line_fields ((k, x) # fs) \<longleftrightarrow> line_fields fs))
     \<and> (\<forall>r :: log_record. lr_failure r = None \<longrightarrow>
          set_optional (field_of lr_failure lr_failure_update (pointer_setter empty_failure failure_setter)) r (map_option fst x)
          = Inr (r\<lparr>lr_failure := p\<rparr>))"
proof (cases p)
  case None
  have "r\<lparr>lr_failure := None\<rparr> = r" if "lr_failure r = None" for r :: log_record using that by (cases r) simp
  with None show ?thesis by (intro exI [of _ None]) (simp add: marshal_pointer_def)
next
  case (Some f)
  with assms have "storable_failure f" by simp
  from failure_round_trip [OF this, of 1] obtain raw m where
    r: "marshal_failure f = Inr raw" "printed 1 raw (JObject m)" "line_text raw"
      "failure_setter empty_failure raw = Inr f" by (auto simp: max_depth_def)
  from pointer_printed [where st = failure_setter and zero = empty_failure, OF r(2) _ r(4)] r Some show ?thesis
    by (intro exI [of _ "Some (raw, JObject m)"]) (simp add: marshal_pointer_def field_of_def)
qed

definition bytes_text :: "go_string option \<Rightarrow> (go_string \<times> json) option" where
  "bytes_text r = map_option (\<lambda>b. with_text (base64_encode b)) (clone_raw r)"

lemma printed_base64: "printed d (quote_char # base64_encode b @ [quote_char]) (JString (base64_encode b))"
  using printed_string [OF base64_valid] by (simp add: base64_quoted)

lemma bytes_text_simps:
  "marshal_bytes r = map_option fst (bytes_text r)"
  "valid_string k \<Longrightarrow> printed_fields d ((k, bytes_text r) # fs) \<longleftrightarrow> printed_fields d fs"
  "line_fields ((k, bytes_text r) # fs) \<longleftrightarrow> line_fields fs"
  by (auto simp: bytes_text_def clone_raw_def raw_bytes_def marshal_bytes_def base64_quoted printed_base64
      split: option.split)

lemma set_bytes:
  "lr_location_raw r = None \<Longrightarrow> set_optional (field_of lr_location_raw lr_location_raw_update bytes_setter) r (map_option fst (bytes_text b))
     = Inr (r\<lparr>lr_location_raw := clone_raw b\<rparr>)"
  "lr_metadata_raw r = None \<Longrightarrow> set_optional (field_of lr_metadata_raw lr_metadata_raw_update bytes_setter) r (map_option fst (bytes_text b))
     = Inr (r\<lparr>lr_metadata_raw := clone_raw b\<rparr>)"
  by (cases r; cases "clone_raw b"; simp add: bytes_text_def field_of_def bytes_setter_printed)+

lemma set_event_id:
  assumes "valid_string s" "lr_event_id r = []"
  shows "set_optional (field_of lr_event_id lr_event_id_update string_setter) r (map_option fst (omit_text s))
       = Inr (r\<lparr>lr_event_id := s\<rparr>)"
  using assms string_setter_printed [of s] by (cases r) (simp add: omit_text_def field_of_def)

lemma record_round_trip:
  assumes "storable_record r"
  shows "\<exists>raw. marshal_log_record r = Inr raw \<and> line_text raw \<and> unmarshal_log_record raw = Inr (stored_record r)"
proof -
  from assms have s: "valid_string (lr_kind r)" "valid_string (lr_event_id r)" and t: "printable_time (lr_recorded_at r)"
    and p: "pred_option (storable_acceptance 1) (lr_acceptance r)" "pred_option storable_failure (lr_failure r)"
    unfolding storable_record_def by blast+
  from acceptance_pointer [OF p(1)] obtain x where
    x: "marshal_pointer marshal_acceptance (lr_acceptance r) = Inr (map_option fst x)"
      "\<And>k fs. valid_string k \<Longrightarrow> printed_fields 1 ((k, x) # fs) \<longleftrightarrow> printed_fields 1 fs"
      "\<And>k fs. valid_string k \<Longrightarrow> line_fields ((k, x) # fs) \<longleftrightarrow> line_fields fs"
      "\<And>q :: log_record. lr_acceptance q = None \<Longrightarrow>
          set_optional (field_of lr_acceptance lr_acceptance_update (pointer_setter empty_acceptance acceptance_setter)) q (map_option fst x)
          = Inr (q\<lparr>lr_acceptance := map_option stored_acceptance (lr_acceptance r)\<rparr>)" by blast
  from failure_pointer [OF p(2)] obtain y where
    y: "marshal_pointer marshal_failure (lr_failure r) = Inr (map_option fst y)"
      "\<And>k fs. valid_string k \<Longrightarrow> printed_fields 1 ((k, y) # fs) \<longleftrightarrow> printed_fields 1 fs"
      "\<And>k fs. valid_string k \<Longrightarrow> line_fields ((k, y) # fs) \<longleftrightarrow> line_fields fs"
      "\<And>q :: log_record. lr_failure q = None \<Longrightarrow>
          set_optional (field_of lr_failure lr_failure_update (pointer_setter empty_failure failure_setter)) q (map_option fst y)
          = Inr (q\<lparr>lr_failure := lr_failure r\<rparr>)" by blast
  let ?fs = "[(''kind'', Some (with_text (lr_kind r))), (''acceptance'', x), (''failure'', y),
      (''eventId'', omit_text (lr_event_id r)), (''recordedAt'', Some (with_text (format_rfc3339nano (lr_recorded_at r)))),
      (''locationRaw'', bytes_text (lr_location_raw r)), (''metadataRaw'', bytes_text (lr_metadata_raw r))]"
  have o: "printed_fields 1 ((''eventId'', omit_text (lr_event_id r)) # fs) \<longleftrightarrow> printed_fields 1 fs"
    "line_fields ((''eventId'', omit_text (lr_event_id r)) # fs) \<longleftrightarrow> line_fields fs"
    "marshal_omit_string (lr_event_id r) = map_option fst (omit_text (lr_event_id r))" for fs
    using s(2) by (simp_all add: omit_text_def printed_string marshal_omit_string_def)
  have fits: "printed_fields 1 ?fs" "present_members ?fs \<noteq> []" "line_fields ?fs"
    using s by (simp_all add: x(2,3) y(2,3) o bytes_text_simps printed_string printed_time [OF t] del: fields_simps(3) One_nat_def)
  have "marshal_log_record r = Inr (marshal_struct (texts ?fs))"
    by (simp add: marshal_log_record_def x(1) y(1) o(3) marshal_printable [OF t] bytes_text_simps(1))
  moreover have "unmarshal_log_record (marshal_struct (texts ?fs)) = Inr (stored_record r)"
  proof -
    from record_find obtain fs where fs: "log_record_setter = struct_setter fs"
      "find_field fs ''kind'' = Some (field_of lr_kind lr_kind_update string_setter)"
      "find_field fs ''acceptance'' =
         Some (field_of lr_acceptance lr_acceptance_update (pointer_setter empty_acceptance acceptance_setter))"
      "find_field fs ''failure'' = Some (field_of lr_failure lr_failure_update (pointer_setter empty_failure failure_setter))"
      "find_field fs ''eventId'' = Some (field_of lr_event_id lr_event_id_update string_setter)"
      "find_field fs ''recordedAt'' = Some (field_of lr_recorded_at lr_recorded_at_update time_setter)"
      "find_field fs ''locationRaw'' = Some (field_of lr_location_raw lr_location_raw_update bytes_setter)"
      "find_field fs ''metadataRaw'' = Some (field_of lr_metadata_raw lr_metadata_raw_update bytes_setter)" by blast
    have "unmarshal_log_record (marshal_struct (texts ?fs)) = set_members fs (present (texts ?fs)) empty_log_record"
      unfolding unmarshal_log_record_def fs(1) by (rule struct_setter_texts [OF fits(1,2)])
    also have "\<dots> = Inr (stored_record r)"
      unfolding fields_simps option.map with_text_simps fst_conv
      by (simp add: set_field [OF fs(2)] set_field [OF fs(3)] set_field [OF fs(4)] set_field [OF fs(5)] set_field [OF fs(6)]
          set_field [OF fs(7)] set_field [OF fs(8)] x(4) y(4) set_bytes set_event_id [OF s(2)]
          field_of_def [of lr_kind] field_of_def [of lr_recorded_at] string_setter_printed [OF s(1)] time_setter_text [OF t]
          empty_log_record_def stored_record_def del: present_simps(2,3))
    finally show ?thesis .
  qed
  ultimately show ?thesis using line_struct [OF fits(3)] by blast
qed

end
