(* ===== verification/NdjsonRestart.thy ===== *)
theory NdjsonRestart
  imports RecordRoundTrip NdjsonFacts
begin

text \<open>
  Durability of the append log: after any uses of the store, restarts included, opening its file
  again recovers every identity and every event with its attempts and its outcome. Only what the
  store keeps in memory is gone: the leases and the parsed maps.
\<close>

subsection \<open>The lines of the log\<close>

text \<open>The file is empty or ends with a line break.\<close>

definition whole_lines :: "go_string \<Rightarrow> bool" where
  "whole_lines b \<longleftrightarrow> last (split_on CHR 0x0A b) = []"

lemma split_on_line:
  assumes "c \<notin> set b"
  shows "split_on c (a @ b @ [c]) = butlast (split_on c a) @ [last (split_on c a) @ b, []]"
proof (induction a)
  case Nil
  show ?case using assms by (induction b) auto
next
  case (Cons x a)
  obtain p ps where p: "split_on c a = p # ps" by (cases "split_on c a") auto
  obtain q qs where q: "split_on c (a @ b @ [c]) = q # qs" by (cases "split_on c (a @ b @ [c])") auto
  from Cons p q show ?case by (cases ps) auto
qed

lemma file_lines_append:
  assumes "whole_lines a" "line_text b"
  shows "file_lines (a @ b @ [CHR 0x0A]) = file_lines a @ [b]" "whole_lines (a @ b @ [CHR 0x0A])"
proof -
  have "CHR 0x0A \<notin> set b" using assms(2) by (auto simp: line_text_def)
  from split_on_line [OF this, of a] assms(1)
  have "split_on CHR 0x0A (a @ b @ [CHR 0x0A]) = butlast (split_on CHR 0x0A a) @ [b, []]" by (simp add: whole_lines_def)
  with assms(1) show "file_lines (a @ b @ [CHR 0x0A]) = file_lines a @ [b]" "whole_lines (a @ b @ [CHR 0x0A])"
    by (simp_all add: file_lines_def whole_lines_def Let_def butlast_append)
qed

lemma strip_line: "line_text b \<Longrightarrow> strip_cr b = b"
  by (cases b rule: rev_cases) (auto simp: strip_cr_def)

subsection \<open>Replay\<close>

lemma nd_apply_base:
  assumes "nd_apply r s = (e, s1)" "nd_mem s' = nd_mem s"
  shows "\<exists>s1'. nd_apply r s' = (e, s1') \<and> nd_mem s1' = nd_mem s1"
  using assms by (auto simp: nd_apply_def nd_apply_accepted_def nd_mem_def Let_def split: option.splits if_splits)

lemma nd_load_base:
  "nd_load err n ls s = Inr s0 \<Longrightarrow> nd_mem s' = nd_mem s \<Longrightarrow> \<exists>s0'. nd_load err n ls s' = Inr s0' \<and> nd_mem s0' = nd_mem s0"
proof (induction err n ls s arbitrary: s' rule: nd_load.induct)
  case (2 err n l ls s)
  from "2.prems"(1) obtain r s1 where r: "\<not> max_line \<le> length l" "unmarshal_log_record (strip_cr l) = Inr r"
    "nd_apply r s = (None, s1)" "nd_load err (n + 1) ls s1 = Inr s0"
    by (auto split: if_splits sum.splits prod.splits option.splits)
  from nd_apply_base [OF r(3) "2.prems"(2)] obtain s1' where a: "nd_apply r s' = (None, s1')" "nd_mem s1' = nd_mem s1" by blast
  from "2.IH" [OF r(1,2) r(3) [symmetric] refl r(4) a(2)] r a(1) show ?case by simp
qed (auto split: option.splits)

lemma nd_load_snoc:
  "nd_load None n (ls @ [l]) s =
     and_then (nd_load None n ls s) (\<lambda>s1. nd_load None (n + length ls) [l] s1)"
  by (induction ls arbitrary: n s) (auto split: sum.splits prod.splits option.splits)

lemma nd_load_line:
  assumes "length b < max_line" "strip_cr b = b" "unmarshal_log_record b = Inr r" "nd_apply r s = (None, s')"
  shows "nd_load None n [b] s = Inr s'"
  using assms by simp

lemma nd_load_frame: "nd_load err n ls s = Inr s' \<Longrightarrow> nd_path s' = nd_path s \<and> nd_file s' = nd_file s \<and> nd_io s' = nd_io s"
proof (induction err n ls s rule: nd_load.induct)
  case (2 err n l ls s)
  from "2.prems"(1) obtain r s1 where r: "\<not> max_line \<le> length l" "unmarshal_log_record (strip_cr l) = Inr r"
    "nd_apply r s = (None, s1)" "nd_load err (n + 1) ls s1 = Inr s'"
    by (auto split: if_splits sum.splits prod.splits option.splits)
  from "2.IH" [OF r(1,2) r(3) [symmetric] refl r(4)] r(3) show ?case
    by (auto simp: nd_apply_def nd_apply_accepted_def Let_def split: option.splits if_splits)
qed (auto split: option.splits)

subsection \<open>What is recovered\<close>

definition recovered :: "stored_event \<Rightarrow> stored_event" where
  "recovered e = e\<lparr>se_event := durable_event (se_event e), se_lease_until := zero_time, se_claim_token := []\<rparr>"

definition recovers :: "nd_store \<Rightarrow> nd_store \<Rightarrow> bool" where
  "recovers s0 s \<longleftrightarrow> nd_transactions s0 = nd_transactions s \<and> nd_events s0 = fmmap recovered (nd_events s)"

lemma clone_raw_idem [simp]: "clone_raw (clone_raw r) = clone_raw r"
  by (cases r) (simp_all add: clone_raw_def raw_bytes_def)

lemma recovered_idem [simp]: "recovered (recovered e) = recovered e"
  by (simp add: recovered_def durable_event_def without_maps_def)

lemma recovered_map: "fmmap recovered (fmmap recovered m) = fmmap recovered m"
  by (rule fmap_ext) (simp add: option.map_comp comp_def)

lemma apply_published:
  assumes "recovers s0 s" "nd_apply (published_record eid at) s = (None, s')"
  shows "\<exists>s0'. nd_apply (stored_record (published_record eid at)) s0 = (None, s0') \<and> recovers s0' s'"
proof -
  from assms(2) obtain e where e: "fmlookup (nd_events s) eid = Some e"
    "s' = s\<lparr>nd_events := fmupd eid (e\<lparr>se_published := True, se_lease_until := zero_time, se_claim_token := []\<rparr>) (nd_events s)\<rparr>"
    by (auto simp: nd_apply_def published_record_def empty_log_record_def split: option.splits)
  with assms(1) show ?thesis
    by (cases e) (simp add: nd_apply_def stored_record_def published_record_def empty_log_record_def recovers_def recovered_def fmmap_fmupd)
qed

lemma apply_failed:
  assumes "recovers s0 s" "nd_apply (failed_record f) s = (None, s')"
  shows "\<exists>s0'. nd_apply (stored_record (failed_record f)) s0 = (None, s0') \<and> recovers s0' s'"
proof -
  from assms(2) obtain e where e: "fmlookup (nd_events s) (pf_event_id f) = Some e"
    "s' = s\<lparr>nd_events := fmupd (pf_event_id f)
       (e\<lparr>se_attempts := pf_attempts f, se_retry_at := pf_retry_at f, se_terminal := pf_terminal f,
          se_lease_until := zero_time, se_claim_token := []\<rparr>) (nd_events s)\<rparr>"
    by (auto simp: nd_apply_def failed_record_def empty_log_record_def split: option.splits)
  with assms(1) show ?thesis
    by (cases e) (simp add: nd_apply_def stored_record_def failed_record_def empty_log_record_def recovers_def recovered_def fmmap_fmupd)
qed

lemma restored_bytes: "(if clone_raw r \<noteq> None then clone_raw r else compacted r) = clone_raw r"
  by (cases r) (auto simp: clone_raw_def raw_bytes_def compacted_def)

lemma restored_transaction:
  "restore_raw (stored_record (accepted_record a)) (kept_transaction (acc_transaction a)) = without_maps (acc_transaction a)"
proof -
  let ?t = "acc_transaction a" and ?r = "stored_record (accepted_record a)"
  have raws: "lr_location_raw ?r = clone_raw (tx_location_raw ?t)" "lr_metadata_raw ?r = clone_raw (tx_metadata_raw ?t)"
    by (simp_all add: stored_record_def accepted_record_def)
  have "restore_raw ?r (kept_transaction ?t) = (kept_transaction ?t)
      \<lparr>tx_location_raw := (if clone_raw (tx_location_raw ?t) \<noteq> None then clone_raw (tx_location_raw ?t) else compacted (tx_location_raw ?t)),
       tx_metadata_raw := (if clone_raw (tx_metadata_raw ?t) \<noteq> None then clone_raw (tx_metadata_raw ?t) else compacted (tx_metadata_raw ?t))\<rparr>"
    unfolding restore_raw_def Let_def raws clone_raw_idem by (simp add: kept_transaction_def)
  then show ?thesis unfolding restored_bytes by (simp add: kept_transaction_def without_maps_def)
qed

lemma apply_accepted:
  assumes "recovers s0 s" "acc_coherent a" "nd_apply (accepted_record a) s = (None, s')"
  shows "\<exists>s0'. nd_apply (stored_record (accepted_record a)) s0 = (None, s0') \<and> recovers s0' s'"
proof -
  have s': "nd_transactions s' = fmupd (mem_key (acc_transaction a))
       \<lparr>st_fingerprint = acc_fingerprint a, st_transaction_id = tx_id (acc_transaction a), st_event_id = ev_id (acc_event a)\<rparr>
       (nd_transactions s)"
    "nd_events s' = fmupd (ev_id (acc_event a)) (fresh_stored_event (acc_event a)) (nd_events s)"
    using assms(3) unfolding nd_apply_accepted_record [OF assms(2)] by auto
  let ?r = "stored_record (accepted_record a)"
  let ?ev = "(kept_event (acc_event a))\<lparr>ev_payload := restore_raw ?r (ev_payload (kept_event (acc_event a)))\<rparr>"
  have "nd_apply ?r s0 = (None, nd_apply_accepted ?r (stored_acceptance a) s0)"
    by (simp add: nd_apply_def stored_record_def accepted_record_def empty_log_record_def)
  moreover have "?ev = durable_event (acc_event a)"
    using assms(2) restored_transaction [of a] by (simp add: kept_event_def durable_event_def acc_coherent_def)
  moreover have "recovered (fresh_stored_event ev) = fresh_stored_event (durable_event ev)" for ev
    by (simp add: recovered_def fresh_stored_event_def)
  ultimately show ?thesis
    using assms(1) s'
    by (simp add: nd_apply_accepted_def stored_acceptance_def restored_transaction Let_def recovers_def mem_key_def
        without_maps_def fmmap_fmupd) (simp add: durable_event_def)
qed

subsection \<open>Appending\<close>

text \<open>Writes and syncs do not fail; opening and \<open>Chmod\<close> may.\<close>

definition reliable_io :: "(nat \<Rightarrow> append_io) \<Rightarrow> bool" where
  "reliable_io io \<longleftrightarrow> (\<forall>n. ai_write (io n) = None \<and> ai_sync (io n) = None)"

definition nd_bytes :: "nd_store \<Rightarrow> go_string" where
  "nd_bytes s = (case nd_file s of None \<Rightarrow> [] | Some b \<Rightarrow> b)"

text \<open>The record can be written, and its line is short enough for the scanner.\<close>

definition loggable :: "log_record \<Rightarrow> bool" where
  "loggable r \<longleftrightarrow> storable_record r
     \<and> (case marshal_log_record r of Inl e \<Rightarrow> False | Inr b \<Rightarrow> length b < max_line)"

definition same_log :: "nd_store \<Rightarrow> nd_store \<Rightarrow> bool" where
  "same_log s s' \<longleftrightarrow> nd_bytes s' = nd_bytes s \<and> nd_path s' = nd_path s \<and> nd_io s' = nd_io s"

lemma nd_append_reliable:
  assumes "nd_append r s = (e, s')" "reliable_io (nd_io s)" "marshal_log_record r = Inr b"
  shows "nd_mem s' = nd_mem s \<and> nd_path s' = nd_path s \<and> nd_io s' = nd_io s
     \<and> nd_bytes s' = (if e = None then nd_bytes s @ b @ [CHR 0x0A] else nd_bytes s)"
  using assms
  by (auto simp: nd_append_def reliable_io_def Let_def nd_bytes_def nd_mem_def split: option.splits)

lemma nd_apply_same_log: "nd_apply r s = (e, s') \<Longrightarrow> same_log s s'"
  by (auto simp: nd_apply_def nd_apply_accepted_def same_log_def nd_bytes_def Let_def split: option.splits if_splits)

subsection \<open>The log and the maps\<close>

definition replayed :: "go_string \<Rightarrow> nd_store \<Rightarrow> bool" where
  "replayed b s \<longleftrightarrow> (\<exists>s0. nd_load None 1 (file_lines b) (nd_empty_store [] None (nd_io s)) = Inr s0 \<and> recovers s0 s)"

definition recoverable :: "nd_store \<Rightarrow> bool" where
  "recoverable s \<longleftrightarrow> reliable_io (nd_io s) \<and> whole_lines (nd_bytes s) \<and> replayed (nd_bytes s) s"

lemma recovers_mem: "nd_mem s' = nd_mem s \<Longrightarrow> recovers s0 s' = recovers s0 s"
  by (simp add: recovers_def nd_mem_def)

lemma recoverable_same:
  assumes "recoverable s" "same_log s s'" "\<And>s0. recovers s0 s \<Longrightarrow> recovers s0 s'"
  shows "recoverable s'"
  using assms unfolding recoverable_def same_log_def replayed_def by force

text \<open>The records of the operations; each applies to the recovered maps as it does to the maps.\<close>

definition op_record :: "log_record \<Rightarrow> bool" where
  "op_record r \<longleftrightarrow> (\<exists>a. acc_coherent a \<and> r = accepted_record a) \<or> (\<exists>eid at. r = published_record eid at) \<or> (\<exists>f. r = failed_record f)"

lemma apply_op:
  assumes "op_record r" "recovers s0 s" "nd_apply r s = (None, s')"
  shows "\<exists>s0'. nd_apply (stored_record r) s0 = (None, s0') \<and> recovers s0' s'"
  using assms apply_accepted apply_published apply_failed unfolding op_record_def by blast

text \<open>A log that is longer by the line of a record replays to the maps with the record applied.\<close>

lemma replay_line:
  assumes "replayed old s" "whole_lines old" "loggable r" "op_record r" "marshal_log_record r = Inr b"
    and "nd_mem s1 = nd_mem s" "nd_apply r s1 = (None, s')" "nd_io s' = nd_io s"
  shows "replayed (old @ b @ [CHR 0x0A]) s'" "whole_lines (old @ b @ [CHR 0x0A])"
proof -
  from assms(3) have st: "storable_record r" by (simp add: loggable_def)
  from record_round_trip [OF st] assms(5) have b: "line_text b" "unmarshal_log_record b = Inr (stored_record r)" by auto
  from assms(3,5) have short: "length b < max_line" by (simp add: loggable_def)
  from assms(1) obtain s0 where s0: "nd_load None 1 (file_lines old) (nd_empty_store [] None (nd_io s)) = Inr s0"
    "recovers s0 s1" using recovers_mem [OF assms(6)] unfolding replayed_def by blast
  from apply_op [OF assms(4) s0(2) assms(7)] obtain s0' where
    s0': "nd_apply (stored_record r) s0 = (None, s0')" "recovers s0' s'" by blast
  have "nd_load None 1 (file_lines (old @ b @ [CHR 0x0A])) (nd_empty_store [] None (nd_io s')) = Inr s0'"
    unfolding assms(8) file_lines_append(1) [OF assms(2) b(1)]
    using s0(1) nd_load_line [OF short strip_line [OF b(1)] b(2) s0'(1)] by (simp add: nd_load_snoc del: nd_load.simps)
  with s0'(2) show "replayed (old @ b @ [CHR 0x0A]) s'" by (auto simp: replayed_def)
  show "whole_lines (old @ b @ [CHR 0x0A])" by (rule file_lines_append(2) [OF assms(2) b(1)])
qed

lemma commit_recoverable:
  assumes "recoverable s" "loggable r" "op_record r" "nd_commit r s = (e, s')" "\<And>s1. nd_mem s1 = nd_mem s \<Longrightarrow> fst (nd_apply r s1) = None"
  shows "recoverable s'"
proof -
  from assms(2) obtain b where b: "marshal_log_record r = Inr b" by (auto simp: loggable_def split: sum.splits)
  from assms(1) have io: "reliable_io (nd_io s)" and whole: "whole_lines (nd_bytes s)" and rep: "replayed (nd_bytes s) s"
    by (simp_all add: recoverable_def)
  obtain e1 s1 where a: "nd_append r s = (e1, s1)" by fastforce
  note frame = nd_append_reliable [OF a io b]
  show ?thesis
  proof (cases e1)
    case (Some x)
    with a assms(4) have "s' = s1" by (simp add: nd_commit_def)
    with frame Some show ?thesis using assms(1)
      by (intro recoverable_same [OF assms(1)]) (auto simp: same_log_def recovers_mem [of s1 s])
  next
    case None
    with a assms(4,5) frame have ap: "nd_apply r s1 = (None, s')" by (metis (no_types) fst_conv nd_commit_def option.case(1) prod.case)
    from nd_apply_same_log [OF ap] frame None
    have log: "nd_bytes s' = nd_bytes s @ b @ [CHR 0x0A]" "nd_io s' = nd_io s" by (simp_all add: same_log_def)
    from replay_line [OF rep whole assms(2,3) b _ ap log(2)] frame io log show ?thesis by (simp add: recoverable_def)
  qed
qed

subsection \<open>Uses of the store\<close>

lemma nd_mark_record:
  assumes "nd_mark ctx eid tok at s = (e, s')"
  shows "s' = s \<or> nd_commit (published_record eid at) s = (e, s') \<and> eid |\<in>| fmdom (nd_events s)"
  using assms by (auto simp: nd_mark_def fmlookup_dom_iff split: option.splits if_splits)

lemma nd_fail_record:
  assumes "nd_record_failure ctx f s = (e, s')"
  shows "s' = s \<or> nd_commit (failed_record f) s = (e, s') \<and> pf_event_id f |\<in>| fmdom (nd_events s)"
  using assms by (auto simp: nd_record_failure_def fmlookup_dom_iff split: option.splits if_splits)

lemma nd_claim_same_log: "nd_claim ctx tokens now lease limit s = (out, s') \<Longrightarrow> same_log s s'"
  by (auto simp: nd_claim_def same_log_def nd_bytes_def split: option.splits if_splits prod.splits)

lemma recovered_update:
  assumes "fmlookup m k = Some x" "recovered y = recovered x"
  shows "fmmap recovered (fmupd k y m) = fmmap recovered m"
  by (rule fmap_ext) (use assms in auto)

lemma claim_loop_recovered:
  "fmmap recovered (snd (mem_claim_loop tokens now lease limit ids claimed evs)) = fmmap recovered evs"
proof (induction tokens now lease limit ids claimed evs rule: mem_claim_loop.induct)
  case (2 tokens now lease limit eid ids claimed evs)
  have same: "recovered (mem_lease now lease tok r) = recovered r" for tok r
    by (simp add: recovered_def mem_lease_def)
  from 2 show ?case by (auto simp: Let_def recovered_update [OF _ same] split: option.split)
qed simp

lemma nd_claim_recovers:
  assumes "nd_claim ctx tokens now lease limit s = (out, s')" "recovers s0 s"
  shows "recovers s0 s'"
proof -
  have "nd_transactions s' = nd_transactions s" using nd_claim_idents assms(1) .
  moreover have "fmmap recovered (nd_events s') = fmmap recovered (nd_events s)"
    using assms(1) claim_loop_recovered by (auto simp: nd_claim_def split: option.splits if_splits prod.splits) (metis snd_conv)
  ultimately show ?thesis using assms(2) by (simp add: recovers_def)
qed

text \<open>
  What can happen to a store: the operations with data that can be written, whether they succeed or
  not, and a restart of the process, which opens the file again.
\<close>

inductive nd_use :: "nd_store \<Rightarrow> nd_store \<Rightarrow> bool" where
  use_accept: "acc_coherent a \<Longrightarrow> loggable (accepted_record a) \<Longrightarrow> nd_accept ctx a s = (out, s') \<Longrightarrow> nd_use s s'"
| use_claim: "nd_claim ctx tokens now lease limit s = (claimed, s') \<Longrightarrow> nd_use s s'"
| use_mark: "loggable (published_record eid at) \<Longrightarrow> nd_mark ctx eid tok at s = (e, s') \<Longrightarrow> nd_use s s'"
| use_fail: "loggable (failed_record f) \<Longrightarrow> nd_record_failure ctx f s = (e, s') \<Longrightarrow> nd_use s s'"
| use_restart: "reliable_io io \<Longrightarrow> nd_new_store (nd_path s) (nd_file s) None None io = Inr s' \<Longrightarrow> nd_use s s'"

text \<open>Opening the file of a recoverable store.\<close>

lemma reopen:
  assumes "recoverable s" "nd_path s \<noteq> []"
  shows "\<exists>s'. nd_new_store (nd_path s) (nd_file s) None None io = Inr s' \<and> recovers s' s
     \<and> nd_path s' = nd_path s \<and> nd_file s' = nd_file s \<and> nd_io s' = io"
proof -
  let ?base = "nd_empty_store (nd_path s) (nd_file s) io"
  from assms(1) obtain s0 where s0: "nd_load None 1 (file_lines (nd_bytes s)) (nd_empty_store [] None (nd_io s)) = Inr s0"
    "recovers s0 s" by (auto simp: recoverable_def replayed_def)
  have "nd_mem ?base = nd_mem (nd_empty_store [] None (nd_io s))" by (simp add: nd_mem_def nd_empty_store_def)
  from nd_load_base [OF s0(1) this] obtain s' where s': "nd_load None 1 (file_lines (nd_bytes s)) ?base = Inr s'"
    "nd_mem s' = nd_mem s0" by blast
  have "recovers s' s" using s0(2) s'(2) by (simp add: recovers_def nd_mem_def)
  moreover have "nd_new_store (nd_path s) (nd_file s) None None io = Inr s'"
    using s'(1) assms(2) by (cases "nd_file s") (simp_all add: nd_new_store_def Let_def nd_bytes_def file_lines_def)
  moreover have "nd_path s' = nd_path s" "nd_file s' = nd_file s" "nd_io s' = io"
    using nd_load_frame [OF s'(1)] by (simp_all add: nd_empty_store_def)
  ultimately show ?thesis by blast
qed

lemma reopened_recoverable:
  assumes "recoverable s" "nd_path s \<noteq> []" "reliable_io io" "nd_new_store (nd_path s) (nd_file s) None None io = Inr s'"
  shows "recoverable s'"
proof -
  from reopen [OF assms(1,2), of io] assms(4) have s': "recovers s' s" "nd_file s' = nd_file s" "nd_io s' = io" by auto
  from assms(1) obtain s0 where s0: "nd_load None 1 (file_lines (nd_bytes s)) (nd_empty_store [] None (nd_io s)) = Inr s0"
    "recovers s0 s" by (auto simp: recoverable_def replayed_def)
  have "nd_mem (nd_empty_store [] None io) = nd_mem (nd_empty_store [] None (nd_io s))" by (simp add: nd_mem_def nd_empty_store_def)
  from nd_load_base [OF s0(1) this] obtain s1 where s1: "nd_load None 1 (file_lines (nd_bytes s)) (nd_empty_store [] None io) = Inr s1"
    "nd_mem s1 = nd_mem s0" by blast
  have "recovers s1 s'" using s0(2) s1(2) s'(1) by (simp add: recovers_def nd_mem_def recovered_map)
  with s1(1) s'(2,3) assms(1,3) show ?thesis by (auto simp: recoverable_def replayed_def nd_bytes_def)
qed

lemma nd_append_path: "nd_append r s = (e, s') \<Longrightarrow> nd_path s' = nd_path s"
  by (auto simp: nd_append_def Let_def split: option.splits sum.splits prod.splits)

lemma nd_commit_path: "nd_commit r s = (e, s') \<Longrightarrow> nd_path s' = nd_path s"
  by (auto simp: nd_commit_def same_log_def dest!: nd_append_path nd_apply_same_log split: prod.splits option.splits)

lemma use_recoverable:
  assumes "nd_use s s'" "recoverable s" "nd_path s \<noteq> []"
  shows "recoverable s' \<and> nd_path s' = nd_path s"
  using assms(1)
proof cases
  case (use_accept a ctx out)
  have r: "op_record (accepted_record a)" "\<And>s1. fst (nd_apply (accepted_record a) s1) = None"
    using use_accept(1) by (auto simp: op_record_def nd_apply_accepted_record)
  from use_accept(3) show ?thesis
  proof (cases rule: nd_accept_cases)
    case (3 e)
    with commit_recoverable [OF assms(2) use_accept(2) r(1) 3(4) r(2)] nd_commit_path show ?thesis by blast
  next
    case 4
    with commit_recoverable [OF assms(2) use_accept(2) r(1) 4(4) r(2)] nd_commit_path show ?thesis by blast
  qed (use assms(2) in auto)
next
  case (use_claim ctx tokens now lease limit claimed)
  from recoverable_same [OF assms(2) nd_claim_same_log [OF this] nd_claim_recovers [OF this]] nd_claim_same_log [OF this]
  show ?thesis by (simp add: same_log_def)
next
  case (use_mark eid at ctx tok e)
  have "fst (nd_apply (published_record eid at) s1) = None" if "nd_mem s1 = nd_mem s" "eid |\<in>| fmdom (nd_events s)" for s1
    using that by (auto simp: nd_apply_def published_record_def empty_log_record_def nd_mem_def fmlookup_dom_iff)
  note ok = this
  have op: "op_record (published_record eid at)" unfolding op_record_def by blast
  from nd_mark_record [OF use_mark(2)] show ?thesis
  proof
    assume c: "nd_commit (published_record eid at) s = (e, s') \<and> eid |\<in>| fmdom (nd_events s)"
    then have "recoverable s'" using commit_recoverable [OF assms(2) use_mark(1) op] ok by blast
    with c nd_commit_path show ?thesis by blast
  qed (use assms(2) in simp)
next
  case (use_fail f ctx e)
  have "fst (nd_apply (failed_record f) s1) = None" if "nd_mem s1 = nd_mem s" "pf_event_id f |\<in>| fmdom (nd_events s)" for s1
    using that by (auto simp: nd_apply_def failed_record_def empty_log_record_def nd_mem_def fmlookup_dom_iff)
  note ok = this
  have op: "op_record (failed_record f)" unfolding op_record_def by blast
  from nd_fail_record [OF use_fail(2)] show ?thesis
  proof
    assume c: "nd_commit (failed_record f) s = (e, s') \<and> pf_event_id f |\<in>| fmdom (nd_events s)"
    then have "recoverable s'" using commit_recoverable [OF assms(2) use_fail(1) op] ok by blast
    with c nd_commit_path show ?thesis by blast
  qed (use assms(2) in simp)
next
  case (use_restart io)
  with reopened_recoverable [OF assms(2,3) use_restart] reopen [OF assms(2,3), of io] show ?thesis by auto
qed

lemma uses_recoverable:
  "nd_use\<^sup>*\<^sup>* s s' \<Longrightarrow> recoverable s \<Longrightarrow> nd_path s \<noteq> [] \<Longrightarrow> recoverable s' \<and> nd_path s' = nd_path s"
  by (induction rule: rtranclp_induct) (auto dest: use_recoverable)

lemma new_log_recoverable:
  assumes "nd_new_store path None open_err read_err io = Inr s" "reliable_io io"
  shows "recoverable s" "nd_path s = path" "path \<noteq> []"
proof -
  from assms(1) have s: "s = nd_empty_store path None io" "path \<noteq> []"
    by (auto simp: nd_new_store_def Let_def split: if_splits)
  have "recovers (nd_empty_store [] None io) s" by (simp add: s(1) recovers_def nd_empty_store_def)
  with s assms(2) show "recoverable s" "nd_path s = path" "path \<noteq> []"
    by (simp_all add: recoverable_def replayed_def nd_bytes_def whole_lines_def file_lines_def Let_def)
      (simp_all add: nd_empty_store_def)
qed

end
