(* ===== verification/StorageProperties.thy ===== *)
theory StorageProperties
  imports EventRoundTrip DynamoProperties
begin

text \<open>
  What the durable stores hand to the dispatcher: the event read back from an item of the DynamoDB
  table is the event that was accepted, with the bytes of its raw messages.
\<close>

lemma atoi_itoa:
  assumes "- (2 ^ 63) \<le> i" "i < 2 ^ 63"
  shows "atoi (itoa_int i) = Some i"
proof (cases "i < 0")
  case True
  have "list_all is_digit (itoa (nat (- i)))" using itoa_digits by (simp add: list_all_iff)
  with True assms show ?thesis by (simp add: atoi_def itoa_int_def digits_val_itoa)
next
  case False
  obtain c cs where c: "itoa (nat i) = c # cs" "is_digit c" using itoa_head by blast
  have m: "c \<noteq> CHR ''-''" "c \<noteq> CHR ''+''" using c(2) by (auto simp: is_digit_def)
  have all: "list_all is_digit (c # cs)" using itoa_digits [of "nat i"] c(1) by (simp add: list_all_iff)
  have "digits_val (c # cs) = nat i" using digits_val_itoa [of "nat i"] c(1) by simp
  with False assms c(1) m all show ?thesis by (simp add: atoi_def itoa_int_def)
qed

text \<open>An item that still has the attributes of the accepted event, after some number of attempts.\<close>

definition keeps_event :: "item \<Rightarrow> acceptance \<Rightarrow> go_string \<Rightarrow> int \<Rightarrow> bool" where
  "keeps_event it a payload n \<longleftrightarrow>
     (\<forall>k \<in> {''event_payload'', ''location_raw'', ''metadata_raw''}. map_of it k = map_of (outbox_item a payload) k)
     \<and> map_of it ''attempts'' = Some (AttrN (itoa_int n))"

lemma outbox_item_attributes:
  "map_of (outbox_item a payload) ''event_payload'' = Some (AttrB payload)"
  "map_of (outbox_item a payload) ''location_raw'' = map_option AttrB (tx_location_raw (ev_payload (acc_event a)))"
  "map_of (outbox_item a payload) ''metadata_raw'' = map_option AttrB (tx_metadata_raw (ev_payload (acc_event a)))"
  "map_of (outbox_item a payload) ''attempts'' = Some (AttrN ''0'')"
  by (simp_all add: outbox_item_def Let_def raw_attributes_def split: option.split)

lemma restored_raw:
  assumes "map_of it k = map_option AttrB r"
  shows "restore_raw_attribute it k (compacted r) = clone_raw r"
  using assms by (cases r) (auto simp: restore_raw_attribute_def bytes_attr_def clone_raw_def raw_bytes_def compacted_def)

lemma decode_kept_event:
  assumes "storable_event 0 (acc_event a)" "marshal_event (acc_event a) = Inr payload"
    and "keeps_event it a payload n" "- (2 ^ 63) \<le> n" "n < 2 ^ 63"
  shows "decode_pending it = Inr \<lparr>pe_event = durable_event (acc_event a), pe_attempts = n, pe_claim_token = []\<rparr>"
proof -
  let ?p = "ev_payload (acc_event a)"
  have k: "map_of it ''event_payload'' = Some (AttrB payload)" "map_of it ''attempts'' = Some (AttrN (itoa_int n))"
    "map_of it ''location_raw'' = map_option AttrB (tx_location_raw ?p)"
    "map_of it ''metadata_raw'' = map_option AttrB (tx_metadata_raw ?p)"
    using assms(3) by (simp_all add: keeps_event_def outbox_item_attributes)
  obtain raw v where "marshal_event (acc_event a) = Inr raw" "event_setter empty_event raw = Inr (kept_event (acc_event a))"
    using event_round_trip [OF assms(1)] by (auto simp: max_depth_def)
  with assms(2) have ev: "unmarshal_event payload = Inr (kept_event (acc_event a))" by (simp add: unmarshal_event_def)
  have "restore_payload it (kept_event (acc_event a)) = durable_event (acc_event a)"
    by (simp add: restore_payload_def kept_event_def kept_transaction_def durable_event_def without_maps_def
        restored_raw [OF k(3)] restored_raw [OF k(4)])
  with ev k(1,2) assms(4,5) show ?thesis
    by (simp add: decode_pending_def bytes_attr_def number_attr_def atoi_itoa)
qed

text \<open>
  C36: for every storable event (valid UTF-8 texts, UTC times of four-digit years, raw messages that
  are JSON), \<open>Accept\<close> of the DynamoDB store can encode it, and \<open>ClaimPending\<close> decodes any item that
  keeps its payload attributes back into the very event: all fields and the exact bytes of the raw
  messages, with the recorded number of attempts. Only the parsed maps are lost.
\<close>

theorem dynamo_event_round_trip:
  assumes "storable_event 0 (acc_event a)"
  shows "\<exists>payload. marshal_event (acc_event a) = Inr payload
    \<and> (\<forall>it n. keeps_event it a payload n \<longrightarrow> - (2 ^ 63) \<le> n \<longrightarrow> n < 2 ^ 63 \<longrightarrow>
          decode_pending it = Inr \<lparr>pe_event = durable_event (acc_event a), pe_attempts = n, pe_claim_token = []\<rparr>)"
proof -
  obtain payload where p: "marshal_event (acc_event a) = Inr payload"
    using event_round_trip [OF assms] by (auto simp: max_depth_def)
  with decode_kept_event [OF assms p] show ?thesis by blast
qed

text \<open>An event with a location that has white space in it.\<close>

definition located_acceptance :: acceptance where
  "located_acceptance = build_acceptance example_id example_now
     (example_command\<lparr>cmd_transaction := example_transaction\<lparr>tx_location_raw := Some ''{ }''\<rparr>\<rparr>) ''fp-1''"

lemma sample_printable: "printable_time \<lparr>t_ns = 1, t_zone = 0\<rparr>" "printable_time \<lparr>t_ns = 100, t_zone = 0\<rparr>"
  using marshal_time_printable [OF sample_years(1)] marshal_time_printable [OF sample_years(2)] by simp_all

lemma sample_raw: "raw_fits d (Some ''{ }'')" if "d < max_depth"
  using that by (simp add: raw_fits_def json_at_def json_fuel_def skip_ws_def is_ws_def eval_nat_numeral)

lemma located_storable: "storable_event 0 (acc_event located_acceptance)"
  using sample_printable sample_raw [of 2]
  by (simp add: storable_event_def storable_transaction_def located_acceptance_def build_acceptance_def Let_def
      example_command_def example_transaction_def example_now_def example_id_def time_utc_def identity_key_def
      review_candidate_event_type_def valid_texts_def raw_fits_def max_depth_def valid_string_ascii
      numeral_2_eq_2)

theorem dynamo_event_round_trip_witness:
  "\<exists>payload. marshal_event (acc_event located_acceptance) = Inr payload
     \<and> decode_pending (outbox_item located_acceptance payload)
         = Inr \<lparr>pe_event = durable_event (acc_event located_acceptance), pe_attempts = 0, pe_claim_token = []\<rparr>
     \<and> tx_location_raw (ev_payload (durable_event (acc_event located_acceptance))) = Some ''{ }''"
proof -
  from dynamo_event_round_trip [OF located_storable] obtain payload where
    p: "marshal_event (acc_event located_acceptance) = Inr payload" and
    d: "\<And>it n. keeps_event it located_acceptance payload n \<Longrightarrow> - (2 ^ 63) \<le> n \<Longrightarrow> n < 2 ^ 63 \<Longrightarrow> decode_pending it
        = Inr \<lparr>pe_event = durable_event (acc_event located_acceptance), pe_attempts = n, pe_claim_token = []\<rparr>" by blast
  have "itoa_int 0 = ''0''" by (simp add: itoa_int_def itoa_eval)
  then have "keeps_event (outbox_item located_acceptance payload) located_acceptance payload 0"
    by (simp add: keeps_event_def outbox_item_attributes)
  from d [OF this] p show ?thesis
    by (simp add: durable_event_def without_maps_def clone_raw_def raw_bytes_def located_acceptance_def
        build_acceptance_def Let_def example_command_def example_transaction_def)
qed

end
