(* ===== verification/RestartProperties.thy ===== *)
theory RestartProperties
  imports NdjsonRestart StorageProperties
begin

text \<open>
  How long the line of an acceptance can be, that the log survives restarts, and what a restart finds after
  a sync that failed.
\<close>

subsection \<open>The length of a line\<close>

lemma length_quote_json: "length (quote_json s) \<le> 6 * length s + 2"
proof -
  have chunk: "length (quote_chunk ch) \<le> 6 * length ch" if "ch \<noteq> []" for ch
    using that by (cases ch) (auto simp: quote_chunk_def quote_ascii_def hex_byte_def)
  have "\<forall>ch \<in> set cs. ch \<noteq> [] \<Longrightarrow> length (concat (map quote_chunk cs)) \<le> 6 * length (concat cs)" for cs
    by (induction cs) (auto dest: chunk)
  from this [of "chunks s"] chunk_nonempty show ?thesis by (fastforce simp: quote_json_def)
qed

lemma length_compact_byte: "length (compact_byte m c) \<le> 6"
  by (simp add: compact_byte_def hex_byte_def)

lemma length_compact: "length (compact_bytes m s) \<le> 6 * length s"
proof (induction "length s" arbitrary: m s rule: less_induct)
  case less
  have one: "length (compact_byte m c @ compact_bytes m' t) \<le> 6 * length s" if "s = c # t" for c t m'
    using less [of t m'] length_compact_byte [of m c] that by simp
  show ?case
  proof (cases "\<exists>z t. s = CHR 0xE2 # CHR 0x80 # z # t \<and> (z = CHR 0xA8 \<or> z = CHR 0xA9)")
    case True
    then obtain z t where t: "s = CHR 0xE2 # CHR 0x80 # z # t" "z = CHR 0xA8 \<or> z = CHR 0xA9" by blast
    with less [of t "next_mode m CHR 0xE2"] show ?thesis by auto
  next
    case False
    then have "compact_bytes m s = [] \<or> (\<exists>c t. s = c # t \<and> compact_bytes m s = compact_byte m c @ compact_bytes (next_mode m c) t)"
      by (cases s; cases "tl s"; cases "tl (tl s)") auto
    with one show ?thesis by auto
  qed
qed

lemma length_base64: "length (base64_encode s) \<le> 2 * length s + 2"
proof (induction s rule: base64_encode.induct)
  case (1 a b c r)
  from 1 [OF refl refl refl] show ?case by (simp add: Let_def)
qed (simp_all add: Let_def)

lemma length_print_members:
  "length (print_members ms) \<le> (\<Sum>(k, raw) \<leftarrow> ms. 6 * length k + length raw + 4)"
proof (induction ms rule: print_members.induct)
  case (2 k v ms)
  with length_quote_json [of k] show ?case by (cases "ms = []") auto
qed simp

text \<open>A field takes its name, its text and four bytes of punctuation.\<close>

definition field_size :: "go_string \<times> go_string option \<Rightarrow> nat" where
  "field_size f = 6 * length (fst f) + 4 + (case snd f of None \<Rightarrow> 0 | Some raw \<Rightarrow> length raw)"

lemma length_struct: "length (marshal_struct fs) \<le> 2 + (\<Sum>f \<leftarrow> fs. field_size f)"
proof -
  have "(\<Sum>(k, raw) \<leftarrow> present fs. 6 * length k + length raw + 4) \<le> (\<Sum>f \<leftarrow> fs. field_size f)"
  proof (induction fs)
    case (Cons f fs)
    obtain k x where "f = (k, x)" by (cases f)
    with Cons show ?case by (cases x) (simp_all add: field_size_def)
  qed simp
  with length_print_members [of "present fs"] show ?thesis by (simp add: marshal_struct_def print_object_def)
qed

lemma field_size_simps [simp]:
  "field_size (k, None) = 6 * length k + 4" "field_size (k, Some raw) = 6 * length k + 4 + length raw"
  by (simp_all add: field_size_def)

lemma field_size_omit: "field_size (k, marshal_omit_string s) \<le> 6 * length k + 6 + 6 * length s"
  using length_quote_json [of s] by (simp add: marshal_omit_string_def)

lemma field_size_raw: "marshal_raw r = Inr x \<Longrightarrow> field_size (k, x) \<le> 6 * length k + 4 + 6 * length (raw_bytes r)"
  by (auto simp: marshal_raw_def raw_bytes_def compact_raw_def and_then_Inr length_compact
      split: option.splits sum.splits if_splits)

lemma field_size_bytes: "field_size (k, marshal_bytes r) \<le> 6 * length k + 8 + 2 * length (raw_bytes r)"
  using length_base64 by (auto simp: marshal_bytes_def raw_bytes_def split: option.split)

definition plate_size :: "plate option \<Rightarrow> nat" where
  "plate_size p = (case p of None \<Rightarrow> 0 | Some q \<Rightarrow> length (plate_number q) + length (plate_jurisdiction q))"

lemma field_size_plate: "field_size (k, map_option marshal_plate p) \<le> 6 * length k + 126 + 6 * plate_size p"
proof (cases p)
  case (Some q)
  have "length (marshal_plate q) \<le> 122 + 6 * plate_size p"
    using length_struct [of "texts (plate_texts q)"] length_quote_json [of "plate_number q"] length_quote_json [of "plate_jurisdiction q"]
    by (simp add: marshal_plate_struct plate_texts_def Some plate_size_def)
  with Some show ?thesis by simp
qed (simp add: plate_size_def)

text \<open>The bytes of the texts of a transaction, an event and an acceptance, the printed times included.\<close>

definition time_size :: "gotime \<Rightarrow> nat" where
  "time_size t = length (format_rfc3339nano t)"

definition transaction_size :: "transaction \<Rightarrow> nat" where
  "transaction_size t =
     length (tx_id t) + length (tx_source t) + length (tx_source_reference t) + length (tx_type t) + time_size (tx_time t)
     + length (tx_base_amount t) + length (tx_currency t) + plate_size (tx_plate t) + length (tx_transponder t)
     + length (raw_bytes (tx_location_raw t)) + length (raw_bytes (tx_metadata_raw t))"

definition event_size :: "outbox_event \<Rightarrow> nat" where
  "event_size ev =
     length (ev_id ev) + length (ev_type ev) + length (itoa_int (ev_schema_version ev)) + time_size (ev_occurred_at ev)
     + length (ev_correlation_id ev) + length (ev_source ev) + length (ev_source_reference ev)
     + length (ev_transaction_id ev) + length (ev_key ev) + transaction_size (ev_payload ev)"

definition acceptance_size :: "acceptance \<Rightarrow> nat" where
  "acceptance_size a = transaction_size (acc_transaction a) + length (acc_fingerprint a) + event_size (acc_event a)"

lemma length_time: "marshal_time t = Inr raw \<Longrightarrow> length raw = time_size t + 2"
  by (auto simp: marshal_time_def time_size_def split: if_splits)

lemma transaction_length:
  assumes "marshal_transaction t = Inr raw"
  shows "length raw \<le> 6 * transaction_size t + 1000"
proof -
  from assms obtain tm loc meta where m: "marshal_time (tx_time t) = Inr tm" "marshal_raw (tx_location_raw t) = Inr loc"
    "marshal_raw (tx_metadata_raw t) = Inr meta" by (auto simp: marshal_transaction_def and_then_Inr)
  let ?fs = "[(''id'', Some (quote_json (tx_id t))), (''source'', Some (quote_json (tx_source t))),
          (''source_reference'', Some (quote_json (tx_source_reference t))),
          (''transaction_type'', Some (quote_json (tx_type t))), (''transaction_time_utc'', Some tm),
          (''base_amount'', Some (quote_json (tx_base_amount t))), (''currency'', Some (quote_json (tx_currency t))),
          (''plate'', map_option marshal_plate (tx_plate t)), (''transponder_number'', marshal_omit_string (tx_transponder t)),
          (''location'', loc), (''metadata'', meta)]"
  from assms m have "raw = marshal_struct ?fs" by (simp add: marshal_transaction_def)
  then show ?thesis
    using length_struct [of ?fs] field_size_plate [of "''plate''" "tx_plate t"] field_size_omit [of "''transponder_number''" "tx_transponder t"]
      field_size_raw [OF m(2), of "''location''"] field_size_raw [OF m(3), of "''metadata''"] length_time [OF m(1)]
      length_quote_json [of "tx_id t"] length_quote_json [of "tx_source t"] length_quote_json [of "tx_source_reference t"]
      length_quote_json [of "tx_type t"] length_quote_json [of "tx_base_amount t"] length_quote_json [of "tx_currency t"]
    by (simp add: transaction_size_def)
qed

lemma event_length:
  assumes "marshal_event ev = Inr raw"
  shows "length raw \<le> 6 * event_size ev + 2000"
proof -
  from assms obtain tm payload where m: "marshal_time (ev_occurred_at ev) = Inr tm" "marshal_transaction (ev_payload ev) = Inr payload"
    by (auto simp: marshal_event_def and_then_Inr)
  let ?fs = "[(''ID'', Some (quote_json (ev_id ev))), (''Type'', Some (quote_json (ev_type ev))),
          (''SchemaVersion'', Some (itoa_int (ev_schema_version ev))), (''OccurredAt'', Some tm),
          (''CorrelationID'', Some (quote_json (ev_correlation_id ev))), (''Source'', Some (quote_json (ev_source ev))),
          (''SourceReference'', Some (quote_json (ev_source_reference ev))),
          (''TransactionID'', Some (quote_json (ev_transaction_id ev))), (''Key'', Some (quote_json (ev_key ev))),
          (''Payload'', Some payload)]"
  from assms m have "raw = marshal_struct ?fs" by (simp add: marshal_event_def)
  then show ?thesis
    using length_struct [of ?fs] length_time [OF m(1)] transaction_length [OF m(2)]
      length_quote_json [of "ev_id ev"] length_quote_json [of "ev_type ev"] length_quote_json [of "ev_correlation_id ev"]
      length_quote_json [of "ev_source ev"] length_quote_json [of "ev_source_reference ev"]
      length_quote_json [of "ev_transaction_id ev"] length_quote_json [of "ev_key ev"]
    by (simp add: event_size_def)
qed

lemma acceptance_length:
  assumes "marshal_acceptance a = Inr raw"
  shows "length raw \<le> 6 * acceptance_size a + 3200"
proof -
  from assms obtain t ev where m: "marshal_transaction (acc_transaction a) = Inr t" "marshal_event (acc_event a) = Inr ev"
    by (auto simp: marshal_acceptance_def and_then_Inr)
  with assms have "raw = marshal_struct [(''Transaction'', Some t), (''Fingerprint'', Some (quote_json (acc_fingerprint a))), (''Event'', Some ev)]"
    by (simp add: marshal_acceptance_def)
  then show ?thesis
    using length_struct [of "[(''Transaction'', Some t), (''Fingerprint'', Some (quote_json (acc_fingerprint a))), (''Event'', Some ev)]"]
      transaction_length [OF m(1)] event_length [OF m(2)] length_quote_json [of "acc_fingerprint a"]
    by (simp add: acceptance_size_def)
qed

text \<open>The line of an acceptance is short enough unless its texts come near to the scanner's limit.\<close>

definition raw_size :: "transaction \<Rightarrow> nat" where
  "raw_size t = length (raw_bytes (tx_location_raw t)) + length (raw_bytes (tx_metadata_raw t))"

lemma zero_printed: "printable_time zero_time" "time_size zero_time = 20"
proof -
  have "format_rfc3339nano \<lparr>t_ns = 0, t_zone = 0\<rparr> = ''0001-01-01T00:00:00Z''"
    unfolding format_rfc3339nano_def Let_def gotime.simps by (simp add: go_eval)
  then show "time_size zero_time = 20" by (simp add: time_size_def zero_time_def)
  show "printable_time zero_time" by (simp add: printable_time_def zero_time_def go_eval)
qed

lemma clone_raw_bytes [simp]: "raw_bytes (clone_raw r) = raw_bytes r"
  by (cases r) (auto simp: clone_raw_def raw_bytes_def)

lemma accepted_loggable:
  assumes "storable_acceptance 1 a" "6 * acceptance_size a + 2 * raw_size (acc_transaction a) + 4000 < max_line"
  shows "loggable (accepted_record a)"
proof -
  have st: "storable_record (accepted_record a)"
    using assms(1) zero_printed(1) by (simp add: storable_record_def accepted_record_def empty_log_record_def ascii_def valid_string_ascii)
  then obtain b where b: "marshal_log_record (accepted_record a) = Inr b" using record_round_trip by blast
  obtain x tm where m: "marshal_acceptance a = Inr x" "marshal_time zero_time = Inr tm"
    using acceptance_round_trip [OF assms(1)] marshal_printable(1) [OF zero_printed(1)] by (auto simp: max_depth_def)
  let ?fs = "[(''kind'', Some (quote_json ''accepted'')), (''acceptance'', Some x), (''failure'', None), (''eventId'', None),
      (''recordedAt'', Some tm), (''locationRaw'', marshal_bytes (clone_raw (tx_location_raw (acc_transaction a)))),
      (''metadataRaw'', marshal_bytes (clone_raw (tx_metadata_raw (acc_transaction a))))]"
  from b m have "b = marshal_struct ?fs"
    by (simp add: marshal_log_record_def accepted_record_def empty_log_record_def marshal_pointer_def marshal_omit_string_def)
  then have "length b \<le> 6 * acceptance_size a + 2 * raw_size (acc_transaction a) + 4000"
    using length_struct [of ?fs] acceptance_length [OF m(1)] length_time [OF m(2)] length_quote_json [of "''accepted''"]
      field_size_bytes [of "''locationRaw''" "clone_raw (tx_location_raw (acc_transaction a))"]
      field_size_bytes [of "''metadataRaw''" "clone_raw (tx_metadata_raw (acc_transaction a))"]
    by (simp add: zero_printed(2) raw_size_def)
  with assms(2) b st show ?thesis by (simp add: loggable_def)
qed

subsection \<open>Restarts\<close>

text \<open>
  C9: durability of the append log: start with a log that does not exist, and let operations with data
  that can be written, claims, failing opens and restarts happen in any order, as long as no write
  and no sync fails. Then the file opens again, with every identity and its answer, and every event
  with its attempts, its retry time, its outcome and the bytes of its raw messages. Only the leases
  and the parsed maps are gone.
\<close>

theorem ndjson_restart:
  assumes "nd_new_store path None open_err read_err io = Inr s0" "reliable_io io" "nd_use\<^sup>*\<^sup>* s0 s"
  shows "\<exists>s'. nd_new_store path (nd_file s) None None io' = Inr s'
     \<and> nd_transactions s' = nd_transactions s \<and> nd_events s' = fmmap recovered (nd_events s)"
proof -
  note new = new_log_recoverable [OF assms(1,2)]
  from uses_recoverable [OF assms(3) new(1)] new(2,3) have "recoverable s" "nd_path s = path" by simp_all
  with reopen [of s io'] new(3) show ?thesis by (auto simp: recovers_def)
qed

definition quiet_io :: "nat \<Rightarrow> append_io" where
  "quiet_io n = \<lparr>ai_open = None, ai_chmod = None, ai_write = None, ai_sync = None\<rparr>"

lemma located_parts:
  "acc_coherent located_acceptance" "ev_id (acc_event located_acceptance) = ''e-1''"
  "storable_acceptance 1 located_acceptance"
proof -
  show "acc_coherent located_acceptance" "ev_id (acc_event located_acceptance) = ''e-1''"
    by (simp_all add: acc_coherent_def located_acceptance_def build_acceptance_def Let_def example_id_def)
  have "raw_fits d (Some ''{ }'')" if "d = 3 \<or> d = 4" for d using sample_raw [of d] that by (auto simp: max_depth_def)
  then show "storable_acceptance 1 located_acceptance"
    using sample_printable
    by (simp add: storable_acceptance_def storable_event_def storable_transaction_def located_acceptance_def
        build_acceptance_def Let_def example_command_def example_transaction_def example_now_def example_id_def
        time_utc_def identity_key_def review_candidate_event_type_def valid_texts_def valid_string_ascii ascii_def
        raw_fits_def [of _ None] eval_nat_numeral)
qed

lemma sample_formats:
  "format_rfc3339nano \<lparr>t_ns = 1, t_zone = 0\<rparr> = ''0001-01-01T00:00:00.000000001Z''"
  "format_rfc3339nano \<lparr>t_ns = 100, t_zone = 0\<rparr> = ''0001-01-01T00:00:00.0000001Z''"
  unfolding format_rfc3339nano_def Let_def gotime.simps by (simp_all add: go_eval)

lemma located_loggable: "loggable (accepted_record located_acceptance)"
proof (rule accepted_loggable [OF located_parts(3)])
  have "itoa_int 1 = ''1''" by (simp add: itoa_int_def itoa_eval)
  then show "6 * acceptance_size located_acceptance + 2 * raw_size (acc_transaction located_acceptance) + 4000 < max_line"
    by (simp add: acceptance_size_def transaction_size_def event_size_def raw_size_def plate_size_def time_size_def
        located_acceptance_def build_acceptance_def Let_def example_command_def example_transaction_def example_now_def
        example_id_def time_utc_def identity_key_def review_candidate_event_type_def raw_bytes_def sample_formats max_line_def)
qed

theorem ndjson_restart_witness:
  "\<exists>s s'. nd_accept None located_acceptance (nd_empty_store ''log'' None quiet_io) = (Inr (accepted_outcome located_acceptance), s)
     \<and> nd_new_store ''log'' (nd_file s) None None quiet_io = Inr s'
     \<and> fmlookup (nd_events s') ''e-1'' = Some (fresh_stored_event (durable_event (acc_event located_acceptance)))"
proof -
  let ?s0 = "nd_empty_store ''log'' None quiet_io"
  obtain b where b: "marshal_log_record (accepted_record located_acceptance) = Inr b"
    using located_loggable record_round_trip by (auto simp: loggable_def)
  then have "\<exists>s1. nd_append (accepted_record located_acceptance) ?s0 = (None, s1) \<and> nd_mem s1 = nd_mem ?s0"
    by (simp add: nd_append_def nd_empty_store_def quiet_io_def Let_def nd_mem_def)
  then obtain s1 where s1: "nd_append (accepted_record located_acceptance) ?s0 = (None, s1)" "nd_mem s1 = nd_mem ?s0" by blast
  obtain s where s: "nd_apply (accepted_record located_acceptance) s1 = (None, s)"
    "nd_events s = fmupd ''e-1'' (fresh_stored_event (acc_event located_acceptance)) (nd_events s1)"
    using nd_apply_accepted_record [OF located_parts(1), of s1] located_parts(2) by simp
  have "nd_commit (accepted_record located_acceptance) ?s0 = (None, s)" using s1(1) s(1) by (simp add: nd_commit_def)
  moreover have "nd_transactions ?s0 = fmempty" by (simp add: nd_empty_store_def)
  ultimately have run: "nd_accept None located_acceptance ?s0 = (Inr (accepted_outcome located_acceptance), s)"
    by (simp add: nd_accept_def Let_def accepted_outcome_def)
  from use_accept [OF located_parts(1) located_loggable run] have "nd_use\<^sup>*\<^sup>* ?s0 s" by blast
  from ndjson_restart [OF _ _ this, of "''log''" None None quiet_io quiet_io]
  obtain s' where s': "nd_new_store ''log'' (nd_file s) None None quiet_io = Inr s'" "nd_events s' = fmmap recovered (nd_events s)"
    by (auto simp: nd_new_store_def quiet_io_def reliable_io_def)
  have "recovered (fresh_stored_event ev) = fresh_stored_event (durable_event ev)" for ev
    by (simp add: recovered_def fresh_stored_event_def)
  with run s' s(2) show ?thesis by simp
qed

subsection \<open>A sync that fails\<close>

text \<open>
  C10: an acceptance whose line is written but whose sync fails is neither refused nor taken: the caller
  gets the error and the maps do not know the transaction, so that a retry would append a second
  acceptance of it; the file holds it, and after a restart its identity and its pending event are
  there.
\<close>

theorem ndjson_unsynced:
  assumes "nd_new_store path None open_err read_err io = Inr s0" "reliable_io io" "nd_use\<^sup>*\<^sup>* s0 s"
    and "acc_coherent a" "loggable (accepted_record a)" "nd_idents s (mem_key (acc_transaction a)) = None"
    and "failing (nd_appends s) = \<lparr>ai_open = None, ai_chmod = None, ai_write = None, ai_sync = Some e\<rparr>"
    and "nd_accept None a (s\<lparr>nd_io := failing\<rparr>) = (r, s1)"
  shows "r = Inl (Wrap ''sync NDJSON record'' e) \<and> nd_mem s1 = nd_mem s
     \<and> (\<exists>s2. nd_new_store path (nd_file s1) None None io' = Inr s2
          \<and> nd_idents s2 = (nd_idents s)(mem_key (acc_transaction a) \<mapsto> identity_of a)
          \<and> fmlookup (nd_events s2) (ev_id (acc_event a)) = Some (fresh_stored_event (durable_event (acc_event a))))"
proof -
  note new = new_log_recoverable [OF assms(1,2)]
  from uses_recoverable [OF assms(3) new(1)] new(2,3) have s: "recoverable s" "nd_path s = path" "path \<noteq> []" by simp_all
  from assms(5) obtain b where b: "marshal_log_record (accepted_record a) = Inr b" by (auto simp: loggable_def split: sum.splits)
  let ?written = "Some (nd_bytes s @ b @ [CHR 0x0A])"
  have "fmlookup (nd_transactions s) (mem_key (acc_transaction a)) = None"
    using assms(6) by (simp add: nd_idents_def mem_idents_def mem_identity_def)
  with assms(7,8) b have r: "r = Inl (Wrap ''sync NDJSON record'' e)" "nd_mem s1 = nd_mem s" "nd_file s1 = ?written"
    by (auto simp: nd_accept_def nd_commit_def nd_append_def Let_def mem_key_def nd_mem_def nd_bytes_def)
  obtain t where t: "nd_apply (accepted_record a) (s\<lparr>nd_file := ?written\<rparr>) = (None, t)"
    "nd_idents t = (nd_idents s)(mem_key (acc_transaction a) \<mapsto> identity_of a)"
    "nd_events t = fmupd (ev_id (acc_event a)) (fresh_stored_event (acc_event a)) (nd_events s)"
    "nd_file t = ?written" "nd_io t = nd_io s" "nd_path t = path"
    using s(2) by (auto simp: nd_apply_accepted_record [OF assms(4)] nd_view mem_idents_def mem_identity_def
        identity_of_def fun_eq_iff)
  have op: "op_record (accepted_record a)" using assms(4) unfolding op_record_def by blast
  from s(1) have old: "replayed (nd_bytes s) s" "whole_lines (nd_bytes s)" "reliable_io (nd_io s)"
    by (simp_all add: recoverable_def)
  have "nd_mem (s\<lparr>nd_file := ?written\<rparr>) = nd_mem s" by (simp add: nd_mem_def)
  from replay_line [OF old(1,2) assms(5) op b this t(1,5)] old(3) t(4,5) have "recoverable t"
    by (simp add: recoverable_def nd_bytes_def)
  from reopen [OF this, of io'] t(4,6) s(3) obtain s2 where
    s2: "nd_new_store path ?written None None io' = Inr s2" "recovers s2 t" by auto
  have "recovered (fresh_stored_event ev) = fresh_stored_event (durable_event ev)" for ev
    by (simp add: recovered_def fresh_stored_event_def)
  with s2(2) t(2,3) have "nd_idents s2 = (nd_idents s)(mem_key (acc_transaction a) \<mapsto> identity_of a)"
    "fmlookup (nd_events s2) (ev_id (acc_event a)) = Some (fresh_stored_event (durable_event (acc_event a)))"
    by (simp_all add: recovers_def nd_idents_def mem_idents_def mem_identity_def)
  with r s2(1) show ?thesis by auto
qed

definition unsynced_io :: "go_error \<Rightarrow> nat \<Rightarrow> append_io" where
  "unsynced_io e n = \<lparr>ai_open = None, ai_chmod = None, ai_write = None, ai_sync = Some e\<rparr>"

abbreviation sync_failure :: go_error where
  "sync_failure \<equiv> Errorf ''input/output error''"

theorem ndjson_unsynced_witness:
  "\<exists>s1 s2. nd_accept None located_acceptance (nd_empty_store ''log'' None (unsynced_io sync_failure)) = (Inl (Wrap ''sync NDJSON record'' sync_failure), s1)
     \<and> nd_events s1 = fmempty \<and> nd_new_store ''log'' (nd_file s1) None None quiet_io = Inr s2
     \<and> fmlookup (nd_events s2) ''e-1'' \<noteq> None"
proof -
  let ?s0 = "nd_empty_store ''log'' None quiet_io"
  have s0: "nd_new_store ''log'' None None None quiet_io = Inr ?s0" "reliable_io quiet_io"
    "nd_idents ?s0 k = None" "unsynced_io sync_failure (nd_appends ?s0) = \<lparr>ai_open = None, ai_chmod = None, ai_write = None, ai_sync = Some sync_failure\<rparr>"
    "?s0\<lparr>nd_io := unsynced_io sync_failure\<rparr> = nd_empty_store ''log'' None (unsynced_io sync_failure)" "nd_events ?s0 = fmempty" for k
    by (simp_all add: nd_new_store_def reliable_io_def quiet_io_def unsynced_io_def nd_idents_def mem_idents_def mem_identity_def)
      (simp_all add: nd_empty_store_def)
  obtain r s1 where run: "nd_accept None located_acceptance (?s0\<lparr>nd_io := unsynced_io sync_failure\<rparr>) = (r, s1)" by fastforce
  from ndjson_unsynced [OF s0(1,2) rtranclp.rtrancl_refl located_parts(1) located_loggable s0(3,4) run, of quiet_io]
  have c: "r = Inl (Wrap ''sync NDJSON record'' sync_failure)" "nd_mem s1 = nd_mem ?s0"
    "\<exists>s2. nd_new_store ''log'' (nd_file s1) None None quiet_io = Inr s2
       \<and> fmlookup (nd_events s2) ''e-1'' = Some (fresh_stored_event (durable_event (acc_event located_acceptance)))"
    using located_parts(2) by auto
  from c(2) s0(6) have "nd_events s1 = fmempty" by (simp add: nd_mem_def)
  with c(1,3) run s0(5) show ?thesis by auto
qed

end
