(* ===== verification/DomainProperties.thy ===== *)
theory DomainProperties
  imports SystemExample DomainFacts StructFacts
begin

text \<open>
  What identifies a transaction: the fingerprint covers exactly its business content, and the key
  under which the stores keep it is not unique to its source and its source reference.
\<close>

subsection \<open>The fingerprint\<close>












subsection \<open>The key of an identity\<close>



end
