(* ===== verification/PipelineProperties.thy ===== *)
theory PipelineProperties
  imports RestartProperties ServiceProperties DomainProperties
begin

text \<open>
  From the request to the stored event: what the handler submits, the durable stores can write and
  read back.
\<close>

subsection \<open>Parsed times can be printed\<close>











subsection \<open>Submissions can be stored\<close>










end
