(* ===== verification/Spec2Isabelle.thy ===== *)
theory Spec2Isabelle
  imports StarterProperties PipelineProperties
begin

text \<open>
  A model of the transaction intake service (Go, \<open>src/\<close>) and the properties that make it correct.

  The program. Partners post toll transactions to \<open>/ingest/v1/transactions\<close>
  (\<open>internal/transaction/adapters/http\<close>). The handler authenticates and decodes a request, the intake
  service (\<open>app/intake.go\<close>) validates it, takes its fingerprint (\<open>domain/transaction.go\<close>) and hands
  the transaction with one outbox event to a store, which keeps both or neither. A resubmission is
  answered from the store: as a replay if the fingerprint is the same, as a conflict if not. The
  dispatcher (\<open>app/outbox.go\<close>) leases pending events, publishes them to Kafka
  (\<open>adapters/kafka\<close>), and records the outcome under the token of the lease. Four stores implement the
  two ports: in memory, an append log of JSON lines, DynamoDB and PostgreSQL. Two programs
  (\<open>cmd/transaction-service\<close>, \<open>cmd/topic-bootstrap\<close>) read the configuration and the secrets
  (\<open>internal/bootstrap\<close>) and start what the mode asks for.

  Go and its library. \<open>Prelude\<close> names the basic types (a \<open>string\<close> and a \<open>[]byte\<close> are byte lists),
  the error values and the collections of automation. \<open>GoText\<close> (UTF-8, \<open>strings\<close>), \<open>GoTime\<close>
  (instants, RFC 3339), \<open>GoStrconv\<close>, \<open>GoMime\<close>, \<open>GoSha256\<close> and \<open>GoJson\<close> (the scanner, the decoder,
  \<open>Marshal\<close>, \<open>RawMessage\<close>), and \<open>StructCodec\<close> (structs by their tags, base64) model what the program
  uses of the standard library, executable and down to the bytes.

  The code, a theory per part, in the order of the calls.
    \<open>Domain\<close>: \<open>domain/transaction.go\<close>. \<open>Intake\<close>, \<open>Outbox\<close>: \<open>app/intake.go\<close>, \<open>app/outbox.go\<close>, as
    functions over any store and publisher. \<open>StaticAuth\<close>, \<open>HttpHandler\<close>: \<open>adapters/http\<close>.
    \<open>MemoryStore\<close>, \<open>NdjsonStore\<close>, \<open>DynamoStore\<close>, \<open>DynamoTable\<close>, \<open>PostgresStore\<close>: the stores, the
    creation of the table and the migration, with \<open>EventCodec\<close> for the JSON that the durable stores
    keep. \<open>KafkaAdapter\<close>: the publisher, the topic and the writer settings. \<open>Config\<close>:
    \<open>internal/bootstrap\<close>. \<open>Bootstrap\<close>, \<open>Runtime\<close>, \<open>Starters\<close>: the two programs, the worker loop, the
    opening of the stores and the three starters.
  The state of a component is a record with the fields of the struct, an operation is a function with
  the guards and the early returns of the code in their order, and an error is a value of
  \<open>go_error\<close>: the text of the source, with the operand of a \<open>%q\<close> as it is and without the outer
  operands of a wrapped text. A mutex makes an operation one step.

  Contracts. \<open>StoreContract\<close> states the two ports as locales over an abstract outbox:
  \<open>outbox_store\<close> and its extensions (leases that run by the clock, errors that change nothing, a store
  that always answers), \<open>intake_store\<close>, and \<open>transaction_store\<close> for both together. The lemmas of
  intake, of a batch (\<open>BatchFacts\<close>) and of the whole system (\<open>OutboxSystem\<close>) are proved there once.
  \<open>MemoryStore\<close> and \<open>NdjsonFacts\<close> interpret them on the models of the two stores in the process, and
  \<open>StarterFacts\<close> on the stores that a started process has opened. DynamoDB and PostgreSQL are
  services: their clients are parameters, constrained by the documented behaviour of a conditional
  write or of a transaction, and what the code guarantees on them is proved over every such service
  and beside any other process (\<open>DynamoFacts\<close>, \<open>DynamoSystem\<close>, \<open>PostgresFacts\<close>).

  What is shown.
    The system (this theory and \<open>OutboxSystem\<close>): any number of services and dispatchers on one store,
    with crashes between any two steps. Answers are final, no accepted event is lost, what is marked
    published was accepted by the broker, no claim completes twice, final states stay, leases
    exclude; and the code's own loop is a run of these steps.
    Dispatch (\<open>Outbox\<close>, \<open>BatchFacts\<close>): the exact retry delay, the exact effect of a batch.
    Requests (\<open>HttpFacts\<close>, \<open>HttpSystem\<close>, \<open>DomainProperties\<close>): the handler is a reference that reads no
    bytes, and a producer that repeats a request gets its answer; the fingerprint covers the business
    content and nothing else; the keys of the stores can coincide.
    JSON (\<open>JsonFacts\<close> to \<open>RawMembers\<close>, \<open>Utf8Facts\<close>): enough fuel, a parser that looks no further
    than its value, printing and parsing as inverses, compaction; \<open>TimeFacts\<close>, \<open>StructFacts\<close>,
    \<open>CompactFacts\<close>, \<open>EventRoundTrip\<close>, \<open>RecordRoundTrip\<close>: the same for times, structs, raw messages,
    events and the records of the append log.
    Durability (\<open>NdjsonRestart\<close>, \<open>RestartProperties\<close>, \<open>StorageProperties\<close>, \<open>PipelineProperties\<close>): the
    append log survives any sequence of operations and restarts (and what a restart finds after a sync
    that failed), an item of the table is read back as
    the event that was accepted, and what a request submits can be stored and read back.
    Services (\<open>DynamoProperties\<close>, \<open>PostgresProperties\<close>): atomic acceptance, final answers, fenced
    publication, bounded claims, a migration that holds the lock.
    Programs (\<open>ServiceProperties\<close>, \<open>StarterProperties\<close>): what a loaded configuration guarantees, keys,
    TLS, the ends of the loops, and the guarantees of the system for a started process.
  \<open>SystemExample\<close> holds the run on which the properties of the system are instantiated.

  Bounds and fuel. The JSON parser has fuel: \<open>json_fuel\<close> is twice the length of the input and two,
  and any fuel above twice the length gives the same result (\<open>parse_value_fuel\<close>); its nesting limit
  \<open>max_depth\<close> is Go's 10,000. Loops that may run for ever (the pages of a claim, the poll of the table,
  the worker) are \<open>partial_function (option)\<close>, and that they end is a theorem of its own. Durations are
  64-bit words. Identifiers and tokens are parameters \<open>nat \<Rightarrow> go_string\<close>, the results of successive
  calls of \<open>rand.Text\<close>; where a property needs fresh ones, it says so. The line of an accepted
  transaction must stay below the scanner's 1 MiB; \<open>accepted_loggable\<close> bounds it by six times the
  lengths of its texts, which leaves room for the largest body the handler reads (64 KiB).

  Not modelled. Logging and metrics; signals; deadlines of contexts (a context is what its \<open>Err\<close>
  returns); goroutines beyond the order in which their effects happen, and what still runs after a
  starter has returned; the answers of \<open>http.ServeMux\<close> itself (404, redirects) and the network; the
  effect of a readiness probe on a store; the clients of AWS, PostgreSQL and Kafka, the file system
  and certificates, which are parameters. The append log's file has one writer, as the configuration
  demands, and the answers of the operating system are a parameter of its state.
\<close>

section \<open>Intake and dispatch on the in-memory store\<close>

text \<open>
  C1: once the service has answered a submission, any later valid submission of the same identity,
  after any history of intake, dispatch and crashes, gets that answer back as a replay, or a
  conflict when its fingerprint differs; the store is not changed by it.
\<close>

theorem resubmission:
  assumes "0 < cfg_batch_size cfg" "mem_inv (sys_store S)" "mem_abs (sys_store S) (new_id 0) = None"
    and "intake_accept svc mem_accept new_id now ctx cmd (sys_store S) = (Inr res, s1)" "res_id res \<noteq> []"
    and "(sys_step svc' cfg mem_abs mem_accept mem_claim mem_mark mem_record_failure)\<^sup>*\<^sup>*
           (S\<lparr>sys_store := s1\<rparr>) S'"
    and "mem_key (cmd_transaction cmd') = mem_key (cmd_transaction cmd)"
    and "fingerprint (cmd_transaction cmd') [Some (svc_allowed_types svc)] = Inr fp'"
  shows "intake_accept svc mem_accept new_id' now' None cmd' (sys_store S') =
     (if fingerprint (cmd_transaction cmd) [Some (svc_allowed_types svc)] = Inr fp'
      then Inr \<lparr>res_kind = Replayed, res_id = res_id res, res_event_id = res_event_id res\<rparr>
      else Inl ErrConflict, sys_store S')"
proof -
  from mem_tx.intake_recorded [OF assms(1-4,6)] obtain fp where
    fp: "fingerprint (cmd_transaction cmd) [Some (svc_allowed_types svc)] = Inr fp"
    and i: "mem_idents (sys_store S') (mem_key (cmd_transaction cmd)) = Some
       \<lparr>idn_fingerprint = fp, idn_transaction_id = res_id res, idn_event_id = res_event_id res\<rparr>" by blast
  from i assms(7) have "mem_idents (sys_store S') (mem_key (cmd_transaction cmd')) = Some
       \<lparr>idn_fingerprint = fp, idn_transaction_id = res_id res, idn_event_id = res_event_id res\<rparr>" by simp
  from mem_intake_known [OF assms(8) this] fp assms(5) show ?thesis by auto
qed

theorem resubmission_witness:
  "\<exists>fp S. (sys_step example_service default_dispatcher_config mem_abs mem_accept mem_claim mem_mark
        mem_record_failure)\<^sup>*\<^sup>* (initial_system mem_new_store) S
     \<and> fingerprint example_transaction [Some {''toll''}] = Inr fp
     \<and> intake_accept example_service mem_accept example_id example_now None example_command (sys_store S)
        = (Inr \<lparr>res_kind = Replayed, res_id = ''t-1'', res_event_id = ''e-1''\<rparr>, sys_store S)"
proof -
  obtain fp where fp: "fingerprint example_transaction [Some {''toll''}] = Inr fp"
    using example_fingerprint by blast
  then have fp': "fingerprint (cmd_transaction example_command) [Some (svc_allowed_types example_service)] = Inr fp"
    by (simp add: example_command_def example_service_types)
  have "intake_accept example_service mem_accept example_id example_now None example_command
      (sys_store (example_S4 fp))
    = (Inr \<lparr>res_kind = Replayed, res_id = ''t-1'', res_event_id = ''e-1''\<rparr>, sys_store (example_S4 fp))"
    using resubmission [where S = "initial_system mem_new_store" and S' = "example_S4 fp"
        and cfg = default_dispatcher_config, OF _ _ _ _ _ _ refl fp']
      example_accept [OF fp] example_run(1) [OF fp] fp'
    by (simp add: default_dispatcher_config_def example_S1_def)
  with fp example_run(2) [OF fp] show ?thesis by blast
qed

text \<open>
  C2: an accepted transaction is never lost: in every later state its event is in the outbox, and it
  is pending with attempts left, or published and in the broker's log, or failed after the
  configured number of attempts.
\<close>

theorem accepted_event_tracked:
  assumes "sys_reachable (sys_step svc cfg mem_abs mem_accept mem_claim mem_mark mem_record_failure)
             mem_new_store S"
    and "0 < cfg_batch_size cfg" "0 < cfg_max_attempts cfg"
    and "mem_abs (sys_store S) (new_id 0) = None"
    and "intake_accept svc mem_accept new_id now ctx cmd (sys_store S) = (Inr res, s1)"
    and "(sys_step svc cfg mem_abs mem_accept mem_claim mem_mark mem_record_failure)\<^sup>*\<^sup>*
           (S\<lparr>sys_store := s1\<rparr>) S'"
  shows "\<exists>e. mem_abs (sys_store S') (res_event_id res) = Some e
     \<and> ev_transaction_id (es_event e) = res_id res
     \<and> (case es_status e of
          Pending \<Rightarrow> es_attempts e < cfg_max_attempts cfg
        | Published \<Rightarrow> es_event e \<in> set (sys_log S')
        | Failed \<Rightarrow> es_attempts e = cfg_max_attempts cfg)"
proof -
  let ?step = "sys_step svc cfg mem_abs mem_accept mem_claim mem_mark mem_record_failure"
  have "?step S (S\<lparr>sys_store := s1\<rparr>)" 
    by (rule step_accept [where view = mem_abs and S = S and new_id = new_id, OF assms(4,5)])
  with assms(1) have "sys_reachable ?step mem_new_store (S\<lparr>sys_store := s1\<rparr>)" by (rule reach_step)
  then have reach: "sys_reachable ?step mem_new_store S'" using assms(6) by (rule reachable_steps)
  have inv: "mem_inv (sys_store S)"
    using mem_tx.reachable_inv [OF assms(1-3)] by (simp add: system_inv_def)
  from mem_tx.intake_recorded [OF assms(2) inv assms(4-6)] obtain i where
    i: "mem_idents (sys_store S') (mem_key (cmd_transaction cmd)) = Some i"
      "idn_transaction_id i = res_id res" "idn_event_id i = res_event_id res" by auto
  from mem_tx.reachable_inv [OF reach assms(2,3)]
  have "linked (mem_idents (sys_store S')) (mem_abs (sys_store S'))" by (simp add: system_inv_def)
  with i obtain e where e: "mem_abs (sys_store S') (res_event_id res) = Some e"
    "ev_transaction_id (es_event e) = res_id res" unfolding linked_def by metis
  from mem_tx.reachable_event [OF reach assms(2,3) _ _ _ e(1)] e show ?thesis
    by (auto simp: event_ok_def split: ev_status.split)
qed

theorem accepted_event_tracked_witness:
  "\<exists>fp e. mem_abs (sys_store (example_S4 fp)) ''e-1'' = Some e \<and> es_status e = Published
     \<and> es_event e \<in> set (sys_log (example_S4 fp))"
proof -
  obtain fp where fp: "fingerprint example_transaction [Some {''toll''}] = Inr fp"
    using example_fingerprint by blast
  from accepted_event_tracked [where S = "initial_system mem_new_store" and svc = example_service
      and cfg = default_dispatcher_config and S' = "example_S4 fp", OF reach_init _ _ _ _]
    example_accept [OF fp] example_run(1) [OF fp]
  have "\<exists>e. mem_abs (sys_store (example_S4 fp)) ''e-1'' = Some e
     \<and> (es_status e = Published \<longrightarrow> es_event e \<in> set (sys_log (example_S4 fp)))"
    by (fastforce simp: default_dispatcher_config_def example_S1_def)
  with example_published_event [of fp] show ?thesis by auto
qed

text \<open>
  C3: at-least-once delivery: in every reachable state an event that is marked published has been
  accepted by the broker, unchanged.
\<close>

theorem published_is_logged:
  assumes "sys_reachable (sys_step svc cfg mem_abs mem_accept mem_claim mem_mark mem_record_failure)
             mem_new_store S"
    and "0 < cfg_batch_size cfg" "0 < cfg_max_attempts cfg"
    and "mem_abs (sys_store S) eid = Some e" "es_status e = Published"
  shows "es_event e \<in> set (sys_log S)"
  using mem_tx.reachable_event [OF assms(1-3) _ _ _ assms(4)] assms(5) by (simp add: event_ok_def)

theorem published_is_logged_witness:
  "\<exists>fp. clone_event (example_event fp) \<in> set (sys_log (example_S4 fp))"
proof -
  obtain fp where fp: "fingerprint example_transaction [Some {''toll''}] = Inr fp"
    using example_fingerprint by blast
  obtain e where e: "mem_abs (sys_store (example_S4 fp)) ''e-1'' = Some e" "es_status e = Published"
    "es_event e = clone_event (example_event fp)" using example_published_event [of fp] by auto
  from published_is_logged [OF example_reachable(2) [OF fp] _ _ e(1,2)] e(3) show ?thesis
    by (auto simp: default_dispatcher_config_def)
qed



text \<open>
  C5: a published or permanently failed event never changes again, whatever the system does:
  not its status, nor its attempts, nor its event.
\<close>

theorem final_states_stay:
  assumes "sys_reachable (sys_step svc cfg mem_abs mem_accept mem_claim mem_mark mem_record_failure)
             mem_new_store S"
    and "0 < cfg_batch_size cfg" "0 < cfg_max_attempts cfg"
    and "(sys_step svc cfg mem_abs mem_accept mem_claim mem_mark mem_record_failure)\<^sup>*\<^sup>* S S'"
    and "mem_abs (sys_store S) eid = Some e" "es_status e \<noteq> Pending"
  shows "mem_abs (sys_store S') eid = Some e"
  using mem_tx.reachable_inv [OF assms(1-3)] mem_tx.steps_final [OF assms(4,2) _ assms(5,6)]
  by (simp add: system_inv_def)

theorem final_states_stay_witness:
  "\<exists>fp e. mem_abs (example_published fp) ''e-1'' = Some e \<and> es_status e = Published
     \<and> (\<forall>S'. example_step (example_S4 fp) S' \<longrightarrow> mem_abs (sys_store S') ''e-1'' = Some e)"
proof -
  obtain fp where fp: "fingerprint example_transaction [Some {''toll''}] = Inr fp"
    using example_fingerprint by blast
  obtain e where e: "mem_abs (sys_store (example_S4 fp)) ''e-1'' = Some e" "es_status e = Published"
    using example_published_event [of fp] by auto
  have "mem_abs (sys_store S') ''e-1'' = Some e" if "example_step (example_S4 fp) S'" for S'
    using final_states_stay [OF example_reachable(2) [OF fp] _ _ r_into_rtranclp [of example_step, OF that] e(1)] e(2)
    by (simp add: default_dispatcher_config_def)
  with e show ?thesis by auto
qed

text \<open>
  C6: a batch of the dispatcher on the in-memory store is a run of the step relation: what is proved
  for all runs, with other dispatchers and intake in between, covers the code's own loop.
\<close>

theorem batch_is_run:
  assumes "log_publisher publish" "mem_inv (sys_store S)" "0 < cfg_batch_size cfg"
    and "fresh_tokens tokens (sys_used S)"
    and "run_batch (on_store_claim mem_claim) (on_store_mark mem_mark) (on_store_fail mem_record_failure)
           (on_publisher publish) cfg ctxs tokens clock (sys_store S, sys_log S) = (res, (s', l'))"
  shows "\<exists>S'. (sys_step svc cfg mem_abs mem_accept mem_claim mem_mark mem_record_failure)\<^sup>*\<^sup>* S S'
           \<and> sys_store S' = s' \<and> sys_log S' = l'"
  using mem_tx.run_batch_steps [OF assms] by blast

theorem batch_is_run_witness:
  "\<exists>S'. example_step\<^sup>*\<^sup>* (example_S1 ''f'') S'
     \<and> (sys_store S', sys_log S') = snd (run_batch (on_store_claim mem_claim) (on_store_mark mem_mark)
         (on_store_fail mem_record_failure) (on_publisher example_publish) default_dispatcher_config
         (\<lambda>_. None) example_token example_now (example_accepted ''f'', []))"
proof -
  let ?S = "example_S1 ''f''"
  obtain res s' l' where run: "run_batch (on_store_claim mem_claim) (on_store_mark mem_mark)
      (on_store_fail mem_record_failure) (on_publisher example_publish) default_dispatcher_config
      (\<lambda>_. None) example_token example_now (example_accepted ''f'', []) = (res, (s', l'))" by (metis prod.exhaust)
  have S1: "sys_store ?S = example_accepted ''f''" "sys_log ?S = []" "sys_used ?S = {}"
    by (simp_all add: example_S1_def)
  have "\<exists>S'. example_step\<^sup>*\<^sup>* ?S S' \<and> sys_store S' = s' \<and> sys_log S' = l'"
    using batch_is_run [where S = ?S and cfg = default_dispatcher_config
        and svc = example_service, OF example_log_publisher] run example_tokens
    by (auto simp: S1 example_accepted_inv default_dispatcher_config_def)
  with run show ?thesis by (metis snd_conv)
qed

text \<open>
  C7: one batch on the in-memory store with a live context: it never fails, claims the first
  claimable events in identifier order up to the batch size, publishes each once in that order,
  leaves each published or with its failure recorded as the publisher answered, touches nothing
  else, and reports the exact counts.
\<close>

theorem memory_batch:
  assumes "mem_inv s" "0 < cfg_batch_size cfg" "\<forall>j. ctxs j = None" "[] \<notin> range tokens"
  shows "\<exists>ps rs s' q'.
     run_batch (on_store_claim mem_claim) (on_store_mark mem_mark) (on_store_fail mem_record_failure)
       (on_publisher publish) cfg ctxs tokens clock (s, q)
       = ((None, \<lparr>dr_claimed = length ps, dr_published = count_published rs, dr_failed = count_failed rs\<rparr>), (s', q'))
     \<and> map pe_id ps = take (nat (cfg_batch_size cfg)) (claimable_ids (time_utc clock) (ms_events s)
                             (sorted_list_of_fset (fmdom (ms_events s))))
     \<and> rs = publish_outcomes publish ctxs 1 ps q
     \<and> batch_effect cfg (time_utc clock) (zip ps rs) (mem_abs s) (mem_abs s')"
proof -
  from mem_live.run_batch_live [where w = "(s, q)" and publish = publish and clock = clock, OF _ assms(2-4)] assms(1)
  obtain r s' q' where run: "run_batch (on_store_claim mem_claim) (on_store_mark mem_mark)
      (on_store_fail mem_record_failure) (on_publisher publish) cfg ctxs tokens clock (s, q) = ((None, r), (s', q'))"
    by auto
  from mem_outbox.run_batch_refines [OF _ assms(2) run] assms(1) obtain ps rs where
    b: "rs = publish_outcomes publish ctxs 1 ps q" "batch_effect cfg (time_utc clock) (zip ps rs) (mem_abs s) (mem_abs s')"
      "r = \<lparr>dr_claimed = length ps, dr_published = count_published rs, dr_failed = count_failed rs\<rparr>"
    and "\<exists>s1. mem_claim (ctxs 0) tokens (time_utc clock) (cfg_lease cfg) (cfg_batch_size cfg) s = (Inr ps, s1)"
    by auto
  with mem_claim_ids [OF assms(1) _ assms(2)] assms(3)
  have "map pe_id ps = take (nat (cfg_batch_size cfg)) (claimable_ids (time_utc clock) (ms_events s)
                             (sorted_list_of_fset (fmdom (ms_events s))))" by auto
  with run b show ?thesis by blast
qed

theorem memory_batch_witness:
  "\<exists>r s' l'. run_batch (on_store_claim mem_claim) (on_store_mark mem_mark) (on_store_fail mem_record_failure)
      (on_publisher example_publish) default_dispatcher_config (\<lambda>_. None) example_token example_now
      (example_accepted ''f'', []) = ((None, r), (s', l')) \<and> dr_claimed r = 1"
  using memory_batch [of "example_accepted ''f''" default_dispatcher_config "\<lambda>_. None" example_token
      example_publish example_now "[]"] example_accepted_inv example_tokens example_claimable [of "''f''"]
  by (fastforce simp: default_dispatcher_config_def fresh_tokens_def example_now_def time_utc_def)



end
